(* ===== verification/Prelude.thy ===== *)
theory Prelude
  imports Main "HOL-Library.Word"
begin

text \<open>
  Shared vocabulary of the development: machine integers, the fault-or-value results that stand
  for Rust's panics, the build features of \<^verbatim>\<open>libverilua/Cargo.toml\<close>, hash maps with an explicit
  iteration order, and the generic lemmas the component theories rely on.
\<close>

unbundle bit_operations_syntax

subsection \<open>Machine integers and handles\<close>

type_synonym u8 = "8 word"
type_synonym u16 = "16 word"
type_synonym u32 = "32 word"
type_synonym u64 = "64 word"

text \<open>
  \<open>vpiHandle\<close> is an opaque simulator pointer (0 is NULL); \<open>raw\<close> is \<open>ComplexHandleRaw\<close>, a pointer to
  a boxed handle cast to \<open>i64\<close>; a \<open>TaskID\<close> is a \<open>u32\<close> that is only compared.
\<close>

type_synonym vpiHandle = nat
type_synonym raw = int
type_synonym task_id = nat

subsection \<open>Faults\<close>

text \<open>
  \<open>Panic\<close> is a Rust panic (\<open>assert!\<close>, \<open>panic!\<close>, \<open>unwrap\<close>, slice index, division by zero);
  \<open>Undefined\<close> marks what an \<open>unsafe\<close> block must not do (dangling pointer, \<open>unwrap_unchecked\<close> on
  \<open>None\<close>, mutation of a vector that is being iterated); \<open>Hang\<close> is a call that never returns.
\<close>

datatype fault = Panic string | Undefined string | Hang

type_synonym 'a res = "fault + 'a"

named_theorems res_simps \<open>evaluation of fault-or-value results\<close>

definition and_then :: "'a res \<Rightarrow> ('a \<Rightarrow> 'b res) \<Rightarrow> 'b res" where
  "and_then m f = (case m of Inl e \<Rightarrow> Inl e | Inr x \<Rightarrow> f x)"

lemma and_then_Inr [simp]: "and_then (Inr x) f = f x"
  by (simp add: and_then_def)

lemma and_then_Inl [simp]: "and_then (Inl e) f = Inl e"
  by (simp add: and_then_def)

lemma and_then_eq_Inr [res_simps]: "and_then m f = Inr y \<longleftrightarrow> (\<exists>x. m = Inr x \<and> f x = Inr y)"
  by (cases m) auto

definition ok :: "'a res \<Rightarrow> bool" where
  "ok m = (case m of Inl _ \<Rightarrow> False | Inr _ \<Rightarrow> True)"

lemma ok_Inr [simp]: "ok (Inr x)"
  by (simp add: ok_def)

lemma ok_Inl [simp]: "\<not> ok (Inl e)"
  by (simp add: ok_def)

lemma ok_iff: "ok m \<longleftrightarrow> (\<exists>x. m = Inr x)"
  by (cases m) auto

text \<open>A loop over a list that stops at the first fault.\<close>

fun fold_res :: "('a \<Rightarrow> 's \<Rightarrow> 's res) \<Rightarrow> 'a list \<Rightarrow> 's \<Rightarrow> 's res" where
  "fold_res f [] s = Inr s"
| "fold_res f (x # xs) s = and_then (f x s) (fold_res f xs)"

lemma fold_res_append: "fold_res f (xs @ ys) s = and_then (fold_res f xs s) (fold_res f ys)"
proof (induction xs arbitrary: s)
  case Nil
  show ?case by simp
next
  case (Cons x xs)
  then show ?case by (cases "f x s") simp_all
qed

lemma fold_res_invariant:
  assumes "fold_res f xs s = Inr t" and "P s"
    and "\<And>x s t. x \<in> set xs \<Longrightarrow> P s \<Longrightarrow> f x s = Inr t \<Longrightarrow> P t"
  shows "P t"
  using assms
proof (induction xs arbitrary: s)
  case Nil
  then show ?case by simp
next
  case (Cons x xs)
  then obtain s' where "f x s = Inr s'" and "fold_res f xs s' = Inr t"
    by (auto simp: res_simps)
  then show ?case using Cons by (metis list.set_intros)
qed

subsection \<open>Build features\<close>

text \<open>The cargo features the code tests with \<open>cfg!\<close> and \<open>#[cfg]\<close>.\<close>

record features =
  feat_verilator :: bool
  feat_iverilog :: bool
  feat_vcs :: bool
  feat_wave_vpi :: bool
  feat_dpi :: bool
  feat_inertial_put :: bool
  feat_inner_step :: bool
  feat_opt_cb_task :: bool
  feat_merge_cb :: bool
  feat_chunk_task :: bool
  feat_hierarchy_cache :: bool

text \<open>\<open>merge_cb\<close> and \<open>chunk_task\<close> both enable \<open>opt_cb_task\<close> (\<^verbatim>\<open>[features]\<close> of Cargo.toml).\<close>

definition valid_features :: "features \<Rightarrow> bool" where
  "valid_features C \<longleftrightarrow> (feat_merge_cb C \<or> feat_chunk_task C \<longrightarrow> feat_opt_cb_task C)"

definition verilator_build :: features where
  "verilator_build = \<lparr>feat_verilator = True, feat_iverilog = False, feat_vcs = False,
     feat_wave_vpi = False, feat_dpi = False, feat_inertial_put = False, feat_inner_step = True,
     feat_opt_cb_task = True, feat_merge_cb = False, feat_chunk_task = True,
     feat_hierarchy_cache = True\<rparr>"

definition vcs_build :: features where
  "vcs_build = \<lparr>feat_verilator = False, feat_iverilog = False, feat_vcs = True,
     feat_wave_vpi = False, feat_dpi = False, feat_inertial_put = False, feat_inner_step = False,
     feat_opt_cb_task = True, feat_merge_cb = True, feat_chunk_task = True,
     feat_hierarchy_cache = True\<rparr>"

lemma builds_valid: "valid_features verilator_build" "valid_features vcs_build"
  by (simp_all add: valid_features_def verilator_build_def vcs_build_def)

text \<open>The features under which a put may re-enter the library (\<open>hdl_put_value_bak\<close> is used).\<close>

definition reentrant_build :: "features \<Rightarrow> bool" where
  "reentrant_build C \<longleftrightarrow> feat_vcs C \<or> feat_iverilog C"

subsection \<open>Vectors\<close>

text \<open>\<open>iter().position(p)\<close> and \<open>Vec::remove\<close>.\<close>

fun position :: "('a \<Rightarrow> bool) \<Rightarrow> 'a list \<Rightarrow> nat option" where
  "position p [] = None"
| "position p (x # xs) = (if p x then Some 0 else map_option Suc (position p xs))"

definition vec_remove :: "nat \<Rightarrow> 'a list \<Rightarrow> 'a list" where
  "vec_remove i xs = take i xs @ drop (Suc i) xs"

lemma position_None_iff: "position p xs = None \<longleftrightarrow> (\<forall>x \<in> set xs. \<not> p x)"
  by (induction xs) auto

lemma position_Some:
  "position p xs = Some i \<Longrightarrow> i < length xs \<and> p (xs ! i) \<and> (\<forall>j < i. \<not> p (xs ! j))"
proof (induction xs arbitrary: i)
  case Nil
  then show ?case by simp
next
  case (Cons x xs)
  then show ?case
    by (auto split: if_splits simp: nth_Cons less_Suc_eq_0_disj split: nat.splits)
qed

lemma vec_remove_Cons_0 [simp]: "vec_remove 0 (x # xs) = xs"
  by (simp add: vec_remove_def)

lemma vec_remove_Cons_Suc [simp]: "vec_remove (Suc i) (x # xs) = x # vec_remove i xs"
  by (simp add: vec_remove_def)

lemma vec_remove_position_remove1:
  "position p xs = Some i \<Longrightarrow> (\<And>x. x \<in> set xs \<Longrightarrow> p x \<longleftrightarrow> x = r) \<Longrightarrow> vec_remove i xs = remove1 r xs"
proof (induction xs arbitrary: i)
  case Nil
  then show ?case by simp
next
  case (Cons x xs)
  then show ?case by (cases i) (auto split: if_splits)
qed

subsection \<open>Hash maps with an iteration order\<close>

text \<open>
  A \<open>HashMap\<close> that is iterated is an association list with distinct keys; its order is the (from
  the code's side arbitrary) iteration order. \<open>entry(k).or_default()\<close> adds a new key at the end.
\<close>

fun hm_upd :: "'k \<Rightarrow> ('v option \<Rightarrow> 'v) \<Rightarrow> ('k \<times> 'v) list \<Rightarrow> ('k \<times> 'v) list" where
  "hm_upd k f [] = [(k, f None)]"
| "hm_upd k f ((k', v) # m) = (if k' = k then (k', f (Some v)) # m else (k', v) # hm_upd k f m)"

definition hm_remove :: "'k \<Rightarrow> ('k \<times> 'v) list \<Rightarrow> ('k \<times> 'v) list" where
  "hm_remove k m = filter (\<lambda>(k', _). k' \<noteq> k) m"

lemma hm_upd_keys: "fst ` set (hm_upd k f m) = insert k (fst ` set m)"
proof (induction m)
  case Nil
  show ?case by simp
next
  case (Cons a m)
  then show ?case by (cases a) (simp add: insert_commute)
qed

lemma hm_upd_distinct: "distinct (map fst m) \<Longrightarrow> distinct (map fst (hm_upd k f m))"
proof (induction m)
  case Nil
  then show ?case by simp
next
  case (Cons a m)
  then show ?case by (cases a) (auto simp: hm_upd_keys)
qed

lemma hm_upd_lookup: "map_of (hm_upd k f m) = (map_of m)(k \<mapsto> f (map_of m k))"
proof (induction m)
  case Nil
  show ?case by simp
next
  case (Cons a m)
  then show ?case by (cases a) (auto simp: fun_eq_iff)
qed

lemma hm_remove_lookup: "map_of (hm_remove k m) = (map_of m)(k := None)"
  unfolding hm_remove_def by (induction m) (auto simp: fun_eq_iff)

lemma hm_remove_distinct: "distinct (map fst m) \<Longrightarrow> distinct (map fst (hm_remove k m))"
  unfolding hm_remove_def by (induction m) auto

subsection \<open>Bytes and text\<close>

text \<open>
  A Rust \<open>&str\<close> and a C string are lists of bytes, written as \<open>string\<close>; a C string ends before its
  first NUL. \<open>utf8_valid\<close> is the well-formedness that \<open>CStr::to_str\<close> and \<open>str::from_utf8\<close> check.
\<close>

definition has_nul :: "string \<Rightarrow> bool" where
  "has_nul s = list_ex (\<lambda>c. of_char c = (0::nat)) s"

definition cont_byte :: "nat \<Rightarrow> bool" where
  "cont_byte b \<longleftrightarrow> 128 \<le> b \<and> b < 192"

fun utf8_bytes :: "nat list \<Rightarrow> bool" where
  "utf8_bytes [] = True"
| "utf8_bytes (b # bs) =
     (if b < 128 then utf8_bytes bs
      else if 194 \<le> b \<and> b < 224 then
        (case bs of c # r \<Rightarrow> cont_byte c \<and> utf8_bytes r | _ \<Rightarrow> False)
      else if 224 \<le> b \<and> b < 240 then
        (case bs of c # d # r \<Rightarrow>
            (if b = 224 then 160 \<le> c \<and> c < 192 else if b = 237 then 128 \<le> c \<and> c < 160 else cont_byte c)
            \<and> cont_byte d \<and> utf8_bytes r
         | _ \<Rightarrow> False)
      else if 240 \<le> b \<and> b < 245 then
        (case bs of c # d # e # r \<Rightarrow>
            (if b = 240 then 144 \<le> c \<and> c < 192 else if b = 244 then 128 \<le> c \<and> c < 144 else cont_byte c)
            \<and> cont_byte d \<and> cont_byte e \<and> utf8_bytes r
         | _ \<Rightarrow> False)
      else False)"

definition utf8_valid :: "string \<Rightarrow> bool" where
  "utf8_valid s = utf8_bytes (map of_char s)"

lemma utf8_bytes_ascii: "(\<forall>b \<in> set bs. b < 128) \<Longrightarrow> utf8_bytes bs"
  by (induction bs) auto

lemma utf8_valid_ascii: "(\<forall>c \<in> set s. of_char c < (128::nat)) \<Longrightarrow> utf8_valid s"
  unfolding utf8_valid_def by (rule utf8_bytes_ascii) simp

text \<open>Little-endian bytes of an \<open>n\<close>-byte unsigned integer (\<open>to_le_bytes\<close>) and back.\<close>

fun le_bytes :: "nat \<Rightarrow> nat \<Rightarrow> u8 list" where
  "le_bytes 0 v = []"
| "le_bytes (Suc n) v = of_nat (v mod 256) # le_bytes n (v div 256)"

fun from_le :: "u8 list \<Rightarrow> nat" where
  "from_le [] = 0"
| "from_le (b # bs) = unat b + 256 * from_le bs"

lemma length_le_bytes [simp]: "length (le_bytes n v) = n"
  by (induction n arbitrary: v) auto

lemma unat_of_nat_u8: "v < 256 \<Longrightarrow> unat (of_nat v :: u8) = v"
  by (simp add: unat_of_nat take_bit_eq_mod)

lemma from_le_le_bytes: "v < 256 ^ n \<Longrightarrow> from_le (le_bytes n v) = v"
proof (induction n arbitrary: v)
  case 0
  then show ?case by simp
next
  case (Suc n)
  have "v div 256 < 256 ^ n"
    using Suc.prems by (simp add: less_mult_imp_div_less mult.commute)
  then have "from_le (le_bytes n (v div 256)) = v div 256" by (rule Suc.IH)
  moreover have "unat (of_nat (v mod 256) :: u8) = v mod 256" by (simp add: unat_of_nat_u8)
  ultimately show ?case by simp
qed

end
