(* ===== verification/Text.thy ===== *)
theory Text
  imports Prelude
begin

text \<open>
  The string operations of Rust's standard library that several components use: \<open>str::trim\<close>,
  \<open>str::split\<close>, dotted hierarchical names, and the conversions from C strings of
  \<^verbatim>\<open>utils/mod.rs\<close>.
\<close>

subsection \<open>C strings\<close>

text \<open>A \<open>const char *\<close>: \<open>None\<close> is NULL, otherwise the bytes before the NUL.\<close>

type_synonym c_str = "string option"

definition c_char_to_str_opt :: "c_str \<Rightarrow> string option" where
  "c_char_to_str_opt p =
     (case p of None \<Rightarrow> None | Some s \<Rightarrow> if utf8_valid s then Some s else None)"

definition c_char_to_str :: "c_str \<Rightarrow> string res" where
  "c_char_to_str p =
     (case p of None \<Rightarrow> Inl (Undefined ''null C string'')
      | Some s \<Rightarrow> if utf8_valid s then Inr s else Inl (Panic ''c_char_to_str''))"

text \<open>\<open>CString::new(s).expect(..).into_raw()\<close>.\<close>

definition string_to_c_char_owned :: "string \<Rightarrow> c_str res" where
  "string_to_c_char_owned s = (if has_nul s then Inl (Panic ''CString::new'') else Inr (Some s))"

lemma c_char_to_str_opt_Some: "c_char_to_str_opt p = Some s \<longleftrightarrow> p = Some s \<and> utf8_valid s"
  by (auto simp: c_char_to_str_opt_def split: option.splits if_splits)

lemma utf8_bytes_Cons_cases:
  assumes "utf8_bytes (b # bs)"
  obtains us r where "bs = us @ r" "utf8_bytes r" "\<And>t. utf8_bytes (b # us @ t) = utf8_bytes t"
proof -
  consider "b < 128" | "194 \<le> b" "b < 224" | "224 \<le> b" "b < 240" | "240 \<le> b" "b < 245"
    using assms by (auto simp: utf8_bytes.simps(2) split: if_splits)
  then show ?thesis
  proof cases
    case 1
    then show ?thesis using assms that [of "[]" bs] by simp
  next
    case 2
    then obtain c r where "bs = [c] @ r" "utf8_bytes r" "\<And>t. utf8_bytes (b # [c] @ t) = utf8_bytes t"
      using assms by (cases bs) simp_all
    then show ?thesis by (rule that)
  next
    case 3
    then obtain c d r where "bs = [c, d] @ r" "utf8_bytes r" "\<And>t. utf8_bytes (b # [c, d] @ t) = utf8_bytes t"
      using assms by (cases bs; cases "tl bs") (simp_all split: list.splits)
    then show ?thesis by (rule that)
  next
    case 4
    then obtain c d e r where "bs = [c, d, e] @ r" "utf8_bytes r"
        "\<And>t. utf8_bytes (b # [c, d, e] @ t) = utf8_bytes t"
      using assms by (cases bs; cases "tl bs"; cases "tl (tl bs)") (simp_all split: list.splits)
    then show ?thesis by (rule that)
  qed
qed

lemma utf8_bytes_append: "utf8_bytes xs \<Longrightarrow> utf8_bytes ys \<Longrightarrow> utf8_bytes (xs @ ys)"
proof (induction xs rule: length_induct)
  case (1 xs)
  show ?case
  proof (cases xs)
    case Nil
    then show ?thesis using 1 by simp
  next
    case (Cons b bs)
    then obtain us r where r: "bs = us @ r" "utf8_bytes r" and eq: "\<And>t. utf8_bytes (b # us @ t) = utf8_bytes t"
      using 1(2) utf8_bytes_Cons_cases by metis
    have "length r < length xs" using Cons r by simp
    then have "utf8_bytes (r @ ys)" using 1 r(2) by blast
    then show ?thesis using eq [of "r @ ys"] by (simp add: Cons r(1) del: utf8_bytes.simps)
  qed
qed

lemma utf8_valid_append: "utf8_valid s \<Longrightarrow> utf8_valid t \<Longrightarrow> utf8_valid (s @ t)"
  by (simp add: utf8_valid_def utf8_bytes_append)

lemma utf8_valid_Cons: "of_char c < (128 :: nat) \<Longrightarrow> utf8_valid (c # s) = utf8_valid s"
  by (simp add: utf8_valid_def)

lemma utf8_valid_Nil [simp]: "utf8_valid []"
  by (simp add: utf8_valid_def)

subsection \<open>Trimming\<close>

text \<open>The UTF-8 encodings of the characters with the Unicode property \<open>White_Space\<close>.\<close>

definition white_space :: "nat list list" where
  "white_space = map (\<lambda>b. [b]) [9, 10, 11, 12, 13, 32]
     @ [[194, 133], [194, 160], [225, 154, 128]]
     @ map (\<lambda>b. [226, 128, b]) ([128..<139] @ [168, 169, 175])
     @ [[226, 129, 159], [227, 128, 128]]"

definition strip_one :: "nat list list \<Rightarrow> string \<Rightarrow> string option" where
  "strip_one ws s =
     (case List.find (\<lambda>w. map of_char (take (length w) s) = w) ws of
        None \<Rightarrow> None | Some w \<Rightarrow> Some (drop (length w) s))"

lemma strip_one_shorter:
  assumes "strip_one ws s = Some r" and "[] \<notin> set ws"
  shows "length r < length s"
proof -
  obtain w where w: "List.find (\<lambda>w. map of_char (take (length w) s) = w) ws = Some w"
    and r: "r = drop (length w) s"
    using assms(1) by (auto simp: strip_one_def split: option.splits)
  then have "w \<in> set ws" and m: "map of_char (take (length w) s) = w"
    by (auto simp: find_Some_iff)
  then have "w \<noteq> []" using assms(2) by auto
  then have "s \<noteq> []" using m by auto
  then show ?thesis using r \<open>w \<noteq> []\<close> by simp
qed

function strip :: "nat list list \<Rightarrow> string \<Rightarrow> string" where
  "strip ws s = (if [] \<in> set ws then s else
     case strip_one ws s of None \<Rightarrow> s | Some r \<Rightarrow> strip ws r)"
  by pat_completeness auto
termination by (relation "measure (length \<circ> snd)") (auto simp: strip_one_shorter)

declare strip.simps [simp del]

definition trim :: "string \<Rightarrow> string" where
  "trim s = rev (strip (map rev white_space) (rev (strip white_space s)))"

lemma trim_examples: "trim '' a,b  '' = ''a,b''" "trim ''   '' = []" "trim ''x'' = ''x''"
  by (simp_all add: trim_def strip.simps [of "_ # _"] strip.simps [of _ "[]"] strip.simps [of _ "_ # _"]
      white_space_def strip_one_def upt_rec)

subsection \<open>Splitting\<close>

fun split_on :: "char \<Rightarrow> string \<Rightarrow> string list" where
  "split_on c [] = [[]]"
| "split_on c (x # xs) =
     (if x = c then [] # split_on c xs
      else case split_on c xs of [] \<Rightarrow> [[x]] | s # ss \<Rightarrow> (x # s) # ss)"

lemma split_on_not_Nil [simp]: "split_on c s \<noteq> []"
  by (induction s) (auto split: list.splits)

lemma split_on_none: "c \<notin> set s \<Longrightarrow> split_on c s = [s]"
  by (induction s) auto

lemma split_on_append: "c \<notin> set s \<Longrightarrow> split_on c (s @ c # r) = s # split_on c r"
  by (induction s) auto

lemma split_on_segments: "seg \<in> set (split_on c s) \<Longrightarrow> c \<notin> set seg"
  by (induction s arbitrary: seg) (auto split: if_splits list.splits)

subsection \<open>Dotted paths\<close>

definition dots :: "string \<Rightarrow> nat" where
  "dots s = length (filter (\<lambda>c. c = CHR ''.'') s)"

lemma dots_simps [simp]: "dots [] = 0" "dots (s @ t) = dots s + dots t"
  "dots (c # s) = (if c = CHR ''.'' then Suc (dots s) else dots s)"
  by (simp_all add: dots_def)

lemma dots_0_iff: "dots s = 0 \<longleftrightarrow> CHR ''.'' \<notin> set s"
  by (induction s) auto

text \<open>\<open>q\<close> is \<open>p\<close> itself or the name of a scope that contains \<open>p\<close>.\<close>

definition ancestor :: "string \<Rightarrow> string \<Rightarrow> bool" where
  "ancestor q p \<longleftrightarrow> q = p \<or> (\<exists>r. p = q @ CHR ''.'' # r)"

lemma ancestor_refl [simp]: "ancestor p p"
  by (simp add: ancestor_def)

lemma ancestor_trans: "ancestor a b \<Longrightarrow> ancestor b c \<Longrightarrow> ancestor a c"
  by (auto simp: ancestor_def)

lemma ancestor_single: "CHR ''.'' \<notin> set p \<Longrightarrow> ancestor q p \<longleftrightarrow> q = p"
  by (auto simp: ancestor_def)

lemma ancestor_segment:
  assumes "CHR ''.'' \<notin> set s"
  shows "ancestor q (s @ CHR ''.'' # r) \<longleftrightarrow> q = s \<or> (\<exists>t. q = s @ CHR ''.'' # t \<and> ancestor t r)"
proof
  assume "ancestor q (s @ CHR ''.'' # r)"
  then consider "q = s @ CHR ''.'' # r" | u where "s @ CHR ''.'' # r = q @ CHR ''.'' # u"
    by (auto simp: ancestor_def)
  then show "q = s \<or> (\<exists>t. q = s @ CHR ''.'' # t \<and> ancestor t r)"
  proof cases
    case 1
    then show ?thesis by auto
  next
    case 2
    then obtain us where "s @ us = q \<and> CHR ''.'' # r = us @ CHR ''.'' # u
        \<or> s = q @ us \<and> us @ CHR ''.'' # r = CHR ''.'' # u"
      unfolding append_eq_append_conv2 by blast
    then show ?thesis using assms by (cases us) (auto simp: ancestor_def)
  qed
next
  assume "q = s \<or> (\<exists>t. q = s @ CHR ''.'' # t \<and> ancestor t r)"
  then show "ancestor q (s @ CHR ''.'' # r)" by (auto simp: ancestor_def)
qed

subsection \<open>Decimal numbers\<close>

text \<open>\<open>to_string\<close> of unsigned and signed integers.\<close>

fun dec_string :: "nat \<Rightarrow> string" where
  "dec_string n = (if n < 10 then [char_of (48 + n)] else dec_string (n div 10) @ [char_of (48 + n mod 10)])"

declare dec_string.simps [simp del]

definition int_string :: "int \<Rightarrow> string" where
  "int_string i = (if i < 0 then CHR ''-'' # dec_string (nat (- i)) else dec_string (nat i))"

lemma dec_string_value:
  "foldl (\<lambda>a c. a * 10 + (of_char c - 48)) 0 (dec_string n) = n
   \<and> list_all (\<lambda>c. (48::nat) \<le> of_char c \<and> of_char c < (58::nat)) (dec_string n)"
proof (induction n rule: dec_string.induct)
  case (1 n)
  show ?case
  proof (cases "n < 10")
    case True
    then show ?thesis by (subst (1 2) dec_string.simps) simp
  next
    case False
    have m: "n mod 10 < 10" by simp
    then have "of_char (char_of (48 + n mod 10) :: char) = 48 + n mod 10" by simp
    then show ?thesis using 1 [OF False] False m by (subst (1 2) dec_string.simps) simp
  qed
qed

text \<open>The value of a hexadecimal digit (\<open>char::to_digit(16)\<close>, \<open>is_ascii_hexdigit\<close>).\<close>

definition hex_value :: "char \<Rightarrow> nat option" where
  "hex_value c = (let n = of_char c in
     if 48 \<le> n \<and> n < 58 then Some (n - 48)
     else if 97 \<le> n \<and> n < 103 then Some (n - 87)
     else if 65 \<le> n \<and> n < 71 then Some (n - 55)
     else None)"

end
