(* ===== verification/VpiTypes.thy ===== *)
theory VpiTypes
  imports Text
begin

text \<open>
  The part of \<^verbatim>\<open>vpi_user.rs\<close> (the bindings of IEEE 1800 VPI) that the library uses: the constants,
  the value union, callback descriptors, and the library's own callback payloads
  (\<^verbatim>\<open>EdgeCbData\<close>, \<^verbatim>\<open>RwSynchCbData\<close>, ... of \<^verbatim>\<open>vpi_callback.rs\<close>), which travel as \<open>user_data\<close>.
\<close>

subsection \<open>Constants\<close>

abbreviation (input) vpiNoDelay :: nat where "vpiNoDelay \<equiv> 1"
abbreviation (input) vpiInertialDelay :: nat where "vpiInertialDelay \<equiv> 2"
abbreviation (input) vpiForceFlag :: nat where "vpiForceFlag \<equiv> 5"
abbreviation (input) vpiReleaseFlag :: nat where "vpiReleaseFlag \<equiv> 6"

abbreviation (input) vpiBinStrVal :: nat where "vpiBinStrVal \<equiv> 1"
abbreviation (input) vpiOctStrVal :: nat where "vpiOctStrVal \<equiv> 2"
abbreviation (input) vpiDecStrVal :: nat where "vpiDecStrVal \<equiv> 3"
abbreviation (input) vpiHexStrVal :: nat where "vpiHexStrVal \<equiv> 4"
abbreviation (input) vpiScalarVal :: nat where "vpiScalarVal \<equiv> 5"
abbreviation (input) vpiIntVal :: nat where "vpiIntVal \<equiv> 6"
abbreviation (input) vpiVectorVal :: nat where "vpiVectorVal \<equiv> 9"
abbreviation (input) vpiSuppressVal :: nat where "vpiSuppressVal \<equiv> 13"

abbreviation (input) vpiType :: nat where "vpiType \<equiv> 1"
abbreviation (input) vpiName :: nat where "vpiName \<equiv> 2"
abbreviation (input) vpiSize :: nat where "vpiSize \<equiv> 4"
abbreviation (input) vpiDefName :: nat where "vpiDefName \<equiv> 9"
abbreviation (input) vpiTimePrecision :: nat where "vpiTimePrecision \<equiv> 12"
abbreviation (input) vpiMemory :: nat where "vpiMemory \<equiv> 29"
abbreviation (input) vpiModule :: nat where "vpiModule \<equiv> 32"
abbreviation (input) vpiNet :: nat where "vpiNet \<equiv> 36"
abbreviation (input) vpiReg :: nat where "vpiReg \<equiv> 48"

abbreviation (input) cbValueChange :: nat where "cbValueChange \<equiv> 1"
abbreviation (input) cbReadWriteSynch :: nat where "cbReadWriteSynch \<equiv> 6"
abbreviation (input) cbReadOnlySynch :: nat where "cbReadOnlySynch \<equiv> 7"
abbreviation (input) cbNextSimTime :: nat where "cbNextSimTime \<equiv> 8"
abbreviation (input) cbAfterDelay :: nat where "cbAfterDelay \<equiv> 9"
abbreviation (input) cbStartOfSimulation :: nat where "cbStartOfSimulation \<equiv> 11"
abbreviation (input) cbEndOfSimulation :: nat where "cbEndOfSimulation \<equiv> 12"

subsection \<open>The simulator's object model\<close>

text \<open>
  \<open>objects\<close> is \<open>vpi_iterate\<close> followed by \<open>vpi_scan\<close> until NULL (\<open>None\<close>: a null iterator), \<open>obj_str\<close> and
  \<open>obj_get\<close> are \<open>vpi_get_str\<close> and \<open>vpi_get\<close>; \<open>wild_matches\<close> is the crate \<^verbatim>\<open>wildmatch\<close>.
\<close>

record hier_vpi =
  objects :: "nat \<Rightarrow> vpiHandle \<Rightarrow> vpiHandle list option"
  obj_str :: "nat \<Rightarrow> vpiHandle \<Rightarrow> c_str"
  obj_get :: "nat \<Rightarrow> vpiHandle \<Rightarrow> u32"
  wild_matches :: "string \<Rightarrow> string \<Rightarrow> bool"

subsection \<open>Values\<close>

text \<open>A 4-state word: \<open>aval\<close>/\<open>bval\<close> are \<open>i32\<close> in the bindings, bit patterns here.\<close>

record t_vpi_vecval =
  aval :: u32
  bval :: u32

definition vecval :: "u32 \<Rightarrow> u32 \<Rightarrow> t_vpi_vecval" where
  "vecval a b = \<lparr>aval = a, bval = b\<rparr>"

lemma vecval_sel [simp]: "aval (vecval a b) = a" "bval (vecval a b) = b"
  by (simp_all add: vecval_def)

text \<open>
  The number a word vector denotes, least significant word first, and the absence of unknown bits.
\<close>

fun words_value :: "t_vpi_vecval list \<Rightarrow> nat" where
  "words_value [] = 0"
| "words_value (w # ws) = unat (aval w) + 2 ^ 32 * words_value ws"

definition no_x :: "t_vpi_vecval list \<Rightarrow> bool" where
  "no_x ws = list_all (\<lambda>w. bval w = 0) ws"

text \<open>
  The value union. A \<open>vector\<close> pointer is the list of words readable behind it at the time of the
  call, a \<open>str_\<close> pointer the C string behind it.
\<close>

datatype vpi_union = Integer u32 | Scalar u32 | Vector "t_vpi_vecval list" | Str string

record s_vpi_value =
  format :: nat
  value_u :: vpi_union

subsection \<open>Callbacks\<close>

datatype edge_type = Posedge | Negedge | Edge

record edge_cb_data =
  ecb_task_ids :: "task_id list"
  ecb_handle :: raw
  ecb_edge_type :: edge_type
  ecb_callback_id :: nat

text \<open>A callback routine together with the \<open>user_data\<close> box it is registered with; of the routines
  \<open>edge_callback_chunk_N\<close> the number is an argument.\<close>

datatype cb_rtn =
    start_callback
  | final_callback
  | rd_synch_callback task_id
  | rw_synch_callback task_id u64
  | next_sim_time_callback task_id
  | libverilua_flush_put_values
  | libverilua_next_sim_time_cb
  | edge_callback edge_cb_data
  | edge_callback_always edge_cb_data
  | edge_callback_chunk nat edge_cb_data
  | time_callback_handler task_id
  | native_clock_toggle_callback nat

record s_cb_data =
  reason :: nat
  rtn :: cb_rtn
  time_delay :: u64
  cb_obj :: vpiHandle

definition cb_data :: "nat \<Rightarrow> cb_rtn \<Rightarrow> u64 \<Rightarrow> vpiHandle \<Rightarrow> s_cb_data" where
  "cb_data r c t h = \<lparr>reason = r, rtn = c, time_delay = t, cb_obj = h\<rparr>"

lemma cb_data_sel [simp]:
  "reason (cb_data r c t h) = r" "rtn (cb_data r c t h) = c"
  "time_delay (cb_data r c t h) = t" "cb_obj (cb_data r c t h) = h"
  by (simp_all add: cb_data_def)

text \<open>
  The Lua functions the library calls: \<open>sim_event\<close>, \<open>sim_event_chunk_N\<close>, the step functions,
  \<open>verilua_init\<close>, and \<open>dofile\<close>/\<open>load\<close> with their argument.
\<close>

datatype lua_fn =
    Sim_event
  | Sim_event_chunk nat
  | Lua_main_step
  | Lua_posedge_step
  | Lua_negedge_step
  | Verilua_init
  | Dofile string
  | Load_source string

text \<open>
  The calls into the simulator. Every model operation appends its calls to a log, so what the
  library does to the simulator is part of what the theorems speak about.
\<close>

datatype vpi_call =
    PutValue vpiHandle s_vpi_value nat
  | RegisterCb s_cb_data vpiHandle
  | RemoveCb vpiHandle
  | FreeObject vpiHandle
  | LuaCall lua_fn "task_id list"
  | LuaFinish
  | SetGlobal string

text \<open>
  \<open>t_vpi_time\<close> carries a 64-bit time as two 32-bit halves; \<open>split_time\<close> is how the code fills them
  and \<open>join_time\<close> how it (and the simulator) reads them back.
\<close>

definition split_time :: "u64 \<Rightarrow> u32 \<times> u32" where
  "split_time t = (ucast (drop_bit 32 t), ucast (t AND 0xFFFFFFFF))"

definition join_time :: "u32 \<times> u32 \<Rightarrow> u64" where
  "join_time p = push_bit 32 (ucast (fst p)) OR ucast (snd p)"

lemma mask_32: "(0xFFFFFFFF :: u64) = mask 32"
  by (simp add: mask_eq_exp_minus_1)

lemma join_split_time [simp]: "join_time (split_time t) = t"
proof (rule bit_word_eqI)
  fix n assume "n < LENGTH(64)"
  then show "bit (join_time (split_time t)) n = bit t n"
    by (cases "n < 32") (auto simp: join_time_def split_time_def mask_32 bit_simps)
qed

end
