(* ===== verification/State.thy ===== *)
theory State
  imports VpiTypes
begin

text \<open>
  The state of libverilua: \<open>ComplexHandle\<close> (\<^verbatim>\<open>complex_handle.rs\<close>), \<open>VeriluaEnv\<close>
  (\<^verbatim>\<open>gen/gen_verilua_env_struct.rs\<close>), \<open>NativeClock\<close> (\<^verbatim>\<open>native_clock.rs\<close>), the heap that holds
  the boxed handles, and the external functions (simulator, Lua VM, slab, libc) the code calls.
\<close>

subsection \<open>ComplexHandle\<close>

definition MAX_VECTOR_SIZE :: nat where
  "MAX_VECTOR_SIZE = 32"

record 'a shuffled_value_vec =
  sv_vec :: "'a list"
  sv_len :: nat

datatype shuffled_value_vec_type = SvNone | SvU32 | SvU64 | SvHexStr

text \<open>
  The three maps \<open>posedge_cb_count\<close>, \<open>negedge_cb_count\<close>, \<open>edge_cb_count\<close> are one function of the edge
  type, as the code's macros generate them. \<open>ch_env\<close> says whether the back pointer is non-null.
\<close>

record complex_handle =
  ch_env :: bool
  vpi_handle :: vpiHandle
  ch_name :: string
  width :: nat
  beat_num :: nat
  put_value_format :: nat
  put_value_flag :: "nat option"
  put_value_integer :: u32
  put_value_str :: string
  get_value_str_buf :: string
  put_value_vectors :: "t_vpi_vecval list"
  cb_count :: "edge_type \<Rightarrow> task_id \<rightharpoonup> u32"
  random_value_vec_type :: shuffled_value_vec_type
  random_value_u32_vec :: "u32 shuffled_value_vec"
  random_value_u64_vec :: "u64 shuffled_value_vec"
  random_value_hex_str_vec :: "string shuffled_value_vec"

text \<open>
  \<open>(width as f64 / 32.0).ceil() as usize\<close>: exact below \<open>2^53\<close>, and beyond it far above
  \<open>MAX_VECTOR_SIZE\<close> either way.
\<close>

definition beats :: "nat \<Rightarrow> nat" where
  "beats w = (w + 31) div 32"

definition complex_handle_new :: "vpiHandle \<Rightarrow> string \<Rightarrow> nat \<Rightarrow> complex_handle res" where
  "complex_handle_new h nm w =
     (if beats w \<le> MAX_VECTOR_SIZE then
        Inr \<lparr>ch_env = False, vpi_handle = h, ch_name = nm, width = w, beat_num = beats w,
             put_value_format = 0, put_value_flag = None, put_value_integer = 0,
             put_value_str = [], get_value_str_buf = [],
             put_value_vectors = replicate MAX_VECTOR_SIZE (vecval 0 0),
             cb_count = (\<lambda>_. Map.empty),
             random_value_vec_type = SvNone,
             random_value_u32_vec = \<lparr>sv_vec = [], sv_len = 0\<rparr>,
             random_value_u64_vec = \<lparr>sv_vec = [], sv_len = 0\<rparr>,
             random_value_hex_str_vec = \<lparr>sv_vec = [], sv_len = 0\<rparr>\<rparr>
      else Inl (Panic ''beat_num is too large''))"

text \<open>What every handle satisfies from its construction on: all index operations are in range.\<close>

definition handle_wf :: "complex_handle \<Rightarrow> bool" where
  "handle_wf c \<longleftrightarrow> length (put_value_vectors c) = MAX_VECTOR_SIZE
     \<and> beat_num c = beats (width c) \<and> beat_num c \<le> MAX_VECTOR_SIZE"

lemma complex_handle_new_wf: "complex_handle_new h nm w = Inr c \<Longrightarrow>
    handle_wf c \<and> put_value_flag c = None \<and> vpi_handle c = h \<and> width c = w"
  by (auto simp: complex_handle_new_def handle_wf_def split: if_splits)

lemma handle_wf_flag [simp]:
  "handle_wf (c\<lparr>put_value_flag := f\<rparr>) = handle_wf c"
  "handle_wf (c\<lparr>put_value_format := fmt\<rparr>) = handle_wf c"
  by (simp_all add: handle_wf_def)

lemma beats_bounds: "w \<le> 32 * beats w" "32 * beats w < w + 32"
  unfolding beats_def by linarith+

lemma complex_handle_new_ok: "ok (complex_handle_new h nm w) \<longleftrightarrow> w \<le> 1024"
  unfolding complex_handle_new_def beats_def MAX_VECTOR_SIZE_def by auto

subsection \<open>VeriluaEnv\<close>

record callback_info =
  ci_edge_type :: edge_type
  ci_task_id :: task_id

text \<open>
  The \<open>chunk_task\<close> maps \<open>pending_posedge_cb_map\<close>/\<open>negedge\<close>/\<open>edge\<close> and their \<open>_cb_chunk\<close> twins are
  functions of the edge type; the differently typed \<open>pending_edge_cb_map\<close> of builds without
  \<open>chunk_task\<close> is \<open>pending_cb_infos\<close>. \<open>lua_pinned\<close> names the Lua functions
  the environment holds (\<open>lua_sim_event\<close>, \<open>lua_main_step\<close>, ...); the time statistics are left out.
\<close>

record verilua_env =
  hdl_cache :: "string \<rightharpoonup> raw"
  hdl_put_value :: "raw list"
  hdl_put_value_bak :: "raw list"
  use_hdl_put_value_bak :: bool
  pending_cb_map :: "edge_type \<Rightarrow> (raw \<times> task_id list) list"
  pending_cb_chunk :: "edge_type \<Rightarrow> (nat \<times> (raw \<times> task_id list)) list"
  pending_cb_infos :: "(raw \<times> callback_info list) list"
  edge_cb_slab :: "nat \<rightharpoonup> vpiHandle"
  resolve_x_as_zero :: bool
  rw_phase_passed :: bool
  rw_cb_re_registered :: bool
  flush_epoch :: u64
  rd_phase_active :: bool
  initialized :: bool
  finalized :: bool
  has_start_cb :: bool
  has_final_cb :: bool
  has_next_sim_time_cb :: bool
  acc_lua_time :: bool
  lua_pinned :: "string list"

definition default_env :: verilua_env where
  "default_env = \<lparr>hdl_cache = Map.empty, hdl_put_value = [], hdl_put_value_bak = [],
     use_hdl_put_value_bak = False, pending_cb_map = (\<lambda>_. []), pending_cb_chunk = (\<lambda>_. []),
     pending_cb_infos = [], edge_cb_slab = Map.empty, resolve_x_as_zero = False,
     rw_phase_passed = False, rw_cb_re_registered = False, flush_epoch = 0,
     rd_phase_active = False, initialized = False, finalized = False, has_start_cb = False,
     has_final_cb = False, has_next_sim_time_cb = False,
     acc_lua_time = False, lua_pinned = []\<rparr>"

subsection \<open>NativeClock\<close>

record native_clock =
  complex_handle_raw :: raw
  signal_hdl :: vpiHandle
  period_steps :: u64
  high_steps :: u64
  current_val :: u8
  cb_handle :: "vpiHandle option"
  in_callback :: bool
  destroy_pending :: bool

subsection \<open>The world\<close>

text \<open>
  \<open>chdls\<close> is the heap of boxed \<open>ComplexHandle\<close>s, \<open>clocks\<close> that of boxed \<open>NativeClock\<close>s,
  \<open>active_signals\<close> the global registry of \<^verbatim>\<open>native_clock.rs\<close>; \<open>next_raw\<close> is the next address a box
  is allocated at; \<open>rand_calls\<close> counts the calls of \<open>libc::rand\<close>; \<open>proc_env\<close> holds the environment variables of the process. \<open>vpi_log\<close> records every call into the simulator and the Lua VM.
\<close>

record world =
  env :: verilua_env
  chdls :: "raw \<rightharpoonup> complex_handle"
  clocks :: "nat \<rightharpoonup> native_clock"
  active_signals :: "vpiHandle set"
  next_raw :: nat
  rand_calls :: nat
  proc_env :: "string \<rightharpoonup> string"
  vpi_log :: "vpi_call list"

definition empty_world :: world where
  "empty_world = \<lparr>env = default_env, chdls = Map.empty, clocks = Map.empty,
     active_signals = {}, next_raw = 1, rand_calls = 0, proc_env = Map.empty, vpi_log = []\<rparr>"

text \<open>\<open>std::env::var(n).ok()\<close>: a value that is not UTF-8 counts as unset.\<close>

definition env_var :: "world \<Rightarrow> string \<Rightarrow> string option" where
  "env_var w n = c_char_to_str_opt (proc_env w n)"

definition set_env_var :: "string \<Rightarrow> string \<Rightarrow> world \<Rightarrow> world" where
  "set_env_var n v w = w\<lparr>proc_env := (proc_env w)(n \<mapsto> v)\<rparr>"

lemma set_env_var_sel [simp]:
  "env (set_env_var n v w) = env w" "vpi_log (set_env_var n v w) = vpi_log w" "chdls (set_env_var n v w) = chdls w"
  by (simp_all add: set_env_var_def)

definition log_call :: "vpi_call \<Rightarrow> world \<Rightarrow> world" where
  "log_call c w = w\<lparr>vpi_log := vpi_log w @ [c]\<rparr>"

lemma log_call_sel [simp]:
  "env (log_call c w) = env w" "chdls (log_call c w) = chdls w"
  "clocks (log_call c w) = clocks w" "active_signals (log_call c w) = active_signals w"
  "next_raw (log_call c w) = next_raw w" "rand_calls (log_call c w) = rand_calls w"
  "proc_env (log_call c w) = proc_env w" "vpi_log (log_call c w) = vpi_log w @ [c]"
  by (simp_all add: log_call_def)

lemma log_call_env_update [simp]: "log_call c (w\<lparr>env := e\<rparr>) = (log_call c w)\<lparr>env := e\<rparr>"
  by (simp add: log_call_def)

text \<open>\<open>ComplexHandle::from_raw\<close>: dereference without a check.\<close>

definition from_raw :: "raw \<Rightarrow> world \<Rightarrow> complex_handle res" where
  "from_raw r w = (case chdls w r of
     None \<Rightarrow> Inl (Undefined ''dangling ComplexHandle'') | Some c \<Rightarrow> Inr c)"

definition set_chdl :: "raw \<Rightarrow> complex_handle \<Rightarrow> world \<Rightarrow> world" where
  "set_chdl r c w = w\<lparr>chdls := (chdls w)(r \<mapsto> c)\<rparr>"

lemma set_chdl_sel [simp]:
  "env (set_chdl r c w) = env w" "chdls (set_chdl r c w) = (chdls w)(r \<mapsto> c)"
  "clocks (set_chdl r c w) = clocks w" "active_signals (set_chdl r c w) = active_signals w"
  "next_raw (set_chdl r c w) = next_raw w" "rand_calls (set_chdl r c w) = rand_calls w"
  "proc_env (set_chdl r c w) = proc_env w" "vpi_log (set_chdl r c w) = vpi_log w"
  by (simp_all add: set_chdl_def)

lemma from_raw_Inr [simp]: "from_raw r w = Inr c \<longleftrightarrow> chdls w r = Some c"
  by (auto simp: from_raw_def split: option.splits)

lemma from_raw_Some: "chdls w r = Some c \<Longrightarrow> from_raw r w = Inr c"
  by simp

subsection \<open>External code\<close>

text \<open>
  What is not under \<^verbatim>\<open>src/\<close> is a parameter: \<open>put_react\<close> is what the simulator does inside
  \<open>vpi_put_value\<close> after recording the value (it may run value-change callbacks that re-enter the
  library), \<open>get_value\<close> what a read returns, \<open>register_result\<close> the handle of a new callback (0 on
  failure), \<open>vpi_get\<close> a property, \<open>lua_pcall\<close> the Lua scheduler (an error message on failure) for
  \<open>sim_event\<close> (0) or \<open>sim_event_chunk_N\<close> (N), \<open>lua_finish\<close> the Lua \<open>finish_callback\<close>,
  \<open>lua_global\<close> whether a global function exists, \<open>objs\<close> the object model, \<open>process_env\<close> the environment
  variables at the start of the process,
  \<open>slab_vacant_key\<close> the key \<open>Slab::vacant_entry\<close> picks, \<open>libc_rand\<close> the sequence of the C generator.
\<close>

record externals =
  put_react :: "vpiHandle \<Rightarrow> s_vpi_value \<Rightarrow> nat \<Rightarrow> world \<Rightarrow> world res"
  get_value :: "vpiHandle \<Rightarrow> nat \<Rightarrow> world \<Rightarrow> vpi_union"
  register_result :: "s_cb_data \<Rightarrow> world \<Rightarrow> vpiHandle"
  handle_by_name :: "string \<Rightarrow> world \<Rightarrow> vpiHandle"
  handle_by_index :: "vpiHandle \<Rightarrow> nat \<Rightarrow> world \<Rightarrow> vpiHandle"
  vpi_get :: "nat \<Rightarrow> vpiHandle \<Rightarrow> world \<Rightarrow> int"
  lua_pcall :: "lua_fn \<Rightarrow> task_id list \<Rightarrow> world \<Rightarrow> string option \<times> world"
  lua_finish :: "world \<Rightarrow> string option \<times> world"
  lua_global :: "string \<Rightarrow> world \<Rightarrow> bool"
  objs :: hier_vpi
  slab_vacant_key :: "(nat \<rightharpoonup> vpiHandle) \<Rightarrow> nat"
  libc_rand :: "nat \<Rightarrow> nat"
  process_env :: "string \<rightharpoonup> string"
  is_file :: "string \<Rightarrow> bool"

text \<open>The state before the first call into the library.\<close>

definition start_world :: "externals \<Rightarrow> world" where
  "start_world X = empty_world\<lparr>proc_env := process_env X\<rparr>"

definition vpi_put_value :: "externals \<Rightarrow> vpiHandle \<Rightarrow> s_vpi_value \<Rightarrow> nat \<Rightarrow> world \<Rightarrow> world res" where
  "vpi_put_value X h v f w = put_react X h v f (log_call (PutValue h v f) w)"

definition vpi_register_cb :: "externals \<Rightarrow> s_cb_data \<Rightarrow> world \<Rightarrow> vpiHandle \<times> world" where
  "vpi_register_cb X d w =
     (let h = register_result X d w in (h, log_call (RegisterCb d h) w))"

definition vpi_remove_cb :: "vpiHandle \<Rightarrow> world \<Rightarrow> world" where
  "vpi_remove_cb h w = log_call (RemoveCb h) w"

text \<open>Registration whose handle is given straight back with \<open>vpi_free_object\<close>.\<close>

definition register_and_free :: "externals \<Rightarrow> s_cb_data \<Rightarrow> world \<Rightarrow> world" where
  "register_and_free X d w =
     (case vpi_register_cb X d w of (h, w') \<Rightarrow> log_call (FreeObject h) w')"

lemma register_and_free_eq: "register_and_free X d w =
    log_call (FreeObject (register_result X d w)) (log_call (RegisterCb d (register_result X d w)) w)"
  by (simp add: register_and_free_def vpi_register_cb_def Let_def)

text \<open>
  A simulator that never re-enters the library from a put (Verilator runs value-change callbacks
  from its own loop).
\<close>

definition quiet_put :: "externals \<Rightarrow> bool" where
  "quiet_put X \<longleftrightarrow> (\<forall>h v f w. put_react X h v f w = Inr w)"

lemma quiet_put_value: "quiet_put X \<Longrightarrow> vpi_put_value X h v f w = Inr (log_call (PutValue h v f) w)"
  by (simp add: quiet_put_def vpi_put_value_def)

text \<open>The first free key from \<open>k\<close> on: a concrete allocation strategy for \<open>Slab\<close>.\<close>

partial_function (option) find_vacant :: "nat \<Rightarrow> (nat \<rightharpoonup> 'v) \<Rightarrow> nat option" where
  "find_vacant k m = (if m k = None then Some k else find_vacant (Suc k) m)"

declare find_vacant.simps [code]

lemma find_vacant_Some: "finite (dom m) \<Longrightarrow> \<exists>j. find_vacant k m = Some j \<and> m j = None"
proof (induction "card {j \<in> dom m. k \<le> j}" arbitrary: k rule: less_induct)
  case less
  show ?case
  proof (cases "m k = None")
    case True
    then show ?thesis by (subst find_vacant.simps) simp
  next
    case False
    then have "k \<in> {j \<in> dom m. k \<le> j}" and "k \<notin> {j \<in> dom m. Suc k \<le> j}" by auto
    moreover have "{j \<in> dom m. Suc k \<le> j} \<subseteq> {j \<in> dom m. k \<le> j}" by auto
    ultimately have "{j \<in> dom m. Suc k \<le> j} \<subset> {j \<in> dom m. k \<le> j}" by blast
    then have "card {j \<in> dom m. Suc k \<le> j} < card {j \<in> dom m. k \<le> j}"
      using less.prems by (intro psubset_card_mono) simp_all
    then show ?thesis using less False by (subst find_vacant.simps) simp
  qed
qed

definition slab_vacant_ok :: "externals \<Rightarrow> bool" where
  "slab_vacant_ok X \<longleftrightarrow> (\<forall>m. finite (dom m) \<longrightarrow> m (slab_vacant_key X m) = None)"

text \<open>A simulator and Lua VM that only record, for concrete runs.\<close>

definition recording_sim :: externals where
  "recording_sim = \<lparr>put_react = (\<lambda>h v f w. Inr w),
     get_value = (\<lambda>h f w. if f = vpiVectorVal then Vector (replicate 32 (vecval 0 0))
                          else if f = vpiIntVal then Integer 0 else Str ''0''),
     register_result = (\<lambda>d w. Suc (length (vpi_log w))),
     handle_by_name = (\<lambda>n w. length n), handle_by_index = (\<lambda>h i w. h + i + 1),
     vpi_get = (\<lambda>p h w. 8), lua_pcall = (\<lambda>n ts w. (None, w)), lua_finish = (\<lambda>w. (None, w)),
     lua_global = (\<lambda>n w. True),
     objs = \<lparr>objects = (\<lambda>t h. if t = vpiModule \<and> h = 0 then Some [7] else None), obj_str = (\<lambda>p h. Some ''top''),
             obj_get = (\<lambda>p h. 1), wild_matches = (\<lambda>p s. True)\<rparr>,
     slab_vacant_key = (\<lambda>m. the (find_vacant 0 m)), libc_rand = (\<lambda>i. i + 4),
     process_env = (\<lambda>n. if n = ''VL_POST_INIT_SCRIPT'' then None else Some ''1''), is_file = (\<lambda>s. False)\<rparr>"

lemma quiet_recording_sim [simp]: "quiet_put recording_sim"
  by (simp add: quiet_put_def recording_sim_def)

lemma slab_vacant_recording_sim [simp]: "slab_vacant_ok recording_sim"
proof -
  have "m (the (find_vacant 0 m)) = None" if "finite (dom m)" for m :: "nat \<rightharpoonup> vpiHandle"
    using find_vacant_Some [OF that, of 0] by auto
  then show ?thesis by (simp add: slab_vacant_ok_def recording_sim_def)
qed

end
