(* ===== verification/PutQueue.thy ===== *)
theory PutQueue
  imports State
begin

text \<open>
  The pending-put queue: \<^verbatim>\<open>ComplexHandle::try_put_value\<close> (\<^verbatim>\<open>complex_handle.rs\<close>) and
  \<^verbatim>\<open>do_push_hdl_put_value\<close>, \<^verbatim>\<open>do_apply_pending_put_values\<close>, \<^verbatim>\<open>apply_pending_put_values\<close>
  (\<^verbatim>\<open>verilua_env.rs\<close>). The contract is an ordered map from signals to their last posted value;
  the lemmas show that the flag/queue/buffer representation implements it.
\<close>

subsection \<open>Operations\<close>

definition same_signal :: "world \<Rightarrow> vpiHandle \<Rightarrow> raw \<Rightarrow> bool" where
  "same_signal w h q = (case chdls w q of None \<Rightarrow> False | Some d \<Rightarrow> vpi_handle d = h)"

definition remove_stale :: "features \<Rightarrow> vpiHandle \<Rightarrow> world \<Rightarrow> world option" where
  "remove_stale C h w =
     (case position (same_signal w h) (hdl_put_value (env w)) of
        Some i \<Rightarrow> Some (w\<lparr>env := (env w)\<lparr>hdl_put_value := vec_remove i (hdl_put_value (env w))\<rparr>\<rparr>)
      | None \<Rightarrow>
          (if reentrant_build C then
             (case position (same_signal w h) (hdl_put_value_bak (env w)) of
                Some i \<Rightarrow> Some (w\<lparr>env := (env w)\<lparr>hdl_put_value_bak :=
                                   vec_remove i (hdl_put_value_bak (env w))\<rparr>\<rparr>)
              | None \<Rightarrow> None)
           else None))"

definition try_put_value :: "features \<Rightarrow> raw \<Rightarrow> nat \<Rightarrow> nat \<Rightarrow> world \<Rightarrow> (bool \<times> world) res" where
  "try_put_value C r flag fmt w =
     and_then (from_raw r w) (\<lambda>c.
       case put_value_flag c of
         Some curr_flag \<Rightarrow>
           (if curr_flag = vpiForceFlag \<and> flag \<noteq> vpiForceFlag \<and> flag \<noteq> vpiReleaseFlag then Inr (False, w)
            else
              (case remove_stale C (vpi_handle c)
                      (set_chdl r (c\<lparr>put_value_flag := Some flag, put_value_format := fmt\<rparr>) w) of
                 None \<Rightarrow> Inl (Panic ''Duplicate flag, but not found in hdl_put_value'')
               | Some w' \<Rightarrow> Inr (True, w')))
       | None \<Rightarrow>
           Inr (True, set_chdl r (c\<lparr>put_value_flag := Some flag, put_value_format := fmt\<rparr>) w))"

text \<open>\<^verbatim>\<open>libverilua_register_rw_synch_cb\<close> of \<^verbatim>\<open>vpi_callback.rs\<close>.\<close>

definition libverilua_register_rw_synch_cb :: "externals \<Rightarrow> world \<Rightarrow> world" where
  "libverilua_register_rw_synch_cb X w =
     register_and_free X (cb_data cbReadWriteSynch libverilua_flush_put_values 0 0) w"

definition do_push_hdl_put_value :: "externals \<Rightarrow> features \<Rightarrow> raw \<Rightarrow> world \<Rightarrow> world" where
  "do_push_hdl_put_value X C r w =
     (let e = env w;
          e1 = (if reentrant_build C \<and> use_hdl_put_value_bak e
                then e\<lparr>hdl_put_value_bak := hdl_put_value_bak e @ [r]\<rparr>
                else e\<lparr>hdl_put_value := hdl_put_value e @ [r]\<rparr>)
      in if \<not> feat_inertial_put C \<and> rw_phase_passed e1 \<and> \<not> rw_cb_re_registered e1
         then libverilua_register_rw_synch_cb X (w\<lparr>env := e1\<lparr>rw_cb_re_registered := True\<rparr>\<rparr>)
         else w\<lparr>env := e1\<rparr>)"

definition pending_value :: "complex_handle \<Rightarrow> s_vpi_value res" where
  "pending_value c =
     (let f = put_value_format c in
      if f = vpiIntVal then Inr \<lparr>format = vpiIntVal, value_u = Integer (put_value_integer c)\<rparr>
      else if f = vpiVectorVal then
        Inr \<lparr>format = vpiVectorVal, value_u = Vector (put_value_vectors c)\<rparr>
      else if f = vpiHexStrVal \<or> f = vpiDecStrVal \<or> f = vpiOctStrVal \<or> f = vpiBinStrVal then
        (if has_nul (put_value_str c) then Inl (Panic ''CString::new'')
         else Inr \<lparr>format = f, value_u = Str (put_value_str c)\<rparr>)
      else if f = vpiSuppressVal then
        Inr \<lparr>format = vpiSuppressVal, value_u = Integer (put_value_integer c)\<rparr>
      else if f = vpiScalarVal then
        Inr \<lparr>format = vpiScalarVal, value_u = Scalar (put_value_integer c)\<rparr>
      else Inl (Panic ''Unsupported value format''))"

text \<open>
  One iteration of the flush loop. \<open>take().unwrap_unchecked()\<close> on an empty flag is undefined, and so
  is any change of \<open>hdl_put_value\<close> while \<open>iter_mut\<close> borrows it. A change is seen by comparing the
  vector before and after the put. In builds with the backup queue this is exact: during a flush new
  posts go to the backup, so a callback can only shorten the vector. The simulators of the other
  builds run no callback inside \<open>vpi_put_value\<close>; one that did could remove the last element and push
  it again, which leaves an equal vector and is not seen.
\<close>

definition apply_one :: "externals \<Rightarrow> raw \<Rightarrow> world \<Rightarrow> world res" where
  "apply_one X r w =
     and_then (from_raw r w) (\<lambda>c.
     and_then (pending_value c) (\<lambda>v.
       case put_value_flag c of
         None \<Rightarrow> Inl (Undefined ''unwrap_unchecked on None'')
       | Some f \<Rightarrow>
           and_then (vpi_put_value X (vpi_handle c) v f (set_chdl r (c\<lparr>put_value_flag := None\<rparr>) w))
             (\<lambda>w'. if hdl_put_value (env w') = hdl_put_value (env w) then Inr w'
                   else Inl (Undefined ''hdl_put_value changed while iterated''))))"

definition do_apply_pending_put_values :: "externals \<Rightarrow> world \<Rightarrow> world res" where
  "do_apply_pending_put_values X w =
     and_then (fold_res (apply_one X) (hdl_put_value (env w)) w)
       (\<lambda>w'. Inr (w'\<lparr>env := (env w')\<lparr>hdl_put_value := []\<rparr>\<rparr>))"

definition append_bak :: "world \<Rightarrow> world" where
  "append_bak w = w\<lparr>env := (env w)\<lparr>hdl_put_value := hdl_put_value (env w) @ hdl_put_value_bak (env w),
                                  hdl_put_value_bak := []\<rparr>\<rparr>"

partial_function (option) flush_loop :: "externals \<Rightarrow> world \<Rightarrow> world res option" where
  "flush_loop X w =
     (if hdl_put_value (env w) = [] then Some (Inr w)
      else (case do_apply_pending_put_values X w of
              Inl e \<Rightarrow> Some (Inl e)
            | Inr w' \<Rightarrow> flush_loop X (append_bak w')))"

declare flush_loop.simps [code]

definition apply_pending_put_values :: "externals \<Rightarrow> features \<Rightarrow> world \<Rightarrow> world res" where
  "apply_pending_put_values X C w =
     (if hdl_put_value (env w) = [] then Inr w
      else
        let w1 = w\<lparr>env := (env w)\<lparr>flush_epoch := flush_epoch (env w) + 1\<rparr>\<rparr>
        in if reentrant_build C then
             (case flush_loop X (w1\<lparr>env := (env w1)\<lparr>use_hdl_put_value_bak := True\<rparr>\<rparr>) of
                None \<Rightarrow> Inl Hang
              | Some (Inl e) \<Rightarrow> Inl e
              | Some (Inr w2) \<Rightarrow> Inr (w2\<lparr>env := (env w2)\<lparr>use_hdl_put_value_bak := False\<rparr>\<rparr>))
           else do_apply_pending_put_values X w1)"

text \<open>
  The shape every deferred setter has: \<open>if try_put_value(flag, format) { fill the buffer; push }\<close>;
  filling the buffer faults where the setter reads its argument.
\<close>

definition deferred_write ::
  "externals \<Rightarrow> features \<Rightarrow> (complex_handle \<Rightarrow> complex_handle res) \<Rightarrow> nat \<Rightarrow> nat \<Rightarrow> raw \<Rightarrow> world \<Rightarrow>
     world res" where
  "deferred_write X C fill flag fmt r w =
     and_then (try_put_value C r flag fmt w) (\<lambda>(accepted, w1).
       if accepted then
         and_then (from_raw r w1) (\<lambda>c.
         and_then (fill c) (\<lambda>d. Inr (do_push_hdl_put_value X C r (set_chdl r d w1))))
       else Inr w1)"

subsection \<open>The queue invariant\<close>

definition queued :: "world \<Rightarrow> raw list" where
  "queued w = hdl_put_value (env w) @ hdl_put_value_bak (env w)"

text \<open>
  Distinct handles stand for distinct signals (a failed lookup leaves a handle with a null
  \<open>vpiHandle\<close>, of which there may be several), a handle carries a flag exactly when it is queued, no null
  one does, and the backup queue is only used in builds whose simulator re-enters.
\<close>

definition put_inv :: "features \<Rightarrow> world \<Rightarrow> bool" where
  "put_inv C w \<longleftrightarrow>
     distinct (queued w)
     \<and> (\<forall>r. r \<in> set (queued w) \<longleftrightarrow> (\<exists>c. chdls w r = Some c \<and> put_value_flag c \<noteq> None))
     \<and> (\<forall>r s c d. chdls w r = Some c \<and> chdls w s = Some d \<and> vpi_handle c = vpi_handle d
          \<and> vpi_handle c \<noteq> 0 \<longrightarrow> r = s)
     \<and> (\<forall>r c. chdls w r = Some c \<longrightarrow> handle_wf c \<and> (vpi_handle c = 0 \<longrightarrow> put_value_flag c = None))
     \<and> (hdl_put_value_bak (env w) \<noteq> [] \<longrightarrow> reentrant_build C \<and> use_hdl_put_value_bak (env w))"

lemma flagged_nonnull: "put_inv C w \<Longrightarrow> chdls w r = Some c \<Longrightarrow> put_value_flag c \<noteq> None \<Longrightarrow> vpi_handle c \<noteq> 0"
  unfolding put_inv_def by (elim conjE allE [of _ r]) auto

lemma one_handle_per_signal:
  "put_inv C w \<Longrightarrow> chdls w r = Some c \<Longrightarrow> chdls w s = Some d \<Longrightarrow> vpi_handle c = vpi_handle d \<Longrightarrow>
   vpi_handle c \<noteq> 0 \<Longrightarrow> r = s"
  unfolding put_inv_def by blast

text \<open>The handle at \<open>r\<close>, if there is one, stands for a signal.\<close>

definition signal_at :: "world \<Rightarrow> raw \<Rightarrow> bool" where
  "signal_at w r \<longleftrightarrow> (\<forall>c. chdls w r = Some c \<longrightarrow> vpi_handle c \<noteq> 0)"

definition drop_pending :: "raw \<Rightarrow> world \<Rightarrow> world" where
  "drop_pending r w = w\<lparr>env := (env w)\<lparr>hdl_put_value := remove1 r (hdl_put_value (env w)),
                                      hdl_put_value_bak := remove1 r (hdl_put_value_bak (env w))\<rparr>\<rparr>"

lemma drop_pending_sel [simp]:
  "chdls (drop_pending r w) = chdls w" "vpi_log (drop_pending r w) = vpi_log w"
  "queued (drop_pending r w) = remove1 r (hdl_put_value (env w)) @ remove1 r (hdl_put_value_bak (env w))"
  by (simp_all add: drop_pending_def queued_def)

lemma same_signal_set_chdl:
  assumes "put_inv C w" and "chdls w r = Some c" and "vpi_handle c' = vpi_handle c" and "vpi_handle c \<noteq> 0"
  shows "same_signal (set_chdl r c' w) (vpi_handle c) q \<longleftrightarrow> q = r"
  using assms unfolding put_inv_def same_signal_def
  by (auto split: option.splits)

lemma remove_stale_spec:
  assumes inv: "put_inv C w" and c: "chdls w r = Some c" and f: "put_value_flag c \<noteq> None"
    and c': "vpi_handle c' = vpi_handle c"
  shows "remove_stale C (vpi_handle c) (set_chdl r c' w) = Some (set_chdl r c' (drop_pending r w))"
proof -
  let ?q = "hdl_put_value (env w)" and ?b = "hdl_put_value_bak (env w)"
  let ?p = "same_signal (set_chdl r c' w) (vpi_handle c)"
  have "vpi_handle c \<noteq> 0" by (rule flagged_nonnull [OF inv c f])
  then have p: "?p q \<longleftrightarrow> q = r" for q by (rule same_signal_set_chdl [OF inv c c'])
  have dist: "distinct (?q @ ?b)" and mem: "r \<in> set (?q @ ?b)"
    using inv c f unfolding put_inv_def queued_def by auto
  show ?thesis
  proof (cases "position ?p ?q")
    case (Some i)
    then have "r \<in> set ?q" using position_Some [OF Some] p nth_mem by metis
    then have "remove1 r ?b = ?b" using dist by (auto intro: remove1_idem)
    moreover have "vec_remove i ?q = remove1 r ?q"
      using Some p by (rule vec_remove_position_remove1)
    ultimately show ?thesis
      using Some by (simp add: remove_stale_def set_chdl_def drop_pending_def)
  next
    case None
    then have "r \<notin> set ?q" using p by (auto simp: position_None_iff)
    then have b: "r \<in> set ?b" and q: "remove1 r ?q = ?q" using mem by (auto intro: remove1_idem)
    then have C: "reentrant_build C" using inv unfolding put_inv_def by (auto simp: in_set_conv_decomp)
    obtain i where i: "position ?p ?b = Some i"
      using b p by (cases "position ?p ?b") (auto simp: position_None_iff)
    have "vec_remove i ?b = remove1 r ?b"
      using i p by (rule vec_remove_position_remove1)
    then show ?thesis
      using None C i q by (simp add: remove_stale_def set_chdl_def drop_pending_def)
  qed
qed

definition force_blocks :: "complex_handle \<Rightarrow> nat \<Rightarrow> bool" where
  "force_blocks c flag \<longleftrightarrow> put_value_flag c = Some vpiForceFlag \<and> flag \<noteq> vpiForceFlag \<and> flag \<noteq> vpiReleaseFlag"

lemma not_flagged_not_queued:
  assumes "put_inv C w" and "chdls w r = Some c" and "put_value_flag c = None"
  shows "drop_pending r w = w"
proof -
  have "r \<notin> set (queued w)" using assms unfolding put_inv_def by auto
  then show ?thesis by (simp add: drop_pending_def queued_def remove1_idem)
qed

lemma try_put_value_spec:
  assumes "put_inv C w" and "chdls w r = Some c"
  shows "try_put_value C r flag fmt w =
    (if force_blocks c flag then Inr (False, w)
     else Inr (True, set_chdl r (c\<lparr>put_value_flag := Some flag, put_value_format := fmt\<rparr>)
                       (drop_pending r w)))"
  using assms remove_stale_spec [OF assms, of "c\<lparr>put_value_flag := Some flag, put_value_format := fmt\<rparr>"]
    not_flagged_not_queued [OF assms]
  by (cases "put_value_flag c") (auto simp: try_put_value_def force_blocks_def from_raw_Some)


lemma do_push_sel [simp]:
  "chdls (do_push_hdl_put_value X C r w) = chdls w"
  "clocks (do_push_hdl_put_value X C r w) = clocks w"
  "active_signals (do_push_hdl_put_value X C r w) = active_signals w"
  "use_hdl_put_value_bak (env (do_push_hdl_put_value X C r w)) = use_hdl_put_value_bak (env w)"
  "rw_phase_passed (env (do_push_hdl_put_value X C r w)) = rw_phase_passed (env w)"
  "flush_epoch (env (do_push_hdl_put_value X C r w)) = flush_epoch (env w)"
  "rd_phase_active (env (do_push_hdl_put_value X C r w)) = rd_phase_active (env w)"
  by (simp_all add: do_push_hdl_put_value_def Let_def libverilua_register_rw_synch_cb_def
      register_and_free_eq)

lemma do_push_queues:
  "hdl_put_value (env (do_push_hdl_put_value X C r w)) =
     (if reentrant_build C \<and> use_hdl_put_value_bak (env w) then hdl_put_value (env w)
      else hdl_put_value (env w) @ [r])"
  "hdl_put_value_bak (env (do_push_hdl_put_value X C r w)) =
     (if reentrant_build C \<and> use_hdl_put_value_bak (env w) then hdl_put_value_bak (env w) @ [r]
      else hdl_put_value_bak (env w))"
  by (simp_all add: do_push_hdl_put_value_def Let_def libverilua_register_rw_synch_cb_def
      register_and_free_eq)

lemma do_push_queued:
  assumes "hdl_put_value_bak (env w) \<noteq> [] \<longrightarrow> reentrant_build C \<and> use_hdl_put_value_bak (env w)"
  shows "queued (do_push_hdl_put_value X C r w) = queued w @ [r]"
  using assms by (auto simp: queued_def do_push_queues)

subsection \<open>The abstract queue\<close>

text \<open>
  What the queue promises: a list of (signal, value, flag), at most one entry per signal; posting
  replaces the signal's entry and moves it to the end.
\<close>

type_synonym posted = "vpiHandle \<times> s_vpi_value res \<times> nat"

definition put_of :: "world \<Rightarrow> raw \<Rightarrow> posted" where
  "put_of w r = (case chdls w r of
     None \<Rightarrow> (0, Inl (Undefined ''dangling''), 0)
   | Some c \<Rightarrow> (vpi_handle c, pending_value c, case put_value_flag c of None \<Rightarrow> 0 | Some f \<Rightarrow> f))"

definition pending_puts :: "world \<Rightarrow> posted list" where
  "pending_puts w = map (put_of w) (queued w)"

definition post_put :: "vpiHandle \<Rightarrow> s_vpi_value res \<Rightarrow> nat \<Rightarrow> posted list \<Rightarrow> posted list" where
  "post_put h v f ps = filter (\<lambda>p. fst p \<noteq> h) ps @ [(h, v, f)]"

locale buffer_fill =
  fixes fill :: "complex_handle \<Rightarrow> complex_handle res"
  assumes fill_vpi_handle: "fill c = Inr d \<Longrightarrow> vpi_handle d = vpi_handle c"
    and fill_flag: "fill c = Inr d \<Longrightarrow> put_value_flag d = put_value_flag c"
    and fill_wf: "fill c = Inr d \<Longrightarrow> handle_wf c \<Longrightarrow> handle_wf d"
    and fill_ident: "fill c = Inr d \<Longrightarrow> ch_env d = ch_env c \<and> ch_name d = ch_name c"
begin

lemma deferred_write_eq:
  assumes inv: "put_inv C w" and c: "chdls w r = Some c"
  shows "deferred_write X C fill flag fmt r w =
    (if force_blocks c flag then Inr w
     else and_then (fill (c\<lparr>put_value_flag := Some flag, put_value_format := fmt\<rparr>)) (\<lambda>d.
            Inr (do_push_hdl_put_value X C r (set_chdl r d (drop_pending r w)))))"
  using try_put_value_spec [OF inv c]
  by (simp add: deferred_write_def from_raw_Some set_chdl_def)

lemma queued_after:
  assumes inv: "put_inv C w"
  shows "queued (do_push_hdl_put_value X C r (set_chdl r c' (drop_pending r w))) =
    remove1 r (queued w) @ [r]"
proof -
  have "distinct (queued w)" using inv by (simp add: put_inv_def)
  then have "remove1 r (queued w) =
      remove1 r (hdl_put_value (env w)) @ remove1 r (hdl_put_value_bak (env w))"
    by (auto simp: queued_def remove1_append intro!: remove1_idem [symmetric])
  moreover have "hdl_put_value_bak (env (set_chdl r c' (drop_pending r w))) \<noteq> [] \<longrightarrow>
      reentrant_build C \<and> use_hdl_put_value_bak (env (set_chdl r c' (drop_pending r w)))"
    using inv by (auto simp: put_inv_def drop_pending_def)
  ultimately show ?thesis
    by (simp add: do_push_queued) (simp add: queued_def drop_pending_def)
qed

lemma deferred_write_inv:
  assumes inv: "put_inv C w" and c: "chdls w r = Some c" and h: "vpi_handle c \<noteq> 0"
    and w': "deferred_write X C fill flag fmt r w = Inr w'"
  shows "put_inv C w'"
proof (cases "force_blocks c flag")
  case True
  then show ?thesis using w' inv by (simp add: deferred_write_eq [OF inv c])
next
  case False
  then obtain d where fill: "fill (c\<lparr>put_value_flag := Some flag, put_value_format := fmt\<rparr>) = Inr d"
    and w'': "w' = do_push_hdl_put_value X C r (set_chdl r d (drop_pending r w))"
    using w' by (auto simp: deferred_write_eq [OF inv c] res_simps)
  have d: "vpi_handle d = vpi_handle c" "put_value_flag d = Some flag"
    using fill_vpi_handle [OF fill] fill_flag [OF fill] by simp_all
  have "handle_wf c" using inv c by (simp add: put_inv_def)
  then have wf: "handle_wf d" using fill_wf [OF fill] by simp
  have q: "queued w' = remove1 r (queued w) @ [r]" by (simp add: w'' queued_after [OF inv])
  have "distinct (queued w')" "set (queued w') = insert r (set (queued w))"
    using inv unfolding q put_inv_def by auto
  moreover have ch: "chdls w' = (chdls w)(r \<mapsto> d)" by (simp add: w'')
  moreover have "hdl_put_value_bak (env w') \<noteq> [] \<longrightarrow>
      reentrant_build C \<and> use_hdl_put_value_bak (env w')"
    using inv by (auto simp: w'' do_push_queues drop_pending_def put_inv_def)
  ultimately show ?thesis
    using inv c d wf h unfolding put_inv_def
    by (auto split: if_splits)
qed

lemma deferred_write_refines:
  assumes inv: "put_inv C w" and c: "chdls w r = Some c"
    and w': "deferred_write X C fill flag fmt r w = Inr w'"
  shows "pending_puts w' =
    (if force_blocks c flag then pending_puts w
     else post_put (vpi_handle c)
            (and_then (fill (c\<lparr>put_value_flag := Some flag, put_value_format := fmt\<rparr>)) pending_value)
            flag (pending_puts w))"
proof (cases "force_blocks c flag")
  case True
  then show ?thesis using w' by (simp add: deferred_write_eq [OF inv c])
next
  case False
  then obtain d where fill: "fill (c\<lparr>put_value_flag := Some flag, put_value_format := fmt\<rparr>) = Inr d"
    and w'': "w' = do_push_hdl_put_value X C r (set_chdl r d (drop_pending r w))"
    using w' by (auto simp: deferred_write_eq [OF inv c] res_simps)
  have q: "queued w' = remove1 r (queued w) @ [r]" by (simp add: w'' queued_after [OF inv])
  have dist: "distinct (queued w)" using inv by (simp add: put_inv_def)
  have last: "put_of w' r = (vpi_handle c, pending_value d, flag)"
    using fill_vpi_handle [OF fill] fill_flag [OF fill] by (simp add: w'' put_of_def)
  have others: "put_of w' s = put_of w s" if "s \<noteq> r" for s
    using that by (simp add: w'' put_of_def)
  have "fst (put_of w s) \<noteq> vpi_handle c \<longleftrightarrow> s \<noteq> r" if s: "s \<in> set (queued w)" for s
  proof -
    obtain d' where d': "chdls w s = Some d'" "put_value_flag d' \<noteq> None" using inv s unfolding put_inv_def by blast
    then have "vpi_handle d' \<noteq> 0" by (rule flagged_nonnull [OF inv])
    then have "vpi_handle d' = vpi_handle c \<longleftrightarrow> s = r" using inv c d'(1) unfolding put_inv_def by auto
    then show ?thesis by (simp add: put_of_def d'(1))
  qed
  then have "filter ((\<lambda>p. fst p \<noteq> vpi_handle c) \<circ> put_of w) (queued w) = filter (\<lambda>s. s \<noteq> r) (queued w)"
    by (intro filter_cong) auto
  moreover have "remove1 r (queued w) = filter (\<lambda>s. s \<noteq> r) (queued w)"
    using dist by (simp add: distinct_remove1_removeAll removeAll_filter_not_eq eq_commute)
  ultimately show ?thesis
    using False last others
    by (simp add: pending_puts_def post_put_def q fill filter_map)
qed

end

subsection \<open>A concrete design\<close>

text \<open>
  Two signals, an 8-bit one at address 1 and a 64-bit one at address 2, used in concrete runs.
\<close>

definition demo_handle :: "vpiHandle \<Rightarrow> nat \<Rightarrow> complex_handle" where
  "demo_handle h n = (projr (complex_handle_new h ''sig'' n))\<lparr>ch_env := True\<rparr>"

definition demo_world :: world where
  "demo_world = empty_world\<lparr>chdls := Map.empty(1 \<mapsto> demo_handle 100 8, 2 \<mapsto> demo_handle 200 64)\<rparr>"

lemma demo_handle_sel [simp]:
  "handle_wf (demo_handle 100 8)" "handle_wf (demo_handle 200 64)"
  "vpi_handle (demo_handle 100 8) = 100" "vpi_handle (demo_handle 200 64) = 200"
  "put_value_flag (demo_handle 100 8) = None" "put_value_flag (demo_handle 200 64) = None"
  by (simp_all add: demo_handle_def complex_handle_new_def handle_wf_def beats_def MAX_VECTOR_SIZE_def)

lemma demo_world_sel [simp]:
  "env demo_world = default_env" "queued demo_world = []" "use_hdl_put_value_bak default_env = False"
  by (simp_all add: demo_world_def empty_world_def queued_def default_env_def)

lemma demo_world_inv [simp]: "put_inv C demo_world"
proof -
  have "hdl_put_value_bak default_env = []" by (simp add: default_env_def)
  then show ?thesis by (auto simp: put_inv_def) (auto simp: demo_world_def empty_world_def split: if_splits)
qed

end
