(* ===== verification/Flush.thy ===== *)
theory Flush
  imports PutQueue
begin

text \<open>
  What a flush of the pending-put queue does: every posted value reaches the simulator exactly once
  and in order when the simulator does not re-enter, the VCS/Icarus loop returns when re-entrant
  posts run out, and a re-entrant post to a signal that is still queued is undefined behaviour.
\<close>

definition clear_flags :: "raw set \<Rightarrow> (raw \<rightharpoonup> complex_handle) \<Rightarrow> raw \<rightharpoonup> complex_handle" where
  "clear_flags R m r = (if r \<in> R then map_option (\<lambda>c. c\<lparr>put_value_flag := None\<rparr>) (m r) else m r)"

lemma clear_flags_empty [simp]: "clear_flags {} m = m"
  by (simp add: clear_flags_def fun_eq_iff)

definition put_call :: "posted \<Rightarrow> vpi_call" where
  "put_call p = (case p of (h, v, f) \<Rightarrow> PutValue h (projr v) f)"

definition puts_ok :: "world \<Rightarrow> bool" where
  "puts_ok w \<longleftrightarrow> (\<forall>p \<in> set (pending_puts w). ok (fst (snd p)))"

lemma fold_apply_one_quiet:
  assumes X: "quiet_put X" and "distinct q"
    and "\<And>r. r \<in> set q \<Longrightarrow> \<exists>c f v. chdls w r = Some c \<and> put_value_flag c = Some f \<and> pending_value c = Inr v"
  shows "fold_res (apply_one X) q w =
    Inr (w\<lparr>chdls := clear_flags (set q) (chdls w),
           vpi_log := vpi_log w @ map (put_call \<circ> put_of w) q\<rparr>)"
  using assms(2,3)
proof (induction q arbitrary: w)
  case Nil
  then show ?case by simp
next
  case (Cons r q)
  obtain c f v where c: "chdls w r = Some c" and f: "put_value_flag c = Some f"
    and v: "pending_value c = Inr v" using Cons.prems(2) [of r] by auto
  define w1 where "w1 = log_call (PutValue (vpi_handle c) v f) (set_chdl r (c\<lparr>put_value_flag := None\<rparr>) w)"
  have step: "apply_one X r w = Inr w1"
    using c f v by (simp add: apply_one_def quiet_put_value [OF X] w1_def from_raw_Some)
  have put: "put_of w1 s = put_of w s" if "s \<noteq> r" for s
    using that by (simp add: w1_def put_of_def)
  have call: "put_call (put_of w r) = PutValue (vpi_handle c) v f"
    using c f v by (simp add: put_of_def put_call_def)
  have ex: "\<exists>c f v. chdls w1 s = Some c \<and> put_value_flag c = Some f \<and> pending_value c = Inr v"
    if "s \<in> set q" for s
    using Cons.prems that by (auto simp: w1_def)
  have fold: "fold_res (apply_one X) q w1 =
      Inr (w1\<lparr>chdls := clear_flags (set q) (chdls w1),
              vpi_log := vpi_log w1 @ map (put_call \<circ> put_of w1) q\<rparr>)"
    using Cons.prems ex by (intro Cons.IH) auto
  have "clear_flags (set q) (chdls w1) = clear_flags (insert r (set q)) (chdls w)"
    using c Cons.prems(1) by (auto simp: clear_flags_def w1_def fun_eq_iff)
  moreover have "put_of w1 s = put_of w s" if "s \<in> set q" for s
    using that Cons.prems(1) put [of s] by auto
  then have "map (put_call \<circ> put_of w1) q = map (put_call \<circ> put_of w) q" by simp
  ultimately show ?case
    using step fold call by (simp add: w1_def log_call_def set_chdl_def)
qed

lemma queued_handles:
  assumes "put_inv C w" and "puts_ok w" and "r \<in> set (queued w)"
  shows "\<exists>c f v. chdls w r = Some c \<and> put_value_flag c = Some f \<and> pending_value c = Inr v"
proof -
  obtain c f where c: "chdls w r = Some c" "put_value_flag c = Some f"
    using assms unfolding put_inv_def by auto
  moreover have "ok (pending_value c)"
    using assms c unfolding puts_ok_def pending_puts_def put_of_def by force
  ultimately show ?thesis by (auto simp: ok_iff)
qed

lemma do_apply_quiet:
  assumes X: "quiet_put X" and inv: "put_inv C w" and v: "puts_ok w"
    and b: "hdl_put_value_bak (env w) = []"
  shows "do_apply_pending_put_values X w =
    Inr (w\<lparr>env := (env w)\<lparr>hdl_put_value := []\<rparr>,
           chdls := clear_flags (set (hdl_put_value (env w))) (chdls w),
           vpi_log := vpi_log w @ map put_call (pending_puts w)\<rparr>)"
proof -
  have q: "queued w = hdl_put_value (env w)" using b by (simp add: queued_def)
  have "distinct (hdl_put_value (env w))" using inv by (simp add: put_inv_def q)
  moreover have "\<exists>c f v. chdls w r = Some c \<and> put_value_flag c = Some f \<and> pending_value c = Inr v"
    if "r \<in> set (hdl_put_value (env w))" for r
    using queued_handles [OF inv v] that q by simp
  ultimately show ?thesis
    by (simp add: do_apply_pending_put_values_def fold_apply_one_quiet [OF X] pending_puts_def q)
qed

lemma flush_loop_empty: "hdl_put_value (env w) = [] \<Longrightarrow> flush_loop X w = Some (Inr w)"
  by (simp add: flush_loop.simps)

definition flushed :: "world \<Rightarrow> world" where
  "flushed w = w\<lparr>env := (env w)\<lparr>hdl_put_value := [],
       flush_epoch := flush_epoch (env w) + (if hdl_put_value (env w) = [] then 0 else 1)\<rparr>,
     chdls := clear_flags (set (hdl_put_value (env w))) (chdls w),
     vpi_log := vpi_log w @ map put_call (pending_puts w)\<rparr>"

lemma put_inv_env_cong:
  "queued w' = queued w \<Longrightarrow> chdls w' = chdls w \<Longrightarrow>
   (hdl_put_value_bak (env w') \<noteq> [] \<longrightarrow> reentrant_build C \<and> use_hdl_put_value_bak (env w')) \<Longrightarrow>
   put_inv C w \<Longrightarrow> put_inv C w'"
  unfolding put_inv_def by simp

lemma apply_pending_quiet:
  assumes X: "quiet_put X" and inv: "put_inv C w" and v: "puts_ok w"
    and nb: "use_hdl_put_value_bak (env w) = False"
  shows "apply_pending_put_values X C w = Inr (flushed w)"
proof -
  have b: "hdl_put_value_bak (env w) = []" using inv nb by (auto simp: put_inv_def)
  show ?thesis
  proof (cases "hdl_put_value (env w) = []")
    case True
    then show ?thesis
      using b by (simp add: apply_pending_put_values_def flushed_def pending_puts_def queued_def)
  next
    case False
    define w1 where "w1 u = w\<lparr>env := (env w)\<lparr>flush_epoch := flush_epoch (env w) + 1,
        use_hdl_put_value_bak := u\<rparr>\<rparr>" for u
    have sel: "hdl_put_value (env (w1 u)) = hdl_put_value (env w)" "queued (w1 u) = queued w"
      "hdl_put_value_bak (env (w1 u)) = []" "chdls (w1 u) = chdls w" "vpi_log (w1 u) = vpi_log w"
      for u by (simp_all add: w1_def queued_def b)
    have put: "put_of (w1 u) = put_of w" for u by (simp add: w1_def put_of_def fun_eq_iff)
    have inv1: "put_inv C (w1 u)" for u
      by (rule put_inv_env_cong [OF _ _ _ inv]) (simp_all add: sel)
    have v1: "puts_ok (w1 u)" for u using v by (simp add: puts_ok_def pending_puts_def sel put)
    have step: "do_apply_pending_put_values X (w1 u) =
        Inr (w1 u\<lparr>env := (env (w1 u))\<lparr>hdl_put_value := []\<rparr>,
               chdls := clear_flags (set (hdl_put_value (env w))) (chdls w),
               vpi_log := vpi_log w @ map put_call (pending_puts w)\<rparr>)" for u
      using do_apply_quiet [OF X inv1 v1] by (simp add: sel pending_puts_def put)
    have w1F: "w\<lparr>env := (env w)\<lparr>flush_epoch := flush_epoch (env w) + 1\<rparr>\<rparr> = w1 False"
      using nb by (simp add: w1_def)
    show ?thesis
    proof (cases "reentrant_build C")
      case True
      define w2 where "w2 = w1 True\<lparr>env := (env (w1 True))\<lparr>hdl_put_value := []\<rparr>,
               chdls := clear_flags (set (hdl_put_value (env w))) (chdls w),
               vpi_log := vpi_log w @ map put_call (pending_puts w)\<rparr>"
      have w2: "append_bak w2 = w2" "hdl_put_value (env w2) = []"
        by (simp_all add: w2_def append_bak_def w1_def b)
      have "flush_loop X (w1 True) = Some (Inr w2)"
        using False step [of True, folded w2_def] w2
        by (subst flush_loop.simps) (simp add: sel flush_loop_empty)
      then show ?thesis
        using False True nb
        by (simp add: apply_pending_put_values_def Let_def w1_def w2_def flushed_def)
    next
      case nr: False
      then show ?thesis
        using False step [of False]
        by (simp add: apply_pending_put_values_def Let_def w1F) (simp add: w1_def flushed_def nb)
    qed
  qed
qed

lemma flushed_inv:
  assumes inv: "put_inv C w" and nb: "use_hdl_put_value_bak (env w) = False"
  shows "put_inv C (flushed w)" and "pending_puts (flushed w) = []" and "queued (flushed w) = []"
proof -
  have b: "hdl_put_value_bak (env w) = []" using inv nb by (auto simp: put_inv_def)
  then show q: "queued (flushed w) = []" by (simp add: flushed_def queued_def)
  then show "pending_puts (flushed w) = []" by (simp add: pending_puts_def)
  show "put_inv C (flushed w)"
    using inv b unfolding put_inv_def q
    by (simp add: flushed_def clear_flags_def queued_def split: if_splits)
       (auto split: if_splits simp: handle_wf_flag(1))
qed

subsection \<open>Invariants of the flush\<close>

text \<open>What every single put keeps, the whole flush keeps.\<close>

lemma do_apply_invariant:
  assumes one: "\<And>r w w'. P w \<Longrightarrow> apply_one X r w = Inr w' \<Longrightarrow> P w'"
    and upd: "\<And>w q b u e. P w \<Longrightarrow> P (w\<lparr>env := (env w)\<lparr>hdl_put_value := q, hdl_put_value_bak := b,
       flush_epoch := e, use_hdl_put_value_bak := u\<rparr>\<rparr>)"
    and "P w" and "do_apply_pending_put_values X w = Inr w'"
  shows "P w'"
proof -
  obtain w1 where f: "fold_res (apply_one X) (hdl_put_value (env w)) w = Inr w1"
    and w': "w' = w1\<lparr>env := (env w1)\<lparr>hdl_put_value := []\<rparr>\<rparr>"
    using assms(4) by (auto simp: do_apply_pending_put_values_def and_then_eq_Inr)
  have "P w1" using f assms(3) one by (rule fold_res_invariant)
  then show ?thesis
    unfolding w' using upd [where w=w1 and q="[]" and b="hdl_put_value_bak (env w1)"
        and u="use_hdl_put_value_bak (env w1)" and e="flush_epoch (env w1)"] by simp
qed

lemma flush_loop_invariant:
  assumes one: "\<And>r w w'. P w \<Longrightarrow> apply_one X r w = Inr w' \<Longrightarrow> P w'"
    and upd: "\<And>w q b u e. P w \<Longrightarrow> P (w\<lparr>env := (env w)\<lparr>hdl_put_value := q, hdl_put_value_bak := b,
       flush_epoch := e, use_hdl_put_value_bak := u\<rparr>\<rparr>)"
    and run: "flush_loop X w = Some y"
  shows "P w \<Longrightarrow> y = Inr w' \<Longrightarrow> P w'"
proof -
  have b: "P (append_bak w)" if "P w" for w
    using upd [OF that, where q="hdl_put_value (env w) @ hdl_put_value_bak (env w)" and b="[]"
        and u="use_hdl_put_value_bak (env w)" and e="flush_epoch (env w)"] by (simp add: append_bak_def)
  have "X = X \<longrightarrow> P w \<longrightarrow> (\<forall>w'. y = Inr w' \<longrightarrow> P w')"
  proof (rule flush_loop.raw_induct [of "\<lambda>X' w y. X' = X \<longrightarrow> P w \<longrightarrow> (\<forall>w'. y = Inr w' \<longrightarrow> P w')", OF _ run])
    fix loop and X' :: externals and w y
    assume IH: "\<And>X' w y. loop X' w = Some y \<Longrightarrow> X' = X \<longrightarrow> P w \<longrightarrow> (\<forall>w'. y = Inr w' \<longrightarrow> P w')"
      and step: "(if hdl_put_value (env w) = [] then Some (Inr w)
        else case do_apply_pending_put_values X' w of Inl e \<Rightarrow> Some (Inl e)
          | Inr w' \<Rightarrow> loop X' (append_bak w')) = Some y"
    show "X' = X \<longrightarrow> P w \<longrightarrow> (\<forall>w'. y = Inr w' \<longrightarrow> P w')"
    proof (intro impI allI)
      fix w' assume X': "X' = X" and P: "P w" and y: "y = Inr w'"
      show "P w'"
      proof (cases "hdl_put_value (env w) = []")
        case True
        then show ?thesis using step y P by simp
      next
        case False
        then obtain w1 where w1: "do_apply_pending_put_values X w = Inr w1"
          and l: "loop X (append_bak w1) = Some y"
          using step y X' by (auto split: sum.splits)
        have "P w1" using one upd P w1 by (rule do_apply_invariant)
        then show ?thesis using IH [OF l] b y by blast
      qed
    qed
  qed
  then show "P w \<Longrightarrow> y = Inr w' \<Longrightarrow> P w'" by blast
qed

lemma apply_pending_invariant:
  assumes one: "\<And>r w w'. P w \<Longrightarrow> apply_one X r w = Inr w' \<Longrightarrow> P w'"
    and upd: "\<And>w q b u e. P w \<Longrightarrow> P (w\<lparr>env := (env w)\<lparr>hdl_put_value := q, hdl_put_value_bak := b,
       flush_epoch := e, use_hdl_put_value_bak := u\<rparr>\<rparr>)"
    and P: "P w" and run: "apply_pending_put_values X C w = Inr w'"
  shows "P w'"
proof -
  have set: "P (w\<lparr>env := (env w)\<lparr>flush_epoch := e, use_hdl_put_value_bak := u\<rparr>\<rparr>)" if "P w" for w u e
    using upd [OF that, where q="hdl_put_value (env w)" and b="hdl_put_value_bak (env w)" and u=u and e=e] by simp
  show ?thesis
  proof (cases "hdl_put_value (env w) = []")
    case True
    then show ?thesis using run P by (simp add: apply_pending_put_values_def)
  next
    case ne: False
    show ?thesis
    proof (cases "reentrant_build C")
      case True
      then obtain w2 where l: "flush_loop X (w\<lparr>env := (env w)\<lparr>flush_epoch := flush_epoch (env w) + 1,
            use_hdl_put_value_bak := True\<rparr>\<rparr>) = Some (Inr w2)"
        and w': "w' = w2\<lparr>env := (env w2)\<lparr>use_hdl_put_value_bak := False\<rparr>\<rparr>"
        using run ne by (auto simp: apply_pending_put_values_def split: option.splits sum.splits)
      have "P w2" using one upd l set [OF P] refl by (rule flush_loop_invariant)
      then show ?thesis
        unfolding w' using upd [where w=w2 and q="hdl_put_value (env w2)" and b="hdl_put_value_bak (env w2)"
            and u=False and e="flush_epoch (env w2)"] by simp
    next
      case False
      have e: "P (w\<lparr>env := (env w)\<lparr>flush_epoch := flush_epoch (env w) + 1\<rparr>\<rparr>)"
        using upd [OF P, where q="hdl_put_value (env w)" and b="hdl_put_value_bak (env w)"
            and u="use_hdl_put_value_bak (env w)" and e="flush_epoch (env w) + 1"] by simp
      have d: "do_apply_pending_put_values X (w\<lparr>env := (env w)\<lparr>flush_epoch := flush_epoch (env w) + 1\<rparr>\<rparr>) = Inr w'"
        using run ne False by (simp add: apply_pending_put_values_def)
      show ?thesis using one upd e d by (rule do_apply_invariant)
    qed
  qed
qed

end
