(* ===== verification/Getters.thy ===== *)
theory Getters
  imports State
begin

text \<open>
  Reading signals: \<^verbatim>\<open>vpi_access/value_getters.rs\<close> and the handle cache of
  \<^verbatim>\<open>vpi_access/handle_getters.rs\<close>. A read returns a value (and may rewrite the handle's string
  buffer); the simulator's answer is \<open>get_value X\<close>.
\<close>

subsection \<open>Reading the value union\<close>

text \<open>
  Reading \<open>integer\<close> of a union that holds a pointer gives the pointer's low half; nothing uses it.
\<close>

fun as_integer :: "vpi_union \<Rightarrow> u32" where
  "as_integer (Integer i) = i"
| "as_integer (Scalar i) = i"
| "as_integer _ = 0"

fun as_vector :: "vpi_union \<Rightarrow> t_vpi_vecval list" where
  "as_vector (Vector ws) = ws"
| "as_vector _ = []"

fun as_str :: "vpi_union \<Rightarrow> string" where
  "as_str (Str s) = s"
| "as_str _ = []"

text \<open>\<open>vector.add(i).read()\<close>: undefined past the words the simulator returned.\<close>

definition read_word :: "t_vpi_vecval list \<Rightarrow> nat \<Rightarrow> t_vpi_vecval res" where
  "read_word ws i = (if i < length ws then Inr (ws ! i) else Inl (Undefined ''vector read out of range''))"

subsection \<open>Integers and vectors\<close>

definition from_complex_handle_raw :: "raw \<Rightarrow> world \<Rightarrow> complex_handle res" where
  "from_complex_handle_raw r w =
     and_then (from_raw r w) (\<lambda>c. if ch_env c then Inr c else Inl (Undefined ''null env pointer''))"

definition vpiml_get_value :: "externals \<Rightarrow> raw \<Rightarrow> world \<Rightarrow> u32 res" where
  "vpiml_get_value X r w =
     and_then (from_complex_handle_raw r w) (\<lambda>c.
       Inr (as_integer (get_value X (vpi_handle c) vpiIntVal w)))"

definition vpiml_get_value64 :: "externals \<Rightarrow> features \<Rightarrow> raw \<Rightarrow> world \<Rightarrow> u64 res" where
  "vpiml_get_value64 X C r w =
     and_then (from_complex_handle_raw r w) (\<lambda>c.
       let ws = as_vector (get_value X (vpi_handle c) vpiVectorVal w) in
       and_then (read_word ws 0) (\<lambda>lo.
       and_then (if beat_num c > 1 then read_word ws 1 else Inr (vecval 0 0)) (\<lambda>hi.
         if feat_iverilog C \<and> resolve_x_as_zero (env w) \<and> (bval lo \<noteq> 0 \<or> bval hi \<noteq> 0) then Inr 0
         else Inr (push_bit 32 (ucast (aval hi)) OR ucast (aval lo)))))"

text \<open>One element of the result array of \<^verbatim>\<open>vpiml_get_value_multi\<close>, then the whole array.\<close>

definition multi_word :: "features \<Rightarrow> bool \<Rightarrow> t_vpi_vecval \<Rightarrow> u32" where
  "multi_word C resolve_x v = (if feat_iverilog C \<and> resolve_x \<and> bval v \<noteq> 0 then 0 else aval v)"

fun read_multi :: "features \<Rightarrow> bool \<Rightarrow> t_vpi_vecval list \<Rightarrow> nat list \<Rightarrow> u32 list res" where
  "read_multi C x ws [] = Inr []"
| "read_multi C x ws (i # is) =
     and_then (read_word ws (i - 1)) (\<lambda>v.
     and_then (read_multi C x ws is) (\<lambda>rest. Inr (multi_word C x v # rest)))"

definition vpiml_get_value_multi :: "externals \<Rightarrow> features \<Rightarrow> raw \<Rightarrow> u32 \<Rightarrow> world \<Rightarrow> u32 list res" where
  "vpiml_get_value_multi X C r len w =
     and_then (from_complex_handle_raw r w) (\<lambda>c.
       let ws = as_vector (get_value X (vpi_handle c) vpiVectorVal w) in
       and_then (read_multi C (resolve_x_as_zero (env w)) ws [1..<unat (len + 1)]) (\<lambda>vs.
         Inr (len # vs)))"

subsection \<open>Strings\<close>

definition skip_spaces :: "string \<Rightarrow> nat" where
  "skip_spaces s = (case position (\<lambda>b. b \<noteq> CHR '' '') s of Some i \<Rightarrow> i | None \<Rightarrow> length s)"

text \<open>
  The result string and the handle, whose buffer is rewritten when the string had to be changed.
\<close>

definition normalize_value_str_to_c_ptr ::
  "complex_handle \<Rightarrow> string \<Rightarrow> bool \<Rightarrow> bool \<Rightarrow> string \<times> complex_handle" where
  "normalize_value_str_to_c_ptr c s trim_leading_space replace_lower_x_with_zero =
     (if \<not> trim_leading_space \<and> \<not> replace_lower_x_with_zero then (s, c)
      else
        let start = (if trim_leading_space then skip_spaces s else 0);
            normalized = drop start s
        in if \<not> replace_lower_x_with_zero \<and> start = 0 then (s, c)
           else
             let out = (if replace_lower_x_with_zero \<and> CHR ''x'' \<in> set normalized
                        then map (\<lambda>b. if b = CHR ''x'' then CHR ''0'' else b) normalized
                        else normalized)
             in (out, c\<lparr>get_value_str_buf := out @ [CHR 0x00]\<rparr>))"

text \<open>The backend-specific tail shared by the four string getters.\<close>

definition backend_str :: "features \<Rightarrow> world \<Rightarrow> complex_handle \<Rightarrow> string \<Rightarrow> string \<times> complex_handle" where
  "backend_str C w c s =
     (if feat_vcs C then normalize_value_str_to_c_ptr c s True False
      else if feat_iverilog C then
        (if resolve_x_as_zero (env w) then normalize_value_str_to_c_ptr c s True True else (s, c))
      else (s, c))"

definition gen_get_value_str :: "externals \<Rightarrow> features \<Rightarrow> nat \<Rightarrow> raw \<Rightarrow> world \<Rightarrow> (string \<times> world) res" where
  "gen_get_value_str X C fmt r w =
     and_then (from_complex_handle_raw r w) (\<lambda>c.
       case backend_str C w c (as_str (get_value X (vpi_handle c) fmt w)) of
         (s, c') \<Rightarrow> Inr (s, set_chdl r c' w))"

definition vpiml_get_value_hex_str :: "externals \<Rightarrow> features \<Rightarrow> raw \<Rightarrow> world \<Rightarrow> (string \<times> world) res" where
  "vpiml_get_value_hex_str X C = gen_get_value_str X C vpiHexStrVal"

definition vpiml_get_value_bin_str :: "externals \<Rightarrow> features \<Rightarrow> raw \<Rightarrow> world \<Rightarrow> (string \<times> world) res" where
  "vpiml_get_value_bin_str X C = gen_get_value_str X C vpiBinStrVal"

definition vpiml_get_value_oct_str :: "externals \<Rightarrow> features \<Rightarrow> raw \<Rightarrow> world \<Rightarrow> (string \<times> world) res" where
  "vpiml_get_value_oct_str X C = gen_get_value_str X C vpiOctStrVal"

text \<open>
  \<open>parse_bytes\<close> and \<open>to_str_radix\<close> are \<open>num_bigint::BigUint\<close>'s. The Verilator branch goes through the
  hex string; unknown bits count as 0.
\<close>

definition clean_hex_digit :: "char \<Rightarrow> char" where
  "clean_hex_digit b = (if b \<in> {CHR ''x'', CHR ''X'', CHR ''z'', CHR ''Z''} then CHR ''0'' else b)"

definition vpiml_get_value_dec_str ::
  "(string \<Rightarrow> nat \<Rightarrow> nat option) \<Rightarrow> (nat \<Rightarrow> nat \<Rightarrow> string) \<Rightarrow> externals \<Rightarrow> features \<Rightarrow> raw \<Rightarrow> world \<Rightarrow>
     (string \<times> world) res" where
  "vpiml_get_value_dec_str parse_bytes to_str_radix X C r w =
     and_then (from_complex_handle_raw r w) (\<lambda>c.
       if feat_verilator C then
         (let raw_hex = as_str (get_value X (vpi_handle c) vpiHexStrVal w);
              normalized_hex = drop (skip_spaces raw_hex) raw_hex
          in if normalized_hex = [] then
               Inr (''0'', set_chdl r (c\<lparr>get_value_str_buf := ''0'' @ [CHR 0x00]\<rparr>) w)
             else
               (case parse_bytes (map clean_hex_digit normalized_hex) 16 of
                  None \<Rightarrow> Inl (Panic ''Failed to parse cleaned hex string'')
                | Some v \<Rightarrow>
                    (let d = to_str_radix v 10
                     in Inr (d, set_chdl r (c\<lparr>get_value_str_buf := d @ [CHR 0x00]\<rparr>) w))))
       else
         (case backend_str C w c (as_str (get_value X (vpi_handle c) vpiDecStrVal w)) of
            (s, c') \<Rightarrow> Inr (s, set_chdl r c' w)))"

definition vpiml_get_value_str ::
  "(string \<Rightarrow> nat \<Rightarrow> nat option) \<Rightarrow> (nat \<Rightarrow> nat \<Rightarrow> string) \<Rightarrow> externals \<Rightarrow> features \<Rightarrow> raw \<Rightarrow> nat \<Rightarrow> world \<Rightarrow>
     (string \<times> world) res" where
  "vpiml_get_value_str parse_bytes to_str_radix X C r fmt w =
     (if fmt = vpiBinStrVal then vpiml_get_value_bin_str X C r w
      else if fmt = vpiHexStrVal then vpiml_get_value_hex_str X C r w
      else if fmt = vpiOctStrVal then vpiml_get_value_oct_str X C r w
      else if fmt = vpiDecStrVal then vpiml_get_value_dec_str parse_bytes to_str_radix X C r w
      else Inl (Panic ''Invalid format''))"

end
