(* ===== verification/Lossy.thy ===== *)
theory Lossy
  imports Text
begin

text \<open>
  \<open>CStr::to_string_lossy\<close>, by which \<open>c_char_to_string\<close> of \<^verbatim>\<open>utils/mod.rs\<close> and the shell runner read
  text: every maximal invalid piece is replaced by U+FFFD.
\<close>

text \<open>
  The continuation bytes that the first byte \<open>b\<close> asks for, and how many of the following bytes fit.
\<close>

definition utf8_need :: "nat \<Rightarrow> nat option" where
  "utf8_need b =
     (if b < 128 then Some 0 else if 194 \<le> b \<and> b < 224 then Some 1
      else if 224 \<le> b \<and> b < 240 then Some 2 else if 240 \<le> b \<and> b < 245 then Some 3 else None)"

definition second_ok :: "nat \<Rightarrow> nat \<Rightarrow> bool" where
  "second_ok b c \<longleftrightarrow>
     (if b = 224 then 160 \<le> c \<and> c < 192 else if b = 237 then 128 \<le> c \<and> c < 160
      else if b = 240 then 144 \<le> c \<and> c < 192 else if b = 244 then 128 \<le> c \<and> c < 144 else cont_byte c)"

definition utf8_fit :: "nat \<Rightarrow> nat list \<Rightarrow> nat" where
  "utf8_fit b cs =
     (case cs of [] \<Rightarrow> 0 | c # r \<Rightarrow> if second_ok b c then Suc (length (takeWhile cont_byte r)) else 0)"

text \<open>Whether the text starts with a character, and the bytes after its first that belong to the piece.\<close>

definition utf8_piece :: "nat \<Rightarrow> nat list \<Rightarrow> bool \<times> nat" where
  "utf8_piece b bs =
     (case utf8_need b of
        None \<Rightarrow> (False, 0)
      | Some n \<Rightarrow> let k = utf8_fit b (take n bs) in (k = n, k))"

definition replacement :: "nat list" where "replacement = [239, 191, 189]"

function lossy_bytes :: "nat list \<Rightarrow> nat list" where
  "lossy_bytes [] = []"
| "lossy_bytes (b # bs) =
     (case utf8_piece b bs of
        (good, k) \<Rightarrow> (if good then b # take k bs else replacement) @ lossy_bytes (drop k bs))"
  by pat_completeness auto
termination by (relation "measure length") auto

definition to_string_lossy :: "string \<Rightarrow> string" where
  "to_string_lossy s = map char_of (lossy_bytes (map of_char s))"

text \<open>\<open>c_char_to_string\<close> on a non-null pointer.\<close>

definition c_char_to_string :: "c_str \<Rightarrow> string res" where
  "c_char_to_string p = (case p of None \<Rightarrow> Inl (Undefined ''null C string'') | Some s \<Rightarrow> Inr (to_string_lossy s))"

lemma lossy_valid: "utf8_bytes bs \<Longrightarrow> lossy_bytes bs = bs"
proof (induction bs rule: lossy_bytes.induct)
  case (2 b bs)
  have IH: "lossy_bytes (drop k bs) = drop k bs" if "utf8_piece b bs = (g, k)" "utf8_bytes (drop k bs)" for g k
    using that 2(1) by auto
  consider "b < 128" | "194 \<le> b" "b < 224" | "224 \<le> b" "b < 240" | "240 \<le> b" "b < 245"
    using 2(2) by (auto simp: utf8_bytes.simps(2) split: if_splits)
  then have "\<exists>k. utf8_piece b bs = (True, k) \<and> utf8_bytes (drop k bs)"
  proof cases
    case 1
    then show ?thesis using 2(2) by (simp add: utf8_piece_def utf8_need_def utf8_fit_def)
  next
    case 2
    then show ?thesis using \<open>utf8_bytes (b # bs)\<close>
      by (cases bs) (simp_all add: utf8_piece_def utf8_need_def utf8_fit_def second_ok_def Let_def)
  next
    case 3
    then show ?thesis using \<open>utf8_bytes (b # bs)\<close>
      by (cases bs; cases "tl bs")
        (simp_all add: utf8_piece_def utf8_need_def utf8_fit_def second_ok_def Let_def numeral_2_eq_2)
  next
    case 4
    then show ?thesis using \<open>utf8_bytes (b # bs)\<close>
      by (cases bs; cases "tl bs"; cases "tl (tl bs)")
        (simp_all add: utf8_piece_def utf8_need_def utf8_fit_def second_ok_def Let_def numeral_3_eq_3)
  qed
  then obtain k where "utf8_piece b bs = (True, k)" "utf8_bytes (drop k bs)" by blast
  then show ?case using IH by simp
qed simp

lemma utf8_fit_valid:
  assumes "utf8_need b = Some n" "utf8_fit b (take n bs) = n"
  shows "utf8_bytes (b # take n bs)"
proof -
  consider "b < 128" "n = 0" | "194 \<le> b" "b < 224" "n = 1" | "224 \<le> b" "b < 240" "n = 2" | "240 \<le> b" "b < 245" "n = 3"
    using assms(1) by (auto simp: utf8_need_def split: if_splits)
  then show ?thesis
  proof cases
    case 1
    then show ?thesis by simp
  next
    case 2
    then show ?thesis using assms(2)
      by (cases bs) (simp_all add: utf8_fit_def second_ok_def split: if_splits)
  next
    case 3
    then show ?thesis using assms(2)
      by (cases bs; cases "tl bs") (auto simp: utf8_fit_def second_ok_def numeral_2_eq_2 split: if_splits)
  next
    case 4
    then show ?thesis using assms(2)
      by (cases bs; cases "tl bs"; cases "tl (tl bs)")
        (auto simp: utf8_fit_def second_ok_def numeral_3_eq_3 split: if_splits)
  qed
qed

lemma lossy_utf8: "utf8_bytes (lossy_bytes bs)"
proof (induction bs rule: lossy_bytes.induct)
  case (2 b bs)
  obtain g k where p: "utf8_piece b bs = (g, k)" by (cases "utf8_piece b bs") blast
  have "utf8_bytes replacement" by (simp add: replacement_def cont_byte_def)
  moreover have "utf8_bytes (b # take k bs)" if g
    using p that utf8_fit_valid [of b k bs] by (auto simp: utf8_piece_def Let_def simp del: utf8_bytes.simps split: option.splits)
  ultimately have "utf8_bytes (if g then b # take k bs else replacement)" by (cases g) (simp_all only: if_True if_False)
  moreover have "utf8_bytes (lossy_bytes (drop k bs))" using 2 p by auto
  ultimately show ?case using p utf8_bytes_append by simp
qed simp

lemma lossy_small: "\<forall>b \<in> set bs. b < 256 \<Longrightarrow> \<forall>b \<in> set (lossy_bytes bs). b < 256"
proof (induction bs rule: lossy_bytes.induct)
  case (2 b bs)
  obtain g k where p: "utf8_piece b bs = (g, k)" by (cases "utf8_piece b bs") blast
  have "\<forall>b \<in> set (lossy_bytes (drop k bs)). b < 256" using 2 p set_drop_subset by fastforce
  then show ?case using p 2(2) set_take_subset [of k bs] by (auto simp: replacement_def)
qed simp

lemma utf8_valid_lossy: "utf8_valid (to_string_lossy s)"
proof -
  have "map of_char (to_string_lossy s) = lossy_bytes (map of_char s)"
    unfolding to_string_lossy_def using lossy_small [of "map of_char s"] by (simp add: map_idI)
  then show ?thesis unfolding utf8_valid_def using lossy_utf8 by simp
qed

lemma to_string_lossy_id [simp]: "utf8_valid s \<Longrightarrow> to_string_lossy s = s"
  by (simp add: to_string_lossy_def utf8_valid_def lossy_valid comp_def map_idI)

end
