(* ===== verification/Setters.thy ===== *)
theory Setters
  imports Flush Getters Lossy
begin

text \<open>
  Writing signals: \<^verbatim>\<open>vpi_access/value_setters.rs\<close>. The macros there generate each operation twice,
  for \<open>set\<close> (\<open>vpiNoDelay\<close>) and \<open>force\<close> (\<open>vpiForceFlag\<close>); here the flag is an argument. Every operation
  has a deferred form (through the pending-put queue, or an inertial put when \<open>inertial_put\<close> is
  on) and an immediate form.
\<close>

subsection \<open>Filling the word buffer\<close>

definition set_word :: "nat \<Rightarrow> u32 \<Rightarrow> u32 \<Rightarrow> t_vpi_vecval list \<Rightarrow> t_vpi_vecval list" where
  "set_word i a b vs = vs[i := vecval a b]"

definition set_aval :: "nat \<Rightarrow> u32 \<Rightarrow> t_vpi_vecval list \<Rightarrow> t_vpi_vecval list" where
  "set_aval i a vs = vs[i := (vs ! i)\<lparr>aval := a\<rparr>]"

text \<open>\<open>for i in lo..hi { vectors[i] = 0 }\<close>.\<close>

definition zero_words :: "nat \<Rightarrow> nat \<Rightarrow> t_vpi_vecval list \<Rightarrow> t_vpi_vecval list" where
  "zero_words lo hi vs = fold (\<lambda>i. set_word i 0 0) [lo..<hi] vs"

definition with_vectors :: "(t_vpi_vecval list \<Rightarrow> t_vpi_vecval list) \<Rightarrow> complex_handle \<Rightarrow> complex_handle" where
  "with_vectors f c = c\<lparr>put_value_vectors := f (put_value_vectors c)\<rparr>"

definition hi32 :: "u64 \<Rightarrow> u32" where
  "hi32 v = ucast (drop_bit 32 v)"

definition lo32 :: "u64 \<Rightarrow> u32" where
  "lo32 v = ucast (v AND 0xFFFFFFFF)"

text \<open>\<open>((value << 32) >> 32) as _\<close>, the other spelling of the low half.\<close>

definition lo32_shift :: "u64 \<Rightarrow> u32" where
  "lo32_shift v = ucast (drop_bit 32 (push_bit 32 v))"

text \<open>The deferred \<open>vpiml_set_value\<close> writes \<open>aval\<close> of word 0 and nothing else.\<close>

definition fill_value :: "u32 \<Rightarrow> complex_handle \<Rightarrow> complex_handle res" where
  "fill_value v c = Inr (with_vectors (set_aval 0 v) c)"

text \<open>The inertial and immediate forms also clear \<open>bval\<close> and the upper words.\<close>

definition fill_value_zeroed :: "u32 \<Rightarrow> complex_handle \<Rightarrow> complex_handle res" where
  "fill_value_zeroed v c = Inr (with_vectors (zero_words 1 (beat_num c) \<circ> set_word 0 v 0) c)"

definition fill_value64 :: "u64 \<Rightarrow> complex_handle \<Rightarrow> complex_handle res" where
  "fill_value64 v c =
     Inr (with_vectors (set_word 0 (lo32 v) 0 \<circ> set_word 1 (hi32 v) 0 \<circ> zero_words 2 (beat_num c)) c)"

definition fill_value64_force_single :: "u64 \<Rightarrow> complex_handle \<Rightarrow> complex_handle res" where
  "fill_value64_force_single v c =
     Inr (with_vectors (set_aval 0 (lo32_shift v) \<circ> set_aval 1 (hi32 v) \<circ> zero_words 0 (beat_num c)) c)"

text \<open>\<open>*value.add(i)\<close> for \<open>i < beat_num\<close>: undefined if the caller's array is shorter.\<close>

definition fill_value_multi :: "u32 list \<Rightarrow> complex_handle \<Rightarrow> complex_handle res" where
  "fill_value_multi vals c =
     (if beat_num c \<le> length vals then
        Inr (with_vectors (fold (\<lambda>i. set_word i (vals ! i) 0) [0..<beat_num c]) c)
      else Inl (Undefined ''value array shorter than beat_num''))"

definition fill_value_multi_beat :: "u32 list \<Rightarrow> complex_handle \<Rightarrow> complex_handle res" where
  "fill_value_multi_beat vals c =
     Inr (with_vectors (fold (\<lambda>i. set_aval i (vals ! i)) [0..<length vals]) c)"

text \<open>\<open>c_char_to_str(value_str).to_string()\<close> panics on invalid UTF-8.\<close>

definition fill_str :: "string \<Rightarrow> complex_handle \<Rightarrow> complex_handle res" where
  "fill_str s c = (if utf8_valid s then Inr (c\<lparr>put_value_str := s\<rparr>) else Inl (Panic ''c_char_to_str''))"

definition fill_release :: "vpi_union \<Rightarrow> complex_handle \<Rightarrow> complex_handle res" where
  "fill_release u c =
     (let ws = as_vector u in
      if beat_num c \<le> length ws then
        Inr (with_vectors (fold (\<lambda>i. set_word i (aval (ws ! i)) (bval (ws ! i))) [0..<beat_num c])
               (c\<lparr>put_value_integer := as_integer u\<rparr>))
      else Inl (Undefined ''vector read out of range''))"

lemma length_set_word [simp]: "length (set_word i a b vs) = length vs"
  by (simp add: set_word_def)

lemma length_set_aval [simp]: "length (set_aval i a vs) = length vs"
  by (simp add: set_aval_def)

lemma length_fold_words:
  "(\<And>i vs. length (f i vs) = length vs) \<Longrightarrow> length (fold f is vs) = length (vs :: t_vpi_vecval list)"
  by (induction "is" arbitrary: vs) auto

lemma length_zero_words [simp]: "length (zero_words lo hi vs) = length vs"
  unfolding zero_words_def by (rule length_fold_words) simp

lemma with_vectors_sel [simp]:
  "put_value_vectors (with_vectors f c) = f (put_value_vectors c)"
  "vpi_handle (with_vectors f c) = vpi_handle c"
  "put_value_flag (with_vectors f c) = put_value_flag c"
  "put_value_format (with_vectors f c) = put_value_format c"
  "width (with_vectors f c) = width c" "beat_num (with_vectors f c) = beat_num c"
  "ch_name (with_vectors f c) = ch_name c" "ch_env (with_vectors f c) = ch_env c"
  by (simp_all add: with_vectors_def)

lemma with_vectors_wf:
  "(\<And>vs. length (f vs) = length vs) \<Longrightarrow> handle_wf c \<Longrightarrow> handle_wf (with_vectors f c)"
  by (simp add: handle_wf_def)

interpretation fv: buffer_fill "fill_value v" for v
  by unfold_locales (auto simp: fill_value_def intro!: with_vectors_wf)

interpretation fvz: buffer_fill "fill_value_zeroed v" for v
  by unfold_locales (auto simp: fill_value_zeroed_def intro!: with_vectors_wf)

interpretation fv64: buffer_fill "fill_value64 v" for v
  by unfold_locales (auto simp: fill_value64_def intro!: with_vectors_wf)

interpretation fv64s: buffer_fill "fill_value64_force_single v" for v
  by unfold_locales (auto simp: fill_value64_force_single_def intro!: with_vectors_wf)

interpretation fvm: buffer_fill "fill_value_multi vals" for vals
  by unfold_locales
    (auto simp: fill_value_multi_def length_fold_words split: if_splits intro!: with_vectors_wf)

interpretation fvmb: buffer_fill "fill_value_multi_beat vals" for vals
  by unfold_locales
    (auto simp: fill_value_multi_beat_def length_fold_words intro!: with_vectors_wf)

interpretation fs: buffer_fill "fill_str s" for s
  by unfold_locales (auto simp: fill_str_def handle_wf_def split: if_splits)

interpretation fr: buffer_fill "fill_release u" for u
  by unfold_locales
    (auto simp: fill_release_def Let_def length_fold_words handle_wf_def split: if_splits)

subsection \<open>The generated operations\<close>

definition inertial_flag :: "nat \<Rightarrow> nat" where
  "inertial_flag flag = (if flag = vpiForceFlag then vpiForceFlag else vpiInertialDelay)"

text \<open>Fill the handle's buffer and put it as a vector at once.\<close>

definition put_filled ::
  "externals \<Rightarrow> (complex_handle \<Rightarrow> complex_handle res) \<Rightarrow> nat \<Rightarrow> raw \<Rightarrow> world \<Rightarrow> world res" where
  "put_filled X fill flag r w =
     and_then (from_raw r w) (\<lambda>c.
     and_then (fill c) (\<lambda>d.
       vpi_put_value X (vpi_handle d) \<lparr>format = vpiVectorVal, value_u = Vector (put_value_vectors d)\<rparr>
         flag (set_chdl r d w)))"

text \<open>A put that does not touch the handle: a stack array or a caller's string.\<close>

definition put_direct :: "externals \<Rightarrow> s_vpi_value \<Rightarrow> nat \<Rightarrow> raw \<Rightarrow> world \<Rightarrow> world res" where
  "put_direct X v flag r w =
     and_then (from_raw r w) (\<lambda>c. vpi_put_value X (vpi_handle c) v flag w)"

definition action_value :: "externals \<Rightarrow> features \<Rightarrow> nat \<Rightarrow> raw \<Rightarrow> u32 \<Rightarrow> world \<Rightarrow> world res" where
  "action_value X C flag r v w =
     (if feat_inertial_put C then put_filled X (fill_value_zeroed v) (inertial_flag flag) r w
      else deferred_write X C (fill_value v) flag vpiVectorVal r w)"

definition action_imm_value :: "externals \<Rightarrow> nat \<Rightarrow> raw \<Rightarrow> u32 \<Rightarrow> world \<Rightarrow> world res" where
  "action_imm_value X flag r v w =
     (if flag = vpiForceFlag then
        put_direct X \<lparr>format = vpiIntVal, value_u = Integer v\<rparr> flag r w
      else put_filled X (fill_value_zeroed v) flag r w)"

definition action_value64 :: "externals \<Rightarrow> features \<Rightarrow> nat \<Rightarrow> raw \<Rightarrow> u64 \<Rightarrow> world \<Rightarrow> world res" where
  "action_value64 X C flag r v w =
     (if feat_inertial_put C then put_filled X (fill_value64 v) (inertial_flag flag) r w
      else deferred_write X C (fill_value64 v) flag vpiVectorVal r w)"

definition action_imm_value64 :: "externals \<Rightarrow> nat \<Rightarrow> raw \<Rightarrow> u64 \<Rightarrow> world \<Rightarrow> world res" where
  "action_imm_value64 X flag r v w = put_filled X (fill_value64 v) flag r w"

definition action_value64_force_single ::
  "externals \<Rightarrow> features \<Rightarrow> nat \<Rightarrow> raw \<Rightarrow> u64 \<Rightarrow> world \<Rightarrow> world res" where
  "action_value64_force_single X C flag r v w =
     (if feat_inertial_put C then put_filled X (fill_value64_force_single v) (inertial_flag flag) r w
      else deferred_write X C (fill_value64_force_single v) flag vpiVectorVal r w)"

definition action_imm_value64_force_single :: "externals \<Rightarrow> nat \<Rightarrow> raw \<Rightarrow> u64 \<Rightarrow> world \<Rightarrow> world res" where
  "action_imm_value64_force_single X flag r v w = put_filled X (fill_value64_force_single v) flag r w"

definition action_value_multi ::
  "externals \<Rightarrow> features \<Rightarrow> nat \<Rightarrow> raw \<Rightarrow> u32 list \<Rightarrow> world \<Rightarrow> world res" where
  "action_value_multi X C flag r vals w =
     (if feat_inertial_put C then put_filled X (fill_value_multi vals) (inertial_flag flag) r w
      else deferred_write X C (fill_value_multi vals) flag vpiVectorVal r w)"

definition action_imm_value_multi :: "externals \<Rightarrow> nat \<Rightarrow> raw \<Rightarrow> u32 list \<Rightarrow> world \<Rightarrow> world res" where
  "action_imm_value_multi X flag r vals w = put_filled X (fill_value_multi vals) flag r w"

text \<open>\<open>vpiml_<action>_value_<hex|bin|dec>_str\<close>: the format is an argument.\<close>

definition action_value_fmt_str ::
  "externals \<Rightarrow> features \<Rightarrow> nat \<Rightarrow> nat \<Rightarrow> raw \<Rightarrow> string \<Rightarrow> world \<Rightarrow> world res" where
  "action_value_fmt_str X C flag fmt r s w =
     (if feat_inertial_put C then
        put_direct X \<lparr>format = fmt, value_u = Str s\<rparr> (inertial_flag flag) r w
      else deferred_write X C (fill_str s) flag fmt r w)"

text \<open>The variant used internally, on a Rust \<open>String\<close>: no UTF-8 check, but \<open>CString::new\<close> may panic.\<close>

definition action_value_fmt_string ::
  "externals \<Rightarrow> features \<Rightarrow> nat \<Rightarrow> nat \<Rightarrow> raw \<Rightarrow> string \<Rightarrow> world \<Rightarrow> world res" where
  "action_value_fmt_string X C flag fmt r s w =
     (if feat_inertial_put C then
        (if has_nul s then Inl (Panic ''CString::new'')
         else put_direct X \<lparr>format = fmt, value_u = Str s\<rparr> (inertial_flag flag) r w)
      else deferred_write X C (\<lambda>c. Inr (c\<lparr>put_value_str := s\<rparr>)) flag fmt r w)"

interpretation fss: buffer_fill "\<lambda>c. Inr (c\<lparr>put_value_str := s\<rparr>)" for s
  by unfold_locales (auto simp: handle_wf_def)

definition action_imm_value_fmt_str :: "externals \<Rightarrow> nat \<Rightarrow> nat \<Rightarrow> raw \<Rightarrow> string \<Rightarrow> world \<Rightarrow> world res" where
  "action_imm_value_fmt_str X flag fmt r s w = put_direct X \<lparr>format = fmt, value_u = Str s\<rparr> flag r w"

definition action_value_multi_beat ::
  "externals \<Rightarrow> features \<Rightarrow> nat \<Rightarrow> raw \<Rightarrow> u32 list \<Rightarrow> world \<Rightarrow> world res" where
  "action_value_multi_beat X C flag r vals w =
     (if feat_inertial_put C then
        put_direct X \<lparr>format = vpiVectorVal, value_u = Vector (map (\<lambda>a. vecval a 0) vals)\<rparr>
          (inertial_flag flag) r w
      else deferred_write X C (fill_value_multi_beat vals) flag vpiVectorVal r w)"

definition action_imm_value_multi_beat :: "externals \<Rightarrow> nat \<Rightarrow> raw \<Rightarrow> u32 list \<Rightarrow> world \<Rightarrow> world res" where
  "action_imm_value_multi_beat X flag r vals w =
     put_direct X \<lparr>format = vpiVectorVal, value_u = Vector (map (\<lambda>a. vecval a 0) vals)\<rparr> flag r w"

text \<open>\<open>vpiml_<action>_value_str\<close> picks the radix from the prefix and drops it.\<close>

definition parse_prefix :: "string \<Rightarrow> string \<times> nat" where
  "parse_prefix s =
     (if take 2 s = ''0b'' then (drop 2 s, vpiBinStrVal)
      else if take 2 s = ''0x'' then (drop 2 s, vpiHexStrVal)
      else (s, vpiDecStrVal))"

definition action_value_str :: "externals \<Rightarrow> features \<Rightarrow> nat \<Rightarrow> raw \<Rightarrow> string \<Rightarrow> world \<Rightarrow> world res" where
  "action_value_str X C flag r s w =
     (case parse_prefix s of (final_value_str, fmt) \<Rightarrow>
        if feat_inertial_put C then
          put_direct X \<lparr>format = fmt, value_u = Str final_value_str\<rparr> (inertial_flag flag) r w
        else deferred_write X C (fill_str final_value_str) flag fmt r w)"

definition action_imm_value_str :: "externals \<Rightarrow> nat \<Rightarrow> raw \<Rightarrow> string \<Rightarrow> world \<Rightarrow> world res" where
  "action_imm_value_str X flag r s w =
     (case parse_prefix s of (final_value_str, fmt) \<Rightarrow>
        put_direct X \<lparr>format = fmt, value_u = Str final_value_str\<rparr> flag r w)"

subsection \<open>Release, shuffle, freeze\<close>

definition vpiml_release_value :: "externals \<Rightarrow> features \<Rightarrow> raw \<Rightarrow> world \<Rightarrow> world res" where
  "vpiml_release_value X C r w =
     and_then (from_raw r w) (\<lambda>c.
       let u = get_value X (vpi_handle c) vpiVectorVal w in
       if feat_inertial_put C then
         vpi_put_value X (vpi_handle c) \<lparr>format = vpiVectorVal, value_u = u\<rparr> vpiReleaseFlag w
       else deferred_write X C (fill_release u) vpiReleaseFlag vpiVectorVal r w)"

text \<open>
  The immediate release first drops a pending put of the signal from whichever queue holds it.
\<close>

definition vpiml_release_imm_value :: "externals \<Rightarrow> features \<Rightarrow> raw \<Rightarrow> world \<Rightarrow> world res" where
  "vpiml_release_imm_value X C r w =
     and_then (from_raw r w) (\<lambda>c.
       let w1 = (case remove_stale C (vpi_handle c) w of
                   Some w' \<Rightarrow> set_chdl r (c\<lparr>put_value_flag := None\<rparr>) w'
                 | None \<Rightarrow> w);
           u = get_value X (vpi_handle c) vpiVectorVal w1
       in vpi_put_value X (vpi_handle c) \<lparr>format = vpiVectorVal, value_u = u\<rparr> vpiReleaseFlag w1)"

text \<open>
  \<open>libc::rand() % self.len as i32\<close>: a remainder by zero panics, and so does an index past the pool.
  \<open>as i32\<close> keeps the low 32 bits as a signed number.
\<close>

definition len_as_i32 :: "nat \<Rightarrow> int" where
  "len_as_i32 n = (int n + 2 ^ 31) mod 2 ^ 32 - 2 ^ 31"

definition get_rand_value :: "nat \<Rightarrow> 'a shuffled_value_vec \<Rightarrow> 'a res" where
  "get_rand_value rnd p =
     (let n = len_as_i32 (sv_len p) in
      if n = 0 then Inl (Panic ''remainder by zero'')
      else let idx = nat (int rnd mod \<bar>n\<bar>)
           in if idx < length (sv_vec p) then Inr (sv_vec p ! idx)
              else Inl (Panic ''index out of bounds''))"

definition rands :: "externals \<Rightarrow> nat \<Rightarrow> world \<Rightarrow> nat list \<times> world" where
  "rands X n w = (map (libc_rand X) [rand_calls w..<rand_calls w + n],
                  w\<lparr>rand_calls := rand_calls w + n\<rparr>)"

text \<open>
  \<open>vpiml_set_shuffled\<close> and \<open>vpiml_set_imm_shuffled\<close> differ in the four setters they call.
\<close>

definition shuffled_with ::
  "externals \<Rightarrow> (u32 \<Rightarrow> world \<Rightarrow> world res) \<Rightarrow> (u64 \<Rightarrow> world \<Rightarrow> world res) \<Rightarrow>
   (u32 list \<Rightarrow> world \<Rightarrow> world res) \<Rightarrow> (string \<Rightarrow> world \<Rightarrow> world res) \<Rightarrow> raw \<Rightarrow> world \<Rightarrow> world res" where
  "shuffled_with X set32 set64 set_multi set_hex r w =
     and_then (from_raw r w) (\<lambda>c.
       case random_value_vec_type c of
         SvNone \<Rightarrow>
           (if width c \<le> 32 then
              (case rands X 1 w of (as, w1) \<Rightarrow> set32 (of_nat (as ! 0)) w1)
            else if width c \<le> 64 then
              (case rands X 2 w of (as, w1) \<Rightarrow>
                 set64 (push_bit 32 (of_nat (as ! 0)) OR of_nat (as ! 1)) w1)
            else (case rands X (beat_num c) w of (as, w1) \<Rightarrow> set_multi (map of_nat as) w1))
       | SvU32 \<Rightarrow>
           (case rands X 1 w of (as, w1) \<Rightarrow>
              and_then (get_rand_value (as ! 0) (random_value_u32_vec c)) (\<lambda>v. set32 v w1))
       | SvU64 \<Rightarrow>
           (case rands X 1 w of (as, w1) \<Rightarrow>
              and_then (get_rand_value (as ! 0) (random_value_u64_vec c)) (\<lambda>v. set64 v w1))
       | SvHexStr \<Rightarrow>
           (case rands X 1 w of (as, w1) \<Rightarrow>
              and_then (get_rand_value (as ! 0) (random_value_hex_str_vec c)) (\<lambda>v. set_hex v w1)))"

definition vpiml_set_shuffled :: "externals \<Rightarrow> features \<Rightarrow> raw \<Rightarrow> world \<Rightarrow> world res" where
  "vpiml_set_shuffled X C r =
     shuffled_with X (action_value X C vpiNoDelay r) (action_value64 X C vpiNoDelay r)
       (action_value_multi X C vpiNoDelay r) (action_value_fmt_string X C vpiNoDelay vpiHexStrVal r) r"

definition vpiml_set_imm_shuffled :: "externals \<Rightarrow> raw \<Rightarrow> world \<Rightarrow> world res" where
  "vpiml_set_imm_shuffled X r =
     shuffled_with X (action_imm_value X vpiNoDelay r) (action_imm_value64 X vpiNoDelay r)
       (action_imm_value_multi X vpiNoDelay r)
       (\<lambda>s w. if has_nul s then Inl (Panic ''CString::new'')
              else action_imm_value_fmt_str X vpiNoDelay vpiHexStrVal r s w) r"

definition vpiml_shuffled_range_u32 :: "raw \<Rightarrow> u32 list \<Rightarrow> world \<Rightarrow> world res" where
  "vpiml_shuffled_range_u32 r vals w =
     and_then (from_raw r w) (\<lambda>c. Inr (set_chdl r (c\<lparr>random_value_vec_type := SvU32,
       random_value_u32_vec := \<lparr>sv_vec = vals, sv_len = length vals\<rparr>\<rparr>) w))"

definition vpiml_shuffled_range_u64 :: "raw \<Rightarrow> u64 list \<Rightarrow> world \<Rightarrow> world res" where
  "vpiml_shuffled_range_u64 r vals w =
     and_then (from_raw r w) (\<lambda>c. Inr (set_chdl r (c\<lparr>random_value_vec_type := SvU64,
       random_value_u64_vec := \<lparr>sv_vec = vals, sv_len = length vals\<rparr>\<rparr>) w))"

definition vpiml_shuffled_range_hex_str ::
  "raw \<Rightarrow> string list \<Rightarrow> world \<Rightarrow> world res" where
  "vpiml_shuffled_range_hex_str r vals w =
     and_then (from_raw r w) (\<lambda>c. Inr (set_chdl r (c\<lparr>random_value_vec_type := SvHexStr,
       random_value_hex_str_vec := \<lparr>sv_vec = map to_string_lossy vals, sv_len = length vals\<rparr>\<rparr>) w))"

definition vpiml_reset_shuffled_range :: "raw \<Rightarrow> world \<Rightarrow> world res" where
  "vpiml_reset_shuffled_range r w =
     and_then (from_raw r w) (\<lambda>c. Inr (set_chdl r (c\<lparr>random_value_vec_type := SvNone\<rparr>) w))"

definition vpiml_set_freeze :: "externals \<Rightarrow> features \<Rightarrow> raw \<Rightarrow> world \<Rightarrow> world res" where
  "vpiml_set_freeze X C r w =
     and_then (vpiml_get_value_hex_str X C r w) (\<lambda>(s, w1).
       action_value_fmt_str X C vpiForceFlag vpiHexStrVal r s w1)"

definition vpiml_set_imm_freeze :: "externals \<Rightarrow> features \<Rightarrow> raw \<Rightarrow> world \<Rightarrow> world res" where
  "vpiml_set_imm_freeze X C r w =
     and_then (vpiml_get_value_hex_str X C r w) (\<lambda>(s, w1).
       action_imm_value_fmt_str X vpiForceFlag vpiHexStrVal r s w1)"

end
