(* ===== verification/WriteApi.thy ===== *)
theory WriteApi
  imports Setters
begin

text \<open>
  The exported write functions of \<^verbatim>\<open>vpi_access/value_setters.rs\<close> as one request type, the guard they
  share (no writes in the read-only phase), and the contract of the whole write path: deferred
  writes refine the abstract queue, every request keeps its invariant.
\<close>

subsection \<open>Requests\<close>

datatype action = ActSet | ActForce

datatype write_op =
    OpValue u32
  | OpValue64 u64
  | OpValue64ForceSingle u64
  | OpValueMulti "u32 list"
  | OpFmtStr nat string
  | OpMultiBeat "u32 list"
  | OpStr string

datatype request =
    Deferred action write_op
  | Immediate action write_op
  | Release
  | ReleaseImm
  | SetShuffled
  | SetImmShuffled
  | SetFreeze
  | SetImmFreeze

fun flag_of :: "action \<Rightarrow> nat" where
  "flag_of ActSet = vpiNoDelay"
| "flag_of ActForce = vpiForceFlag"

fun deferred_op :: "externals \<Rightarrow> features \<Rightarrow> nat \<Rightarrow> write_op \<Rightarrow> raw \<Rightarrow> world \<Rightarrow> world res" where
  "deferred_op X C f (OpValue v) r = action_value X C f r v"
| "deferred_op X C f (OpValue64 v) r = action_value64 X C f r v"
| "deferred_op X C f (OpValue64ForceSingle v) r = action_value64_force_single X C f r v"
| "deferred_op X C f (OpValueMulti vals) r = action_value_multi X C f r vals"
| "deferred_op X C f (OpFmtStr fmt s) r = action_value_fmt_str X C f fmt r s"
| "deferred_op X C f (OpMultiBeat vals) r = action_value_multi_beat X C f r vals"
| "deferred_op X C f (OpStr s) r = action_value_str X C f r s"

fun imm_op :: "externals \<Rightarrow> nat \<Rightarrow> write_op \<Rightarrow> raw \<Rightarrow> world \<Rightarrow> world res" where
  "imm_op X f (OpValue v) r = action_imm_value X f r v"
| "imm_op X f (OpValue64 v) r = action_imm_value64 X f r v"
| "imm_op X f (OpValue64ForceSingle v) r = action_imm_value64_force_single X f r v"
| "imm_op X f (OpValueMulti vals) r = action_imm_value_multi X f r vals"
| "imm_op X f (OpFmtStr fmt s) r = action_imm_value_fmt_str X f fmt r s"
| "imm_op X f (OpMultiBeat vals) r = action_imm_value_multi_beat X f r vals"
| "imm_op X f (OpStr s) r = action_imm_value_str X f r s"

fun run_request :: "externals \<Rightarrow> features \<Rightarrow> request \<Rightarrow> raw \<Rightarrow> world \<Rightarrow> world res" where
  "run_request X C (Deferred a op) r = deferred_op X C (flag_of a) op r"
| "run_request X C (Immediate a op) r = imm_op X (flag_of a) op r"
| "run_request X C Release r = vpiml_release_value X C r"
| "run_request X C ReleaseImm r = vpiml_release_imm_value X C r"
| "run_request X C SetShuffled r = vpiml_set_shuffled X C r"
| "run_request X C SetImmShuffled r = vpiml_set_imm_shuffled X r"
| "run_request X C SetFreeze r = vpiml_set_freeze X C r"
| "run_request X C SetImmFreeze r = vpiml_set_imm_freeze X C r"

definition assert_not_rd_phase_active :: "world \<Rightarrow> unit res" where
  "assert_not_rd_phase_active w =
     (if rd_phase_active (env w) then
        Inl (Panic ''Attempting to write an HDL value during the ReadOnly phase'')
      else Inr ())"

definition vpiml_write :: "externals \<Rightarrow> features \<Rightarrow> request \<Rightarrow> raw \<Rightarrow> world \<Rightarrow> world res" where
  "vpiml_write X C q r w =
     and_then (from_complex_handle_raw r w) (\<lambda>_.
     and_then (assert_not_rd_phase_active w) (\<lambda>_. run_request X C q r w))"

subsection \<open>What every request is made of\<close>

lemmas action_defs =
  action_value_def action_imm_value_def action_value64_def action_imm_value64_def
  action_value64_force_single_def action_imm_value64_force_single_def action_value_multi_def
  action_imm_value_multi_def action_value_fmt_str_def action_imm_value_fmt_str_def
  action_value_multi_beat_def action_imm_value_multi_beat_def action_value_str_def
  action_imm_value_str_def action_value_fmt_string_def

text \<open>
  A request is composed of a few blocks: draw random numbers, read a string into the handle's buffer,
  put a value, fill the buffer and put or post it, release at once. A relation between the world
  before and the world after that each block satisfies, and that composes, holds of every request.
\<close>

locale write_frame =
  fixes X :: externals and C :: features and r :: raw and R :: "world \<Rightarrow> world \<Rightarrow> bool"
  assumes refl: "R w w"
    and trans: "R w w1 \<Longrightarrow> R w1 w2 \<Longrightarrow> R w w2"
    and rand: "R w (w\<lparr>rand_calls := n\<rparr>)"
    and str: "gen_get_value_str X C' fmt r w = Inr (s, w') \<Longrightarrow> R w w'"
    and put: "vpi_put_value X h v f w = Inr w' \<Longrightarrow> R w w'"
    and filled: "buffer_fill fill \<Longrightarrow> put_filled X fill f r w = Inr w' \<Longrightarrow> R w w'"
    and deferred: "buffer_fill fill \<Longrightarrow> deferred_write X C fill f fmt r w = Inr w' \<Longrightarrow> R w w'"
    and release_imm: "vpiml_release_imm_value X C r w = Inr w' \<Longrightarrow> R w w'"
begin

lemma direct: "put_direct X v f r w = Inr w' \<Longrightarrow> R w w'"
  by (auto simp: put_direct_def res_simps intro: put)

lemmas blocks =
  direct
  deferred [OF fv.buffer_fill_axioms] filled [OF fvz.buffer_fill_axioms]
  deferred [OF fv64.buffer_fill_axioms] filled [OF fv64.buffer_fill_axioms]
  deferred [OF fv64s.buffer_fill_axioms] filled [OF fv64s.buffer_fill_axioms]
  deferred [OF fvm.buffer_fill_axioms] filled [OF fvm.buffer_fill_axioms]
  deferred [OF fvmb.buffer_fill_axioms] deferred [OF fs.buffer_fill_axioms]
  deferred [OF fss.buffer_fill_axioms]

lemma deferred_op: "deferred_op X C f op r w = Inr w' \<Longrightarrow> R w w'"
  by (cases op) (auto simp: action_defs split: if_splits prod.splits intro: blocks)

lemma imm_op: "imm_op X f op r w = Inr w' \<Longrightarrow> R w w'"
  by (cases op) (auto simp: action_defs split: if_splits prod.splits intro: blocks)

lemma fmt_string: "action_value_fmt_string X C f m r s w = Inr w' \<Longrightarrow> R w w'"
  by (auto simp: action_value_fmt_string_def split: if_splits intro: blocks)

lemma release: "vpiml_release_value X C r w = Inr w' \<Longrightarrow> R w w'"
  by (auto simp: vpiml_release_value_def res_simps Let_def split: if_splits
      intro: put deferred [OF fr.buffer_fill_axioms])

lemma shuffled:
  assumes w': "shuffled_with X s32 s64 sm sh r w = Inr w'"
    and s32: "\<And>v w w'. s32 v w = Inr w' \<Longrightarrow> R w w'" and s64: "\<And>v w w'. s64 v w = Inr w' \<Longrightarrow> R w w'"
    and sm: "\<And>v w w'. sm v w = Inr w' \<Longrightarrow> R w w'" and sh: "\<And>v w w'. sh v w = Inr w' \<Longrightarrow> R w w'"
  shows "R w w'"
proof -
  obtain c where c: "chdls w r = Some c" using w' by (auto simp: shuffled_with_def and_then_eq_Inr)
  have rnd: "R w w'" if "R (w\<lparr>rand_calls := n\<rparr>) w'" for n using trans [OF rand that] .
  show ?thesis
    using w' c
    by (cases "random_value_vec_type c")
      (auto simp: shuffled_with_def rands_def from_raw_Some and_then_eq_Inr split: if_splits
        intro: rnd [OF s32] rnd [OF s64] rnd [OF sm] rnd [OF sh])
qed

lemmas setters =
  deferred_op [of _ "OpValue v" for v, simplified] deferred_op [of _ "OpValue64 v" for v, simplified]
  deferred_op [of _ "OpValueMulti v" for v, simplified] deferred_op [of _ "OpFmtStr m v" for m v, simplified]

lemmas imm_setters =
  imm_op [of _ "OpValue v" for v, simplified] imm_op [of _ "OpValue64 v" for v, simplified]
  imm_op [of _ "OpValueMulti v" for v, simplified] imm_op [of _ "OpFmtStr m v" for m v, simplified]

lemma hex_str: "vpiml_get_value_hex_str X C r w = Inr (s, w') \<Longrightarrow> R w w'"
  unfolding vpiml_get_value_hex_str_def by (rule str)

lemma run_request: "run_request X C q r w = Inr w' \<Longrightarrow> R w w'"
proof (induction q)
  case SetShuffled
  then show ?case
    unfolding run_request.simps vpiml_set_shuffled_def
    by (rule shuffled) (blast intro: setters fmt_string)+
next
  case SetImmShuffled
  then show ?case
    unfolding run_request.simps vpiml_set_imm_shuffled_def
    by (rule shuffled) (auto split: if_splits intro: imm_setters)
next
  case SetFreeze
  then show ?case
    by (auto simp: vpiml_set_freeze_def and_then_eq_Inr intro: trans [OF hex_str setters(4)])
next
  case SetImmFreeze
  then show ?case
    by (auto simp: vpiml_set_imm_freeze_def and_then_eq_Inr intro: trans [OF hex_str imm_setters(4)])
qed (auto intro: deferred_op imm_op release release_imm)

lemma written: "vpiml_write X C q r w = Inr w' \<Longrightarrow> R w w'"
  by (auto simp: vpiml_write_def and_then_eq_Inr intro: run_request)

end

text \<open>
  The blocks in turn change a handle without changing which it is, remove a stale queue entry, push one,
  and put a value.
\<close>

definition same_ident :: "complex_handle \<Rightarrow> complex_handle \<Rightarrow> bool" where
  "same_ident c d \<longleftrightarrow> ch_env d = ch_env c \<and> vpi_handle d = vpi_handle c \<and> ch_name d = ch_name c
     \<and> (handle_wf c \<longrightarrow> handle_wf d)"

lemma same_ident_refl [simp]: "same_ident c c"
  by (simp add: same_ident_def)

lemma same_ident_trans: "same_ident c d \<Longrightarrow> same_ident d e \<Longrightarrow> same_ident c e"
  by (simp add: same_ident_def)

lemma same_ident_flag [simp]:
  "same_ident c (c\<lparr>put_value_flag := f\<rparr>)"
  "same_ident c (c\<lparr>put_value_flag := f, put_value_format := m\<rparr>)"
  by (simp_all add: same_ident_def handle_wf_def)

lemma same_ident_str: "backend_str C w c s = (t, d) \<Longrightarrow> same_ident c d"
  by (auto simp: backend_str_def normalize_value_str_to_c_ptr_def Let_def handle_wf_def same_ident_def
      split: if_splits)

context buffer_fill
begin

lemma fill_same_ident: "fill c = Inr d \<Longrightarrow> same_ident c d"
  using fill_ident fill_vpi_handle fill_wf by (simp add: same_ident_def)

end

locale block_frame =
  fixes X :: externals and C :: features and R :: "world \<Rightarrow> world \<Rightarrow> bool"
  assumes refl: "R w w"
    and trans: "R w w1 \<Longrightarrow> R w1 w2 \<Longrightarrow> R w w2"
    and chdl: "chdls w r = Some c \<Longrightarrow> same_ident c d \<Longrightarrow> R w (set_chdl r d w)"
    and rand: "R w (w\<lparr>rand_calls := n\<rparr>)"
    and put: "vpi_put_value X h v f w = Inr w' \<Longrightarrow> R w w'"
    and remove: "remove_stale C h w = Some w' \<Longrightarrow> R w w'"
    and push: "R w (do_push_hdl_put_value X C r w)"
begin

lemma str:
  assumes "gen_get_value_str X C' fmt r w = Inr (s, w')"
  shows "R w w'"
proof -
  obtain c d where "chdls w r = Some c" "w' = set_chdl r d w"
    "backend_str C' w c (as_str (get_value X (vpi_handle c) fmt w)) = (s, d)"
    using assms by (auto simp: gen_get_value_str_def from_complex_handle_raw_def and_then_eq_Inr
        split: if_splits prod.splits)
  then show ?thesis using chdl same_ident_str by blast
qed

lemma filled:
  assumes fill: "buffer_fill fill" and w': "put_filled X fill f r w = Inr w'"
  shows "R w w'"
proof -
  obtain c d where "chdls w r = Some c" "fill c = Inr d"
      "vpi_put_value X (vpi_handle d) \<lparr>format = vpiVectorVal, value_u = Vector (put_value_vectors d)\<rparr> f
         (set_chdl r d w) = Inr w'"
    using w' by (auto simp: put_filled_def and_then_eq_Inr)
  then show ?thesis using trans [OF chdl put] buffer_fill.fill_same_ident [OF fill] by blast
qed

lemma try_put:
  assumes "try_put_value C r flag fmt w = Inr (b, w1)"
  shows "R w w1"
proof -
  obtain c where c: "chdls w r = Some c" using assms by (auto simp: try_put_value_def and_then_eq_Inr)
  let ?w = "set_chdl r (c\<lparr>put_value_flag := Some flag, put_value_format := fmt\<rparr>) w"
  have "w1 = w \<or> w1 = ?w \<or> remove_stale C (vpi_handle c) ?w = Some w1"
    using assms by (auto simp: try_put_value_def from_raw_Some [OF c] split: option.splits if_splits)
  moreover have "R w ?w" by (rule chdl [OF c]) simp
  ultimately show ?thesis using refl trans remove by blast
qed

lemma deferred:
  assumes fill: "buffer_fill fill" and w': "deferred_write X C fill f fmt r w = Inr w'"
  shows "R w w'"
proof -
  obtain b w1 where t: "try_put_value C r f fmt w = Inr (b, w1)"
    and w1: "w' = w1 \<or> (\<exists>c d. chdls w1 r = Some c \<and> fill c = Inr d
      \<and> w' = do_push_hdl_put_value X C r (set_chdl r d w1))"
    using w' by (auto simp: deferred_write_def and_then_eq_Inr split: if_splits)
  have "R w1 w'" using w1 refl trans [OF chdl push] buffer_fill.fill_same_ident [OF fill] by blast
  then show ?thesis by (rule trans [OF try_put [OF t]])
qed

lemma release_imm:
  assumes w': "vpiml_release_imm_value X C r w = Inr w'"
  shows "R w w'"
proof -
  obtain c where c: "chdls w r = Some c" using w' by (auto simp: vpiml_release_imm_value_def and_then_eq_Inr)
  define w1 where "w1 = (case remove_stale C (vpi_handle c) w of
      Some w' \<Rightarrow> set_chdl r (c\<lparr>put_value_flag := None\<rparr>) w' | None \<Rightarrow> w)"
  have "R w w1"
  proof (cases "remove_stale C (vpi_handle c) w")
    case (Some v)
    then have "chdls v r = Some c" using c by (auto simp: remove_stale_def split: option.splits if_splits)
    then show ?thesis using trans [OF remove [OF Some] chdl] Some by (simp add: w1_def)
  qed (simp add: w1_def refl)
  moreover have "R w1 w'"
    using w' put by (simp add: vpiml_release_imm_value_def from_raw_Some [OF c] w1_def Let_def)
  ultimately show ?thesis by (rule trans)
qed

end

sublocale block_frame \<subseteq> writes: write_frame X C r R for r
  by unfold_locales (fact refl, fact trans, fact rand, fact str, fact put, fact filled, fact deferred, fact release_imm)

subsection \<open>Every request keeps the queue invariant\<close>

lemma put_inv_log [simp]: "put_inv C (log_call c w) = put_inv C w"
  by (simp add: put_inv_def queued_def)

lemma put_inv_rand [simp]: "put_inv C (w\<lparr>rand_calls := n\<rparr>) = put_inv C w"
  by (simp add: put_inv_def queued_def)

text \<open>A request is made on the handle of a signal, and leaves it one.\<close>

definition put_inv_at :: "features \<Rightarrow> raw \<Rightarrow> world \<Rightarrow> bool" where
  "put_inv_at C r w \<longleftrightarrow> put_inv C w \<and> signal_at w r"

lemma put_inv_at_log [simp]: "put_inv_at C r (log_call c w) = put_inv_at C r w"
  by (simp add: put_inv_at_def signal_at_def)

lemma put_inv_at_rand [simp]: "put_inv_at C r (w\<lparr>rand_calls := n\<rparr>) = put_inv_at C r w"
  by (simp add: put_inv_at_def signal_at_def)

lemma put_inv_update:
  assumes inv: "put_inv C w" and c: "chdls w r = Some c"
    and d: "vpi_handle d = vpi_handle c" "put_value_flag d = put_value_flag c" "handle_wf d"
  shows "put_inv C (set_chdl r d w)"
  using inv c d unfolding put_inv_def queued_def by (auto split: if_splits)

lemma put_inv_at_update:
  assumes "put_inv_at C r w" and "chdls w r = Some c"
    and "vpi_handle d = vpi_handle c" "put_value_flag d = put_value_flag c" "handle_wf d"
  shows "put_inv_at C r (set_chdl r d w)"
  using assms put_inv_update [of C w r c d] by (simp add: put_inv_at_def signal_at_def)

lemma put_inv_at_wf: "put_inv_at C r w \<Longrightarrow> chdls w s = Some c \<Longrightarrow> handle_wf c"
  by (simp add: put_inv_at_def put_inv_def)

context buffer_fill
begin

lemma put_filled_inv:
  assumes X: "quiet_put X" and inv: "put_inv_at C r w" and w': "put_filled X fill f r w = Inr w'"
  shows "put_inv_at C r w'"
proof -
  obtain c d where c: "chdls w r = Some c" and d: "fill c = Inr d"
    and w'': "w' = log_call (PutValue (vpi_handle d)
       \<lparr>format = vpiVectorVal, value_u = Vector (put_value_vectors d)\<rparr> f) (set_chdl r d w)"
    using w' by (auto simp: put_filled_def res_simps quiet_put_value [OF X])
  have "handle_wf c" by (rule put_inv_at_wf [OF inv c])
  then have "put_inv_at C r (set_chdl r d w)"
    using put_inv_at_update [OF inv c] fill_vpi_handle [OF d] fill_flag [OF d] fill_wf [OF d] by simp
  then show ?thesis by (simp add: w'')
qed

lemma deferred_inv:
  assumes "put_inv_at C r w" and "deferred_write X C fill flag fmt r w = Inr w'"
  shows "put_inv_at C r w'"
proof -
  obtain c where c: "chdls w r = Some c"
    using assms(2) by (auto simp: deferred_write_def try_put_value_def res_simps)
  have inv: "put_inv C w" "vpi_handle c \<noteq> 0" using assms(1) c by (simp_all add: put_inv_at_def signal_at_def)
  have "signal_at w' r"
    using assms c inv(2) fill_vpi_handle
    by (auto simp: deferred_write_eq [OF inv(1) c] res_simps put_inv_at_def signal_at_def split: if_splits)
  then show ?thesis using deferred_write_inv [OF inv(1) c inv(2) assms(2)] by (simp add: put_inv_at_def)
qed

end

lemma drop_pending_queued:
  assumes "put_inv C w"
  shows "set (queued (drop_pending r w)) = set (queued w) - {r}" "distinct (queued (drop_pending r w))"
  using assms unfolding put_inv_def by (auto simp: queued_def drop_pending_def)

lemma drop_pending_inv:
  assumes inv: "put_inv C w" and c: "chdls w r = Some c"
  shows "put_inv C (set_chdl r (c\<lparr>put_value_flag := None\<rparr>) (drop_pending r w))"
proof -
  let ?w = "set_chdl r (c\<lparr>put_value_flag := None\<rparr>) (drop_pending r w)"
  have q: "queued ?w = queued (drop_pending r w)" by (simp add: queued_def)
  have "distinct (queued ?w)" unfolding q by (rule drop_pending_queued(2) [OF inv])
  moreover have "s \<in> set (queued ?w) \<longleftrightarrow> (\<exists>d. chdls ?w s = Some d \<and> put_value_flag d \<noteq> None)" for s
    unfolding q drop_pending_queued(1) [OF inv] using inv by (auto simp: put_inv_def)
  moreover have "hdl_put_value_bak (env ?w) \<noteq> [] \<longrightarrow> reentrant_build C \<and> use_hdl_put_value_bak (env ?w)"
    using inv by (cases "hdl_put_value_bak (env w)") (auto simp: put_inv_def drop_pending_def)
  moreover have "s = s'" if d: "chdls ?w s = Some d" "chdls ?w s' = Some d'" "vpi_handle d = vpi_handle d'"
    "vpi_handle d \<noteq> 0" for s s' d d'
  proof -
    have "\<exists>e. chdls w t = Some e \<and> vpi_handle e = vpi_handle x" if "chdls ?w t = Some x" for t x
      using that c by (auto split: if_splits)
    then obtain e e' where "chdls w s = Some e" "vpi_handle e = vpi_handle d"
      "chdls w s' = Some e'" "vpi_handle e' = vpi_handle d'" using d(1,2) by blast
    then show ?thesis using one_handle_per_signal [OF inv, of s e s' e'] d(3,4) by simp
  qed
  moreover have "\<forall>s d. chdls ?w s = Some d \<longrightarrow> handle_wf d \<and> (vpi_handle d = 0 \<longrightarrow> put_value_flag d = None)"
    using inv c by (auto simp: put_inv_def split: if_splits)
  ultimately show ?thesis unfolding put_inv_def by blast
qed

lemma drop_pending_at_inv:
  "put_inv_at C r w \<Longrightarrow> chdls w r = Some c \<Longrightarrow>
   put_inv_at C r (set_chdl r (c\<lparr>put_value_flag := None\<rparr>) (drop_pending r w))"
  using drop_pending_inv by (simp add: put_inv_at_def signal_at_def)

lemma same_signal_queued:
  assumes inv: "put_inv C w" and c: "chdls w r = Some c" and q: "q \<in> set (queued w)"
  shows "same_signal w (vpi_handle c) q \<Longrightarrow> q = r"
proof -
  obtain d where d: "chdls w q = Some d" "put_value_flag d \<noteq> None" using inv q unfolding put_inv_def by blast
  assume "same_signal w (vpi_handle c) q"
  then have "vpi_handle d = vpi_handle c" using d(1) by (simp add: same_signal_def)
  then show "q = r" using inv c d(1) flagged_nonnull [OF inv d] unfolding put_inv_def by metis
qed

lemma release_imm_eq:
  assumes inv: "put_inv C w" and c: "chdls w r = Some c"
  shows "vpiml_release_imm_value X C r w =
    (let w1 = (if put_value_flag c = None then w
               else set_chdl r (c\<lparr>put_value_flag := None\<rparr>) (drop_pending r w))
     in vpi_put_value X (vpi_handle c)
          \<lparr>format = vpiVectorVal, value_u = get_value X (vpi_handle c) vpiVectorVal w1\<rparr>
          vpiReleaseFlag w1)"
proof -
  have c': "set_chdl r c w = w" using c by (simp add: set_chdl_def fun_upd_idem)
  show ?thesis
  proof (cases "put_value_flag c = None")
    case True
    then have "r \<notin> set (queued w)" using inv c unfolding put_inv_def by auto
    then have "position (same_signal w (vpi_handle c)) q = None" if "set q \<subseteq> set (queued w)" for q
      using same_signal_queued [OF inv c] that by (auto simp: position_None_iff)
    then have "remove_stale C (vpi_handle c) w = None"
      by (simp add: remove_stale_def queued_def)
    then show ?thesis using True c by (simp add: vpiml_release_imm_value_def from_raw_Some)
  next
    case False
    have "remove_stale C (vpi_handle c) w = Some (drop_pending r w)"
      using remove_stale_spec [OF inv c False refl] c c'
      by (simp add: set_chdl_def drop_pending_def fun_upd_idem)
    then show ?thesis using False by (simp add: vpiml_release_imm_value_def from_raw_Some [OF c] Let_def del: not_None_eq)
  qed
qed

lemma release_imm_inv:
  assumes X: "quiet_put X" and inv: "put_inv_at C r w" and w': "vpiml_release_imm_value X C r w = Inr w'"
  shows "put_inv_at C r w'"
proof -
  obtain c where c: "chdls w r = Some c"
    using w' by (auto simp: vpiml_release_imm_value_def res_simps)
  have inv': "put_inv C w" using inv by (simp add: put_inv_at_def)
  show ?thesis
    using w' inv drop_pending_at_inv [OF inv c]
    by (auto simp: release_imm_eq [OF inv' c] Let_def quiet_put_value [OF X] split: if_splits)
qed

lemma backend_str_keeps:
  "backend_str C w c s = (t, d) \<Longrightarrow> vpi_handle d = vpi_handle c \<and> put_value_flag d = put_value_flag c
     \<and> handle_wf d = handle_wf c"
  by (auto simp: backend_str_def normalize_value_str_to_c_ptr_def Let_def handle_wf_def
      split: if_splits)

lemma gen_get_value_str_inv:
  assumes inv: "put_inv_at C r w" and g: "gen_get_value_str X C' fmt r w = Inr (s, w')"
  shows "put_inv_at C r w'"
proof -
  obtain c where c: "chdls w r = Some c" and env: "ch_env c"
    using g by (auto simp: gen_get_value_str_def from_complex_handle_raw_def res_simps split: if_splits)
  obtain t d where d: "backend_str C' w c (as_str (get_value X (vpi_handle c) fmt w)) = (t, d)"
    by (meson surj_pair)
  have w': "w' = set_chdl r d w"
    using g env d by (simp add: gen_get_value_str_def from_complex_handle_raw_def from_raw_Some [OF c])
  have "handle_wf c" by (rule put_inv_at_wf [OF inv c])
  then show ?thesis using put_inv_at_update [OF inv c] backend_str_keeps [OF d] w' by simp
qed

lemma put_value_inv:
  "quiet_put X \<Longrightarrow> put_inv_at C r w \<Longrightarrow> vpi_put_value X h v f w = Inr w' \<Longrightarrow> put_inv_at C r w'"
  by (auto simp: quiet_put_value)

interpretation put_frame: write_frame X C r "\<lambda>w w'. quiet_put X \<longrightarrow> put_inv_at C r w \<longrightarrow> put_inv_at C r w'"
  for X C r
  by unfold_locales
    (simp, blast, simp, metis gen_get_value_str_inv, metis put_value_inv,
     metis buffer_fill.put_filled_inv, metis buffer_fill.deferred_inv, metis release_imm_inv)

text \<open>C3. Every exported write to a signal, of any kind, keeps the queue invariant: a handle carries a
  flag exactly when it is queued, is queued once, and its buffer has its full size.\<close>

theorem vpiml_write_keeps_put_inv:
  assumes "quiet_put X" and "put_inv C w" and "signal_at w r" and "vpiml_write X C q r w = Inr w'"
  shows "put_inv C w'"
  using put_frame.written [OF assms(4)] assms(1-3) by (simp add: put_inv_at_def)

end
