(* ===== verification/WriteContract.thy ===== *)
theory WriteContract
  imports WriteApi
begin

text \<open>
  The contract of the write path. Deferred writes refine an abstract ordered map in which a force
  wins over a later plain write; a batch of writes followed by a flush reaches the simulator as one
  put per signal; and the words a write drives are compared with the value the caller asked for.
\<close>

subsection \<open>One shape for all deferred writes\<close>

fun fill_of :: "write_op \<Rightarrow> complex_handle \<Rightarrow> complex_handle res" where
  "fill_of (OpValue v) = fill_value v"
| "fill_of (OpValue64 v) = fill_value64 v"
| "fill_of (OpValue64ForceSingle v) = fill_value64_force_single v"
| "fill_of (OpValueMulti vals) = fill_value_multi vals"
| "fill_of (OpFmtStr fmt s) = fill_str s"
| "fill_of (OpMultiBeat vals) = fill_value_multi_beat vals"
| "fill_of (OpStr s) = fill_str (fst (parse_prefix s))"

fun fmt_of :: "write_op \<Rightarrow> nat" where
  "fmt_of (OpFmtStr fmt s) = fmt"
| "fmt_of (OpStr s) = snd (parse_prefix s)"
| "fmt_of _ = vpiVectorVal"

lemma deferred_op_eq:
  "\<not> feat_inertial_put C \<Longrightarrow>
   deferred_op X C f op r w = deferred_write X C (fill_of op) f (fmt_of op) r w"
  by (cases op) (simp_all add: action_defs split: prod.splits)

interpretation fo: buffer_fill "fill_of op" for op
proof unfold_locales
  fix c d assume f: "fill_of op c = Inr d"
  show "vpi_handle d = vpi_handle c"
    using f by (cases op) (auto dest: fv.fill_vpi_handle fv64.fill_vpi_handle fv64s.fill_vpi_handle
        fvm.fill_vpi_handle fvmb.fill_vpi_handle fs.fill_vpi_handle)
  show "put_value_flag d = put_value_flag c"
    using f by (cases op) (auto dest: fv.fill_flag fv64.fill_flag fv64s.fill_flag
        fvm.fill_flag fvmb.fill_flag fs.fill_flag)
  show "ch_env d = ch_env c \<and> ch_name d = ch_name c"
    using f by (cases op) (auto dest: fv.fill_ident fv64.fill_ident fv64s.fill_ident
        fvm.fill_ident fvmb.fill_ident fs.fill_ident)
  assume "handle_wf c"
  then show "handle_wf d"
    using f by (cases op) (auto dest: fv.fill_wf fv64.fill_wf fv64s.fill_wf
        fvm.fill_wf fvmb.fill_wf fs.fill_wf)
qed

text \<open>The value a deferred write posts, read off the handle as it is when the write arrives.\<close>

definition posted_value :: "write_op \<Rightarrow> nat \<Rightarrow> complex_handle \<Rightarrow> s_vpi_value res" where
  "posted_value op f c =
     and_then (fill_of op (c\<lparr>put_value_flag := Some f, put_value_format := fmt_of op\<rparr>)) pending_value"

text \<open>C6. Deferred writes implement the abstract queue: the posted value replaces the signal's
  pending entry and goes to the end, and a plain write to a signal with a pending force changes
  nothing.\<close>

theorem deferred_op_refines:
  assumes "\<not> feat_inertial_put C" and "put_inv C w" and "chdls w r = Some c"
    and "deferred_op X C (flag_of a) op r w = Inr w'"
  shows "pending_puts w' =
    (if a = ActSet \<and> put_value_flag c = Some vpiForceFlag then pending_puts w
     else post_put (vpi_handle c) (posted_value op (flag_of a) c) (flag_of a) (pending_puts w))"
proof -
  have "force_blocks c (flag_of a) \<longleftrightarrow> a = ActSet \<and> put_value_flag c = Some vpiForceFlag"
    by (cases a) (simp_all add: force_blocks_def)
  then show ?thesis
    using fo.deferred_write_refines [OF assms(2,3)] assms(1,4)
    by (simp add: deferred_op_eq posted_value_def)
qed

subsection \<open>Batches\<close>

text \<open>
  The abstract arbitration of a batch: pending requests in order, at most one per signal.
\<close>

definition arbitrate :: "'s \<times> action \<Rightarrow> ('s \<times> action) list \<Rightarrow> ('s \<times> action) list" where
  "arbitrate p q =
     (if snd p = ActSet \<and> (fst p, ActForce) \<in> set q then q
      else filter (\<lambda>e. fst e \<noteq> fst p) q @ [p])"

definition deferred_batch ::
  "externals \<Rightarrow> features \<Rightarrow> (raw \<times> action \<times> write_op) list \<Rightarrow> world \<Rightarrow> world res" where
  "deferred_batch X C = fold_res (\<lambda>(r, a, op). deferred_op X C (flag_of a) op r)"

text \<open>The puts of a log: which signals were driven, with which flag, in which order.\<close>

fun puts_of :: "vpi_call list \<Rightarrow> (vpiHandle \<times> nat) list" where
  "puts_of [] = []"
| "puts_of (PutValue h v f # cs) = (h, f) # puts_of cs"
| "puts_of (_ # cs) = puts_of cs"

lemma puts_of_append [simp]: "puts_of (xs @ ys) = puts_of xs @ puts_of ys"
  by (induction xs rule: puts_of.induct) auto

lemma puts_of_put_calls: "puts_of (map put_call ps) = map (\<lambda>(h, v, f). (h, f)) ps"
  by (induction ps) (auto simp: put_call_def)

definition pending_kinds :: "world \<Rightarrow> (vpiHandle \<times> nat) list" where
  "pending_kinds w = map (\<lambda>(h, v, f). (h, f)) (pending_puts w)"

definition kind_of :: "world \<Rightarrow> raw \<times> action \<Rightarrow> vpiHandle \<times> nat" where
  "kind_of w p = (case chdls w (fst p) of None \<Rightarrow> 0 | Some c \<Rightarrow> vpi_handle c, flag_of (snd p))"

lemma do_push_log:
  "puts_of (vpi_log (do_push_hdl_put_value X C r w)) = puts_of (vpi_log w)"
  by (simp add: do_push_hdl_put_value_def Let_def libverilua_register_rw_synch_cb_def
      register_and_free_eq)

lemma deferred_op_frame:
  assumes C: "\<not> feat_inertial_put C" and inv: "put_inv C w"
    and w': "deferred_op X C f op r w = Inr w'"
  shows "puts_of (vpi_log w') = puts_of (vpi_log w)" and "signal_at w r \<Longrightarrow> put_inv C w'"
    and "use_hdl_put_value_bak (env w') = use_hdl_put_value_bak (env w)"
    and "\<And>s. map_option vpi_handle (chdls w' s) = map_option vpi_handle (chdls w s)"
    and "\<exists>c. chdls w r = Some c"
proof -
  note dw = w' [unfolded deferred_op_eq [OF C]]
  obtain c where c: "chdls w r = Some c"
    using dw by (auto simp: deferred_write_def try_put_value_def res_simps)
  then show "\<exists>c. chdls w r = Some c" by simp
  show "put_inv C w'" if "signal_at w r"
    by (rule fo.deferred_write_inv [OF inv c _ dw]) (use that c in \<open>simp add: signal_at_def\<close>)
  show "puts_of (vpi_log w') = puts_of (vpi_log w)"
    "use_hdl_put_value_bak (env w') = use_hdl_put_value_bak (env w)"
    "\<And>s. map_option vpi_handle (chdls w' s) = map_option vpi_handle (chdls w s)"
    using dw fo.fill_vpi_handle
    by (auto simp: fo.deferred_write_eq [OF inv c] res_simps do_push_log drop_pending_def c
        split: if_splits dest: fo.fill_vpi_handle)
qed

subsection \<open>A write and the flush that puts it\<close>

text \<open>A flush that returns has put every pending value.\<close>

lemma fold_apply_one_ok:
  assumes X: "quiet_put X" and "distinct q" and "fold_res (apply_one X) q w = Inr w'" and "r \<in> set q"
  shows "\<exists>c v. chdls w r = Some c \<and> pending_value c = Inr v"
  using assms(2-4)
proof (induction q arbitrary: w)
  case (Cons s q)
  obtain w1 where w1: "apply_one X s w = Inr w1" "fold_res (apply_one X) q w1 = Inr w'"
    using Cons.prems(2) by (auto simp: and_then_eq_Inr)
  then obtain c v f where c: "chdls w s = Some c" "pending_value c = Inr v"
    and rest: "fold_res (apply_one X) q
      (log_call (PutValue (vpi_handle c) v f) (set_chdl s (c\<lparr>put_value_flag := None\<rparr>) w)) = Inr w'"
    by (auto simp: apply_one_def [of X s] and_then_eq_Inr quiet_put_value [OF X] split: option.splits)
  show ?case
  proof (cases "r = s")
    case False
    then show ?thesis using Cons.IH [OF _ rest] Cons.prems(1,3) by simp
  qed (use c in simp)
qed simp

lemma flush_returns:
  assumes X: "quiet_put X" and inv: "put_inv C w" and nb: "\<not> use_hdl_put_value_bak (env w)"
    and run: "apply_pending_put_values X C w = Inr w'"
  shows "puts_ok w" "w' = flushed w"
proof -
  have b: "hdl_put_value_bak (env w) = []" using inv nb by (auto simp: put_inv_def)
  have "ok (fst (snd (put_of w r)))" if r: "r \<in> set (hdl_put_value (env w))" for r
  proof -
    define w1 where "w1 u = w\<lparr>env := (env w)\<lparr>flush_epoch := flush_epoch (env w) + 1,
        use_hdl_put_value_bak := u\<rparr>\<rparr>" for u
    have "\<exists>u y. do_apply_pending_put_values X (w1 u) = Inr y"
    proof (cases "reentrant_build C")
      case True
      then show ?thesis
        using run r
        by (intro exI [of _ True]) (auto simp: apply_pending_put_values_def flush_loop.simps [of X] w1_def Let_def
            split: option.splits sum.splits if_splits)
    next
      case False
      have "w\<lparr>env := (env w)\<lparr>flush_epoch := flush_epoch (env w) + 1\<rparr>\<rparr> = w1 False" using nb by (simp add: w1_def)
      then show ?thesis using run r False by (auto simp: apply_pending_put_values_def Let_def split: if_splits)
    qed
    then obtain u y where "fold_res (apply_one X) (hdl_put_value (env w)) (w1 u) = Inr y"
      by (auto simp: do_apply_pending_put_values_def and_then_eq_Inr w1_def)
    moreover have "distinct (hdl_put_value (env w))" using inv by (simp add: put_inv_def queued_def)
    ultimately show ?thesis
      using fold_apply_one_ok [OF X, of "hdl_put_value (env w)" "w1 u" y r] r by (auto simp: w1_def put_of_def)
  qed
  then show p: "puts_ok w" by (simp add: puts_ok_def pending_puts_def queued_def b)
  show "w' = flushed w" using p apply_pending_quiet [OF X inv] nb run by simp
qed

lemma last_put_of_flush:
  "pending_puts w = ps @ [(h, Inr v, f)] \<Longrightarrow> last (vpi_log (flushed w)) = PutValue h v f"
  by (simp add: flushed_def put_call_def)

text \<open>A deferred write that no force blocks puts nothing itself and is the last put of the next flush.\<close>

lemma deferred_then_flushed:
  assumes X: "quiet_put X" and C: "\<not> feat_inertial_put C" and inv: "put_inv C w"
    and nb: "\<not> use_hdl_put_value_bak (env w)" and c: "chdls w r = Some c" "vpi_handle c \<noteq> 0"
    and f: "\<not> force_blocks c f" and w1: "deferred_op X C f op r w = Inr w1"
    and w2: "apply_pending_put_values X C w1 = Inr w2"
  shows "puts_of (vpi_log w1) = puts_of (vpi_log w)
    \<and> (\<exists>v. posted_value op f c = Inr v \<and> last (vpi_log w2) = PutValue (vpi_handle c) v f)"
proof -
  note fr = deferred_op_frame [OF C inv w1]
  have i1: "put_inv C w1" "\<not> use_hdl_put_value_bak (env w1)" using fr(2,3) nb c by (simp_all add: signal_at_def)
  have "deferred_write X C (fill_of op) f (fmt_of op) r w = Inr w1" using w1 deferred_op_eq [OF C] by simp
  then have "pending_puts w1 = post_put (vpi_handle c) (posted_value op f c) f (pending_puts w)"
    using fo.deferred_write_refines [OF inv c(1)] f by (simp add: posted_value_def)
  then obtain ps where ps: "pending_puts w1 = ps @ [(vpi_handle c, posted_value op f c, f)]"
    by (simp add: post_put_def)
  note fl = flush_returns [OF X i1 w2]
  obtain v where v: "posted_value op f c = Inr v" using fl(1) by (auto simp: puts_ok_def ps ok_iff)
  then show ?thesis using fr(1) last_put_of_flush [of w1 ps] ps fl(2) by auto
qed

subsection \<open>What the queue represents\<close>

text \<open>The concrete queue represents the abstract one.\<close>

definition represents :: "(raw \<times> action) list \<Rightarrow> world \<Rightarrow> bool" where
  "represents q w \<longleftrightarrow> map fst q = queued w
     \<and> (\<forall>p \<in> set q. \<exists>c. chdls w (fst p) = Some c \<and> put_value_flag c = Some (flag_of (snd p)))"

lemma represents_kinds: "represents q w \<Longrightarrow> pending_kinds w = map (kind_of w) q"
proof -
  assume r: "represents q w"
  then have q: "queued w = map fst q" by (simp add: represents_def)
  have "pending_kinds w = map (\<lambda>p. (\<lambda>(h, v, f). (h, f)) (put_of w (fst p))) q"
    by (simp add: pending_kinds_def pending_puts_def q)
  also have "\<dots> = map (kind_of w) q"
    using r unfolding represents_def by (intro map_cong refl) (auto simp: put_of_def kind_of_def)
  finally show ?thesis .
qed

lemma filter_fst_remove1:
  "distinct (map fst q) \<Longrightarrow> map fst (filter (\<lambda>e. fst e \<noteq> r) q) = remove1 r (map fst q)"
proof (induction q)
  case Nil
  then show ?case by simp
next
  case (Cons e q)
  then show ?case by (cases "fst e = r") (auto simp: filter_id_conv remove1_idem)
qed

lemma represents_step:
  assumes C: "\<not> feat_inertial_put C" and inv: "put_inv C w" and rep: "represents q w"
    and w': "deferred_op X C (flag_of a) op r w = Inr w'"
  shows "represents (arbitrate (r, a) q) w'"
proof -
  note dw = w' [unfolded deferred_op_eq [OF C]]
  obtain c where c: "chdls w r = Some c" using deferred_op_frame(5) [OF C inv w'] by blast
  have dist: "distinct (map fst q)" using rep inv by (simp add: represents_def put_inv_def)
  have flagged: "put_value_flag c \<noteq> None \<longleftrightarrow> r \<in> fst ` set q"
    using inv rep c unfolding put_inv_def represents_def by (metis list.set_map option.inject)
  have "put_value_flag c = Some vpiForceFlag \<longleftrightarrow> (r, ActForce) \<in> set q"
  proof
    assume f: "put_value_flag c = Some vpiForceFlag"
    then obtain b where "(r, b) \<in> set q" using flagged by force
    moreover from this have "flag_of b = vpiForceFlag" using rep c f by (fastforce simp: represents_def)
    ultimately show "(r, ActForce) \<in> set q" by (cases b) simp_all
  next
    assume "(r, ActForce) \<in> set q"
    then show "put_value_flag c = Some vpiForceFlag" using rep c by (fastforce simp: represents_def)
  qed
  then have block: "force_blocks c (flag_of a) \<longleftrightarrow> a = ActSet \<and> (r, ActForce) \<in> set q"
    by (cases a) (simp_all add: force_blocks_def)
  show ?thesis
  proof (cases "force_blocks c (flag_of a)")
    case True
    then show ?thesis using dw rep block by (simp add: fo.deferred_write_eq [OF inv c] arbitrate_def)
  next
    case False
    then obtain d where fill: "fill_of op (c\<lparr>put_value_flag := Some (flag_of a), put_value_format := fmt_of op\<rparr>) = Inr d"
      and w'': "w' = do_push_hdl_put_value X C r (set_chdl r d (drop_pending r w))"
      using dw by (auto simp: fo.deferred_write_eq [OF inv c] res_simps)
    have "put_value_flag d = Some (flag_of a)" using fo.fill_flag [OF fill] by simp
    moreover have "queued w' = remove1 r (queued w) @ [r]"
      by (simp add: w'' fo.queued_after [OF inv])
    ultimately show ?thesis
      using rep False block filter_fst_remove1 [OF dist, of r]
      by (auto simp: represents_def arbitrate_def w'')
  qed
qed

definition batch_queue :: "(raw \<times> action \<times> write_op) list \<Rightarrow> (raw \<times> action) list \<Rightarrow> (raw \<times> action) list" where
  "batch_queue rs q = fold arbitrate (map (\<lambda>(r, a, op). (r, a)) rs) q"

lemma deferred_batch_represents:
  assumes C: "\<not> feat_inertial_put C"
  shows "put_inv C w \<Longrightarrow> represents q w \<Longrightarrow> deferred_batch X C rs w = Inr w' \<Longrightarrow>
    (\<forall>(r, a, op) \<in> set rs. signal_at w r) \<Longrightarrow> put_inv C w' \<and> represents (batch_queue rs q) w' \<and> puts_of (vpi_log w') = puts_of (vpi_log w)
    \<and> use_hdl_put_value_bak (env w') = use_hdl_put_value_bak (env w)
    \<and> kind_of w' = kind_of w"
proof (induction rs arbitrary: w q)
  case Nil
  then show ?case by (simp add: deferred_batch_def batch_queue_def)
next
  case (Cons p rs)
  obtain r a op where p: "p = (r, a, op)" by (metis surj_pair)
  obtain w1 where w1: "deferred_op X C (flag_of a) op r w = Inr w1"
    and rest: "deferred_batch X C rs w1 = Inr w'"
    using Cons.prems(3) by (auto simp: deferred_batch_def p res_simps)
  note fr = deferred_op_frame [OF C Cons.prems(1) w1]
  have "kind_of w1 = kind_of w"
    using fr(4) by (auto simp: kind_of_def fun_eq_iff split: option.splits)
      (metis option.distinct(1) option.map_disc_iff, metis option.distinct(1) option.map_disc_iff,
       metis option.map(2) option.inject)
  moreover have "signal_at w1 s = signal_at w s" for s
    using fr(4) [of s] by (cases "chdls w s"; cases "chdls w1 s") (simp_all add: signal_at_def)
  ultimately show ?case
    using Cons.IH [OF fr(2) represents_step [OF C Cons.prems(1,2) w1] rest] fr(1,3) Cons.prems(4)
    by (simp add: batch_queue_def p)
qed

text \<open>C1. A batch of deferred writes to signals from an empty queue, followed by a flush, drives exactly the
  signals the arbitration leaves pending, each once, in order and with its flag; nothing is driven
  before the flush, and nothing stays pending after it.\<close>

theorem batch_then_flush:
  assumes "quiet_put X" and "\<not> feat_inertial_put C" and "put_inv C w"
    and "queued w = []" and "\<not> use_hdl_put_value_bak (env w)"
    and "deferred_batch X C rs w = Inr w1" and "puts_ok w1"
    and "\<forall>(r, a, op) \<in> set rs. signal_at w r"
  shows "\<exists>w2. apply_pending_put_values X C w1 = Inr w2 \<and> put_inv C w2 \<and> queued w2 = []
    \<and> puts_of (vpi_log w1) = puts_of (vpi_log w)
    \<and> puts_of (vpi_log w2) = puts_of (vpi_log w) @ map (kind_of w) (batch_queue rs [])"
proof -
  have rep: "represents [] w" using assms(4) by (simp add: represents_def)
  note b = deferred_batch_represents [OF assms(2,3) rep assms(6,8)]
  have nb: "use_hdl_put_value_bak (env w1) = False" using b assms(5) by simp
  have "apply_pending_put_values X C w1 = Inr (flushed w1)"
    using apply_pending_quiet [OF assms(1) _ assms(7) nb] b by blast
  moreover have "puts_of (vpi_log (flushed w1)) = puts_of (vpi_log w1) @ pending_kinds w1"
    by (simp add: flushed_def puts_of_put_calls pending_kinds_def)
  moreover have "pending_kinds w1 = map (kind_of w) (batch_queue rs [])"
    using b represents_kinds by metis
  ultimately show ?thesis using b flushed_inv [OF _ nb] by auto
qed

definition demo_batch :: "(raw \<times> action \<times> write_op) list" where
  "demo_batch = [(1, ActSet, OpValue 5), (2, ActForce, OpValue64 7), (1, ActSet, OpValue 6),
                 (2, ActSet, OpValue64 9)]"

lemma batch_then_flush_witness:
  "\<exists>w1 w2. deferred_batch recording_sim vcs_build demo_batch demo_world = Inr w1
     \<and> apply_pending_put_values recording_sim vcs_build w1 = Inr w2
     \<and> puts_of (vpi_log w2) = [(200, 5), (100, 1)]"
proof -
  have "case deferred_batch recording_sim vcs_build demo_batch demo_world of
      Inl e \<Rightarrow> False | Inr w1 \<Rightarrow> puts_ok w1" by code_simp
  then obtain w1 where w1: "deferred_batch recording_sim vcs_build demo_batch demo_world = Inr w1"
    and v: "puts_ok w1" by (auto split: sum.splits)
  have nb: "\<not> use_hdl_put_value_bak (env demo_world)" by simp
  have "\<not> feat_inertial_put vcs_build" by code_simp
  moreover have "puts_of (vpi_log demo_world) @ map (kind_of demo_world) (batch_queue demo_batch []) =
      [(200, 5), (100, 1)]" by code_simp
  moreover have "\<forall>(r, a, op) \<in> set demo_batch. signal_at demo_world r"
    by (simp add: demo_batch_def signal_at_def demo_world_def)
  ultimately show ?thesis
    using batch_then_flush [OF quiet_recording_sim _ demo_world_inv _ nb w1 v] w1 by auto
qed

lemma deferred_op_refines_witness:
  "\<exists>w'. deferred_op recording_sim verilator_build (flag_of ActSet) (OpValue64 7) 2 demo_world = Inr w'
     \<and> pending_puts w' = [(200, posted_value (OpValue64 7) 1 (demo_handle 200 64), 1)]"
proof -
  have "ok (deferred_op recording_sim verilator_build (flag_of ActSet) (OpValue64 7) 2 demo_world)"
    by code_simp
  then obtain w' where w': "deferred_op recording_sim verilator_build (flag_of ActSet) (OpValue64 7) 2
      demo_world = Inr w'" by (auto simp: ok_iff)
  have "\<not> feat_inertial_put verilator_build" by code_simp
  moreover have "chdls demo_world 2 = Some (demo_handle 200 64)" by (simp add: demo_world_def)
  moreover have "pending_puts demo_world = []" by (simp add: pending_puts_def)
  ultimately show ?thesis
    using deferred_op_refines [OF _ demo_world_inv _ w'] w' by (simp add: post_put_def)
qed

lemma vpiml_write_keeps_put_inv_witness:
  "\<exists>w'. vpiml_write recording_sim verilator_build (Deferred ActSet (OpValue64 7)) 2 demo_world = Inr w'
     \<and> put_inv verilator_build w' \<and> queued w' = [2]"
proof -
  let ?m = "vpiml_write recording_sim verilator_build (Deferred ActSet (OpValue64 7)) 2 demo_world"
  have "case ?m of Inl e \<Rightarrow> False | Inr w' \<Rightarrow> queued w' = [2]" by code_simp
  then obtain w' where "?m = Inr w'" "queued w' = [2]" by (auto split: sum.splits)
  moreover have "signal_at demo_world 2" by (simp add: signal_at_def demo_world_def)
  ultimately show ?thesis
    using vpiml_write_keeps_put_inv [OF quiet_recording_sim demo_world_inv] by blast
qed

end
