(* ===== verification/DrivenWords.thy ===== *)
theory DrivenWords
  imports WriteContract
begin

text \<open>
  Which bits a write really drives. A vector put hands the simulator the handle's whole word
  buffer; it reads the first \<open>beat_num\<close> words. The 64-bit and multi-word setters determine all of
  them; the deferred 32-bit setter leaves the upper words and the unknown bits of earlier writes.
\<close>

subsection \<open>What a handle drives\<close>

definition visible :: "complex_handle \<Rightarrow> t_vpi_vecval list" where
  "visible c = take (beat_num c) (put_value_vectors c)"

fun wanted_words :: "nat \<Rightarrow> write_op \<Rightarrow> u32 list" where
  "wanted_words n (OpValue v) = take n (v # replicate n 0)"
| "wanted_words n (OpValue64 v) = take n (lo32 v # hi32 v # replicate n 0)"
| "wanted_words n (OpValue64ForceSingle v) = take n (lo32 v # hi32 v # replicate n 0)"
| "wanted_words n (OpValueMulti vals) = take n vals"
| "wanted_words n (OpMultiBeat vals) = take n (vals @ replicate n 0)"
| "wanted_words n _ = []"

lemma lo32_shift_eq: "lo32_shift v = lo32 v"
proof (rule bit_word_eqI)
  fix n assume "n < LENGTH(32)"
  then show "bit (lo32_shift v) n = bit (lo32 v) n"
    by (simp add: lo32_shift_def lo32_def mask_32 bit_simps)
qed

lemma unat_halves: "unat (lo32 v) + 2 ^ 32 * unat (hi32 v) = unat v"
proof -
  have b: "unat v < 2 ^ 64" using unsigned_less [of v, where ?'a=nat] by simp
  have lo: "unat (lo32 v) = unat v mod 2 ^ 32"
    by (simp add: lo32_def mask_32 unsigned_ucast_eq take_bit_eq_mod flip: take_bit_eq_mask)
      (simp add: unat_mod)
  have hi: "unat (hi32 v) = unat v div 2 ^ 32"
    using b by (simp add: hi32_def unsigned_ucast_eq unsigned_drop_bit_eq take_bit_eq_mod
        drop_bit_eq_div less_mult_imp_div_less unat_div)
  show ?thesis unfolding lo hi by (rule mod_mult_div_eq)
qed

lemma words_value_zeros: "words_value (map (\<lambda>a. vecval a 0) (replicate n 0)) = 0"
  by (induction n) auto

lemma wanted64_value:
  "words_value (map (\<lambda>a. vecval a 0) (wanted_words n (OpValue64 v))) = unat v mod 2 ^ (32 * n)"
proof -
  have b: "unat v < 2 ^ 64" using unsigned_less [of v, where ?'a=nat] by simp
  consider "n = 0" | "n = 1" | m where "n = Suc (Suc m)" by (metis One_nat_def nat.exhaust)
  then show ?thesis
  proof cases
    case 1
    then show ?thesis by simp
  next
    case 2
    have "unat v mod 2 ^ 32 = (unat (lo32 v) + 2 ^ 32 * unat (hi32 v)) mod 2 ^ 32"
      by (simp only: unat_halves)
    also have "\<dots> = unat (lo32 v)" using unsigned_less [of "lo32 v", where ?'a=nat] by simp
    finally show ?thesis using 2 by simp
  next
    case 3
    have "(2::nat) ^ 64 \<le> 2 ^ (32 * n)" using 3 by (intro power_increasing) simp_all
    then have "unat v mod 2 ^ (32 * n) = unat v" using b by simp
    moreover have "words_value (map (\<lambda>a. vecval a 0) (wanted_words n (OpValue64 v))) = unat v"
      using words_value_zeros [of m] unat_halves [of v] unfolding 3 wanted_words.simps take_Suc_Cons
      by (simp add: take_replicate del: replicate.simps)
    ultimately show ?thesis by simp
  qed
qed

subsection \<open>What the fill functions write\<close>

lemma nth_set_word:
  "j < length vs \<Longrightarrow> set_word i a b vs ! j = (if i = j then vecval a b else vs ! j)"
  by (simp add: set_word_def nth_list_update)

lemma nth_set_aval:
  "j < length vs \<Longrightarrow> set_aval i a vs ! j = (if i = j then (vs ! j)\<lparr>aval := a\<rparr> else vs ! j)"
  by (simp add: set_aval_def nth_list_update)

lemma nth_fold_set_word:
  "j < length vs \<Longrightarrow> fold (\<lambda>i. set_word i (f i) (g i)) [lo..<hi] vs ! j =
     (if lo \<le> j \<and> j < hi then vecval (f j) (g j) else vs ! j)"
proof (induction hi)
  case 0
  then show ?case by simp
next
  case (Suc hi)
  show ?case
  proof (cases "lo \<le> hi")
    case True
    then show ?thesis
      using Suc by (auto simp: nth_set_word length_fold_words)
  qed (use Suc in auto)
qed

lemma nth_zero_words:
  "j < length vs \<Longrightarrow> zero_words lo hi vs ! j = (if lo \<le> j \<and> j < hi then vecval 0 0 else vs ! j)"
  unfolding zero_words_def by (rule nth_fold_set_word)

lemma vecval_aval [simp]: "(vecval a b)\<lparr>aval := a'\<rparr> = vecval a' b"
  by (simp add: vecval_def)

lemmas nth_words = nth_set_word nth_set_aval nth_zero_words nth_fold_set_word

lemma visible_eqI:
  assumes "handle_wf d" and "length as = beat_num d"
    and "\<And>j. j < beat_num d \<Longrightarrow> put_value_vectors d ! j = vecval (as ! j) 0"
  shows "visible d = map (\<lambda>a. vecval a 0) as"
  using assms by (intro nth_equalityI) (auto simp: visible_def handle_wf_def)

fun determines_words :: "write_op \<Rightarrow> bool" where
  "determines_words (OpValue64 v) = True"
| "determines_words (OpValue64ForceSingle v) = True"
| "determines_words (OpValueMulti vals) = True"
| "determines_words _ = False"

lemma fill_exact:
  assumes wf: "handle_wf c" and op: "determines_words op" and d: "fill_of op c = Inr d"
  shows "beat_num d = beat_num c \<and> visible d = map (\<lambda>a. vecval a 0) (wanted_words (beat_num c) op)"
proof -
  have len: "length (put_value_vectors c) = 32" and b: "beat_num c \<le> 32"
    using wf by (simp_all add: handle_wf_def MAX_VECTOR_SIZE_def)
  have wfd: "handle_wf d" by (rule fo.fill_wf [OF d wf])
  have nth: "(lo # hi # replicate n 0) ! j = (if j = 0 then lo else if j = 1 then hi else (0 :: u32))"
    if "j < n" for lo hi n j using that by (auto simp: nth_Cons split: nat.splits)
  have bn: "beat_num d = beat_num c"
    using op d by (cases op) (auto simp: fill_value64_def fill_value64_force_single_def
        fill_value_multi_def with_vectors_def split: if_splits)
  moreover have "visible d = map (\<lambda>a. vecval a 0) (wanted_words (beat_num c) op)"
  proof (rule visible_eqI [OF wfd])
    show "length (wanted_words (beat_num c) op) = beat_num d"
      using op d by (cases op) (auto simp: bn fill_value_multi_def split: if_splits)
    show "put_value_vectors d ! j = vecval (wanted_words (beat_num c) op ! j) 0" if "j < beat_num d" for j
      using op d that b len bn
      by (cases op) (auto simp: fill_value64_def fill_value64_force_single_def fill_value_multi_def
          with_vectors_def nth_words nth lo32_shift_eq length_fold_words split: if_splits)
  qed
  ultimately show ?thesis ..
qed

lemma wf_flagged: "handle_wf c \<Longrightarrow> handle_wf (c\<lparr>put_value_flag := f, put_value_format := m\<rparr>)"
  by simp

lemma fill_keeps_format:
  "determines_words op \<Longrightarrow> fill_of op c = Inr d \<Longrightarrow> put_value_format d = put_value_format c"
  by (cases op) (auto simp: fill_value64_def fill_value64_force_single_def fill_value_multi_def
      with_vectors_def split: if_splits)

lemma posted_words:
  assumes wf: "handle_wf c" and op: "determines_words op" and v: "posted_value op f c = Inr v"
  shows "\<exists>ws. v = \<lparr>format = vpiVectorVal, value_u = Vector ws\<rparr>
    \<and> take (beat_num c) ws = map (\<lambda>a. vecval a 0) (wanted_words (beat_num c) op)"
proof -
  obtain d where d: "fill_of op (c\<lparr>put_value_flag := Some f, put_value_format := fmt_of op\<rparr>) = Inr d"
    and pv: "pending_value d = Inr v"
    using v by (auto simp: posted_value_def and_then_eq_Inr)
  have "fmt_of op = vpiVectorVal" using op by (cases op) simp_all
  then have "put_value_format d = vpiVectorVal" using fill_keeps_format [OF op d] by simp
  then have "v = \<lparr>format = vpiVectorVal, value_u = Vector (put_value_vectors d)\<rparr>"
    using pv by (simp add: pending_value_def)
  then show ?thesis using fill_exact [OF wf_flagged [OF wf] op d] by (auto simp: visible_def)
qed

lemma no_x_map [simp]: "no_x (map (\<lambda>a. vecval a 0) as)"
  by (simp add: no_x_def list_all_iff)

subsection \<open>What reaches the simulator\<close>

text \<open>
  The call puts a vector on the signal of the handle, and the words the simulator reads are \<open>ws\<close>; the
  number they spell is \<open>n\<close>, without unknown bits.
\<close>

definition drives_words :: "complex_handle \<Rightarrow> t_vpi_vecval list \<Rightarrow> nat \<Rightarrow> vpi_call \<Rightarrow> bool" where
  "drives_words c ws f l \<longleftrightarrow>
     (\<exists>us. l = PutValue (vpi_handle c) \<lparr>format = vpiVectorVal, value_u = Vector us\<rparr> f \<and> take (beat_num c) us = ws)"

definition drives_number :: "complex_handle \<Rightarrow> nat \<Rightarrow> nat \<Rightarrow> vpi_call \<Rightarrow> bool" where
  "drives_number c n f l \<longleftrightarrow> (\<exists>ws. drives_words c ws f l \<and> words_value ws = n \<and> no_x ws)"

lemma drives_wanted: "drives_words c (map (\<lambda>a. vecval a 0) as) f l \<Longrightarrow>
    words_value (map (\<lambda>a. vecval a 0) as) = n \<Longrightarrow> drives_number c n f l"
  unfolding drives_number_def using no_x_map by blast

text \<open>An inertial or immediate write puts the filled buffer at once.\<close>

lemma put_filled_drives:
  assumes X: "quiet_put X" and c: "chdls w r = Some c" and d: "fill c = Inr d"
    and same: "vpi_handle d = vpi_handle c" "beat_num d = beat_num c"
  shows "\<exists>w' l. put_filled X fill f r w = Inr w' \<and> vpi_log w' = vpi_log w @ [l] \<and> drives_words c (visible d) f l"
  using same by (simp add: put_filled_def from_raw_Some [OF c] d quiet_put_value [OF X] drives_words_def visible_def)

text \<open>C16. A 64-bit write drives the value the caller asked for, truncated to the signal's words, with no
  unknown bits, whatever earlier writes left in the handle's buffer: the immediate and the inertial form at
  once, the deferred form, unless a pending force blocks it, as the last put of the next flush.\<close>

theorem set_value64_drives_value:
  assumes "quiet_put X" and "put_inv C w" and "chdls w r = Some c"
  shows "(\<exists>w' l. action_imm_value64 X f r v w = Inr w' \<and> vpi_log w' = vpi_log w @ [l]
        \<and> drives_number c (unat v mod 2 ^ (32 * beat_num c)) f l)
    \<and> (feat_inertial_put C \<longrightarrow> (\<exists>w' l. action_value64 X C f r v w = Inr w' \<and> vpi_log w' = vpi_log w @ [l]
        \<and> drives_number c (unat v mod 2 ^ (32 * beat_num c)) (inertial_flag f) l))
    \<and> (\<not> feat_inertial_put C \<and> \<not> use_hdl_put_value_bak (env w) \<and> vpi_handle c \<noteq> 0 \<and> \<not> force_blocks c f \<longrightarrow>
        (\<exists>w1. action_value64 X C f r v w = Inr w1 \<and> puts_of (vpi_log w1) = puts_of (vpi_log w)
          \<and> (\<forall>w2. apply_pending_put_values X C w1 = Inr w2 \<longrightarrow>
                drives_number c (unat v mod 2 ^ (32 * beat_num c)) f (last (vpi_log w2)))))"
proof (intro conjI impI)
  have wf: "handle_wf c" using assms(2,3) by (simp add: put_inv_def)
  obtain d where d: "fill_value64 v c = Inr d" and dh: "vpi_handle d = vpi_handle c"
    by (simp add: fill_value64_def)
  note ex = fill_exact [OF wf, of "OpValue64 v" d]
  have vis: "visible d = map (\<lambda>a. vecval a 0) (wanted_words (beat_num c) (OpValue64 v))" "beat_num d = beat_num c"
    using ex d by simp_all
  have put: "\<exists>w' l. put_filled X (fill_value64 v) g r w = Inr w' \<and> vpi_log w' = vpi_log w @ [l]
      \<and> drives_number c (unat v mod 2 ^ (32 * beat_num c)) g l" for g
    using put_filled_drives [where fill="fill_value64 v" and f=g, OF assms(1,3) d dh vis(2)] drives_wanted wanted64_value unfolding vis(1) by metis
  show "\<exists>w' l. action_imm_value64 X f r v w = Inr w' \<and> vpi_log w' = vpi_log w @ [l]
      \<and> drives_number c (unat v mod 2 ^ (32 * beat_num c)) f l"
    using put unfolding action_imm_value64_def .
  show "\<exists>w' l. action_value64 X C f r v w = Inr w' \<and> vpi_log w' = vpi_log w @ [l]
      \<and> drives_number c (unat v mod 2 ^ (32 * beat_num c)) (inertial_flag f) l" if "feat_inertial_put C"
    using put that by (simp add: action_value64_def)
  assume C: "\<not> feat_inertial_put C \<and> \<not> use_hdl_put_value_bak (env w) \<and> vpi_handle c \<noteq> 0 \<and> \<not> force_blocks c f"
  then obtain w1 where w1: "action_value64 X C f r v w = Inr w1"
    using fv64.deferred_write_eq [OF assms(2,3)] by (simp add: action_value64_def fill_value64_def)
  then have op: "deferred_op X C f (OpValue64 v) r w = Inr w1" by simp
  have "drives_number c (unat v mod 2 ^ (32 * beat_num c)) f (last (vpi_log w2))"
    if w2: "apply_pending_put_values X C w1 = Inr w2" for w2
  proof -
    obtain u where u: "posted_value (OpValue64 v) f c = Inr u" "last (vpi_log w2) = PutValue (vpi_handle c) u f"
      using deferred_then_flushed [OF assms(1) _ assms(2) _ assms(3) _ _ op w2] C by blast
    then show ?thesis
      using posted_words [OF wf _ u(1)] wanted64_value [of "beat_num c" v]
      by (intro drives_wanted) (auto simp: drives_words_def simp del: wanted_words.simps)
  qed
  then show "\<exists>w1. action_value64 X C f r v w = Inr w1 \<and> puts_of (vpi_log w1) = puts_of (vpi_log w)
      \<and> (\<forall>w2. apply_pending_put_values X C w1 = Inr w2 \<longrightarrow>
            drives_number c (unat v mod 2 ^ (32 * beat_num c)) f (last (vpi_log w2)))"
    using w1 deferred_op_frame(1) [OF _ assms(2) op] C by blast
qed

lemma set_value64_drives_value_witness:
  "(\<exists>w' l. action_imm_value64 recording_sim 1 2 0x123456789A demo_world = Inr w' \<and> vpi_log w' = [l]
      \<and> drives_number (demo_handle 200 64) 0x123456789A 1 l)
   \<and> (\<exists>w1 w2. action_value64 recording_sim vcs_build 1 2 0x123456789A demo_world = Inr w1
      \<and> apply_pending_put_values recording_sim vcs_build w1 = Inr w2
      \<and> drives_number (demo_handle 200 64) 0x123456789A 1 (last (vpi_log w2)))"
proof -
  have c: "chdls demo_world 2 = Some (demo_handle 200 64)" and l: "vpi_log demo_world = []"
    by (simp_all add: demo_world_def empty_world_def)
  have b: "beat_num (demo_handle 200 64) = 2" "vpi_handle (demo_handle 200 64) \<noteq> 0"
    "\<not> force_blocks (demo_handle 200 64) 1" "\<not> feat_inertial_put vcs_build" by code_simp+
  have "case and_then (action_value64 recording_sim vcs_build 1 2 0x123456789A demo_world)
      (apply_pending_put_values recording_sim vcs_build) of Inl e \<Rightarrow> False | Inr w2 \<Rightarrow> True" by code_simp
  then obtain w1 w2 where w: "action_value64 recording_sim vcs_build 1 2 0x123456789A demo_world = Inr w1"
    "apply_pending_put_values recording_sim vcs_build w1 = Inr w2" by (auto split: sum.splits simp: and_then_eq_Inr)
  show ?thesis
    using set_value64_drives_value [OF quiet_recording_sim demo_world_inv c, of 1 "0x123456789A" vcs_build] b l w
    by auto
qed

text \<open>
  The two 32-bit forms on the same handle: the immediate (and inertial) one clears the unknown bits
  and the upper words, the deferred one writes \<open>aval\<close> of the first word and nothing else.
\<close>

definition driven :: "complex_handle \<Rightarrow> nat" where
  "driven c = words_value (visible c)"

lemma visible_Cons:
  assumes "handle_wf c" and "0 < beat_num c"
  obtains w ws where "visible c = w # ws"
proof -
  have "visible c \<noteq> []"
    using assms(1,2) by (cases "put_value_vectors c") (auto simp: visible_def handle_wf_def MAX_VECTOR_SIZE_def)
  then show thesis using that by (cases "visible c") auto
qed

lemma fill_value_visible:
  assumes wf: "handle_wf c" and b: "0 < beat_num c"
    and v: "visible c = w # ws" and d: "fill_value a c = Inr d"
  shows "visible d = w\<lparr>aval := a\<rparr> # ws"
proof -
  obtain x xs where x: "put_value_vectors c = x # xs"
    using wf by (cases "put_value_vectors c") (auto simp: handle_wf_def MAX_VECTOR_SIZE_def)
  obtain n where n: "beat_num c = Suc n" using b gr0_implies_Suc by blast
  have "x = w" "take n xs = ws" using v by (simp_all add: visible_def x n)
  then show ?thesis
    using d by (auto simp: fill_value_def with_vectors_def visible_def set_aval_def x n)
qed

lemma fill_value_zeroed_visible:
  assumes wf: "handle_wf c" and d: "fill_value_zeroed a c = Inr d"
  shows "visible d = map (\<lambda>a. vecval a 0) (wanted_words (beat_num c) (OpValue a))"
proof -
  have len: "length (put_value_vectors c) = 32" and b: "beat_num c \<le> 32"
    using wf by (simp_all add: handle_wf_def MAX_VECTOR_SIZE_def)
  have bn: "beat_num d = beat_num c" using d by (auto simp: fill_value_zeroed_def with_vectors_def)
  show ?thesis
  proof (rule visible_eqI)
    show "handle_wf d" by (rule fvz.fill_wf [OF d wf])
    show "length (wanted_words (beat_num c) (OpValue a)) = beat_num d" by (simp add: bn)
    show "put_value_vectors d ! j = vecval (wanted_words (beat_num c) (OpValue a) ! j) 0"
      if "j < beat_num d" for j
      using d that b len bn
      by (auto simp: fill_value_zeroed_def with_vectors_def nth_words nth_Cons split: nat.splits)
  qed
qed

lemma posted_over_stale:
  assumes wf: "handle_wf c" and b: "0 < beat_num c" and u: "posted_value (OpValue v) f c = Inr u"
  shows "\<exists>us. u = \<lparr>format = vpiVectorVal, value_u = Vector us\<rparr>
    \<and> map bval (take (beat_num c) us) = map bval (visible c)
    \<and> words_value (take (beat_num c) us) = unat v + 2 ^ 32 * (driven c div 2 ^ 32)"
proof -
  let ?c = "c\<lparr>put_value_flag := Some f, put_value_format := vpiVectorVal\<rparr>"
  obtain w ws where v: "visible c = w # ws" using visible_Cons [OF wf b] .
  obtain d where d: "fill_value v ?c = Inr d" and pv: "pending_value d = Inr u"
    using u by (auto simp: posted_value_def and_then_eq_Inr)
  have "visible ?c = w # ws" using v by (simp add: visible_def)
  note vis = fill_value_visible [OF wf_flagged [OF wf] _ this d]
  have "beat_num d = beat_num c" "put_value_format d = vpiVectorVal" using d by (auto simp: fill_value_def with_vectors_def)
  then have us: "u = \<lparr>format = vpiVectorVal, value_u = Vector (put_value_vectors d)\<rparr>"
      "take (beat_num c) (put_value_vectors d) = w\<lparr>aval := v\<rparr> # ws"
    using pv vis b by (simp_all add: pending_value_def visible_def)
  have "unat (aval w) < 2 ^ 32" using unsigned_less [of "aval w", where ?'a=nat] by simp
  then have "driven c div 2 ^ 32 = words_value ws" by (simp add: driven_def v)
  then show ?thesis using us v by simp
qed

text \<open>
  C31. After earlier writes to a wide signal the deferred 32-bit write, unless a pending force blocks it,
  drives the requested low word on top of the upper words and the unknown bits those writes left, while the
  inertial write and the immediate set drive the requested value alone, and the immediate force hands the
  simulator an integer.
\<close>

theorem set_value_keeps_stale_words:
  assumes "quiet_put X" and "put_inv C w" and "chdls w r = Some c" and "0 < beat_num c"
  shows "(\<not> feat_inertial_put C \<and> \<not> use_hdl_put_value_bak (env w) \<and> vpi_handle c \<noteq> 0 \<and> \<not> force_blocks c f \<longrightarrow>
        (\<exists>w1. action_value X C f r v w = Inr w1 \<and> puts_of (vpi_log w1) = puts_of (vpi_log w)
          \<and> (\<forall>w2. apply_pending_put_values X C w1 = Inr w2 \<longrightarrow>
              (\<exists>ws. drives_words c ws f (last (vpi_log w2)) \<and> map bval ws = map bval (visible c)
                \<and> words_value ws = unat v + 2 ^ 32 * (driven c div 2 ^ 32)))))
    \<and> (feat_inertial_put C \<longrightarrow> (\<exists>w' l. action_value X C f r v w = Inr w' \<and> vpi_log w' = vpi_log w @ [l]
        \<and> drives_number c (unat v) (inertial_flag f) l))
    \<and> (f \<noteq> vpiForceFlag \<longrightarrow> (\<exists>w' l. action_imm_value X f r v w = Inr w' \<and> vpi_log w' = vpi_log w @ [l]
        \<and> drives_number c (unat v) f l))
    \<and> (\<exists>w'. action_imm_value X vpiForceFlag r v w = Inr w' \<and> vpi_log w' = vpi_log w @
        [PutValue (vpi_handle c) \<lparr>format = vpiIntVal, value_u = Integer v\<rparr> vpiForceFlag])"
proof (intro conjI impI)
  have wf: "handle_wf c" using assms(2,3) by (simp add: put_inv_def)
  obtain d where d: "fill_value_zeroed v c = Inr d" and same: "vpi_handle d = vpi_handle c" "beat_num d = beat_num c"
    by (simp add: fill_value_zeroed_def)
  obtain n where n: "beat_num c = Suc n" using assms(4) gr0_implies_Suc by blast
  have vis: "visible d = map (\<lambda>a. vecval a 0) (v # replicate n 0)"
    using fill_value_zeroed_visible [OF wf d]
    unfolding n wanted_words.simps take_Suc_Cons by (simp add: take_replicate del: replicate.simps)
  have num: "words_value (map (\<lambda>a. vecval a 0) (v # replicate n 0)) = unat v"
    using words_value_zeros [of n] by (simp del: map_replicate)
  have put: "\<exists>w' l. put_filled X (fill_value_zeroed v) g r w = Inr w' \<and> vpi_log w' = vpi_log w @ [l]
      \<and> drives_number c (unat v) g l" for g
    using put_filled_drives [where fill="fill_value_zeroed v" and f=g, OF assms(1,3) d same] drives_wanted num
    unfolding vis by metis
  show "\<exists>w' l. action_value X C f r v w = Inr w' \<and> vpi_log w' = vpi_log w @ [l]
      \<and> drives_number c (unat v) (inertial_flag f) l" if "feat_inertial_put C"
    using put that by (simp add: action_value_def)
  show "\<exists>w' l. action_imm_value X f r v w = Inr w' \<and> vpi_log w' = vpi_log w @ [l] \<and> drives_number c (unat v) f l"
    if "f \<noteq> vpiForceFlag"
    using put that by (simp add: action_imm_value_def)
  show "\<exists>w'. action_imm_value X vpiForceFlag r v w = Inr w' \<and> vpi_log w' = vpi_log w @
      [PutValue (vpi_handle c) \<lparr>format = vpiIntVal, value_u = Integer v\<rparr> vpiForceFlag]"
    by (simp add: action_imm_value_def put_direct_def from_raw_Some [OF assms(3)] quiet_put_value [OF assms(1)])
  assume C: "\<not> feat_inertial_put C \<and> \<not> use_hdl_put_value_bak (env w) \<and> vpi_handle c \<noteq> 0 \<and> \<not> force_blocks c f"
  then obtain w1 where w1: "action_value X C f r v w = Inr w1"
    using fv.deferred_write_eq [OF assms(2,3)] by (simp add: action_value_def fill_value_def)
  then have op: "deferred_op X C f (OpValue v) r w = Inr w1" by simp
  have "\<exists>ws. drives_words c ws f (last (vpi_log w2)) \<and> map bval ws = map bval (visible c)
      \<and> words_value ws = unat v + 2 ^ 32 * (driven c div 2 ^ 32)"
    if w2: "apply_pending_put_values X C w1 = Inr w2" for w2
  proof -
    obtain u where u: "posted_value (OpValue v) f c = Inr u" "last (vpi_log w2) = PutValue (vpi_handle c) u f"
      using deferred_then_flushed [OF assms(1) _ assms(2) _ assms(3) _ _ op w2] C by blast
    then show ?thesis using posted_over_stale [OF wf assms(4) u(1)] unfolding drives_words_def by blast
  qed
  then show "\<exists>w1. action_value X C f r v w = Inr w1 \<and> puts_of (vpi_log w1) = puts_of (vpi_log w)
      \<and> (\<forall>w2. apply_pending_put_values X C w1 = Inr w2 \<longrightarrow>
          (\<exists>ws. drives_words c ws f (last (vpi_log w2)) \<and> map bval ws = map bval (visible c)
            \<and> words_value ws = unat v + 2 ^ 32 * (driven c div 2 ^ 32)))"
    using w1 deferred_op_frame(1) [OF _ assms(2) op] C by blast
qed

definition demo_wide :: complex_handle where
  "demo_wide = projr (fill_value64 0xFFFFFFFFFFFFFFFF (demo_handle 200 64))"

text \<open>A world with one 64-bit signal whose last write set every bit.\<close>

definition wide_world :: world where
  "wide_world = empty_world\<lparr>chdls := Map.empty(2 \<mapsto> demo_wide)\<rparr>"

lemma set_value_keeps_stale_words_witness:
  "\<exists>w1 w2 w3 ws l. action_value recording_sim vcs_build 1 2 5 wide_world = Inr w1
     \<and> apply_pending_put_values recording_sim vcs_build w1 = Inr w2
     \<and> drives_words demo_wide ws 1 (last (vpi_log w2)) \<and> words_value ws = 0xFFFFFFFF00000005
     \<and> action_imm_value recording_sim 1 2 5 wide_world = Inr w3 \<and> vpi_log w3 = [l] \<and> drives_number demo_wide 5 1 l"
proof -
  have wf: "handle_wf demo_wide" and b: "0 < beat_num demo_wide" and h: "vpi_handle demo_wide \<noteq> 0"
    and fl: "put_value_flag demo_wide = None" and nb: "\<not> force_blocks demo_wide 1" "\<not> feat_inertial_put vcs_build"
    and "visible demo_wide = [vecval 0xFFFFFFFF 0, vecval 0xFFFFFFFF 0]" by code_simp+
  then have o: "driven demo_wide = 0xFFFFFFFFFFFFFFFF" by (simp add: driven_def)
  have c: "chdls wide_world 2 = Some demo_wide" and l: "vpi_log wide_world = []"
    and bk: "\<not> use_hdl_put_value_bak (env wide_world)"
    by (simp_all add: wide_world_def empty_world_def default_env_def)
  have inv: "put_inv vcs_build wide_world"
    using wf h fl by (simp add: put_inv_def wide_world_def empty_world_def queued_def default_env_def)
  have five: "unat (5 :: u32) = 5" by simp
  have "case and_then (action_value recording_sim vcs_build 1 2 5 wide_world)
      (apply_pending_put_values recording_sim vcs_build) of Inl e \<Rightarrow> False | Inr w2 \<Rightarrow> True" by code_simp
  then obtain w1 w2 where w: "action_value recording_sim vcs_build 1 2 5 wide_world = Inr w1"
    "apply_pending_put_values recording_sim vcs_build w1 = Inr w2" by (auto split: sum.splits simp: and_then_eq_Inr)
  note t = set_value_keeps_stale_words [OF quiet_recording_sim inv c b, of 1 5]
  obtain ws where "drives_words demo_wide ws 1 (last (vpi_log w2))" "words_value ws = 0xFFFFFFFF00000005"
    using t nb bk h w o five by auto
  moreover obtain w3 l where "action_imm_value recording_sim 1 2 5 wide_world = Inr w3" "vpi_log w3 = [l]"
    "drives_number demo_wide 5 1 l" using t l five by auto
  ultimately show ?thesis using w by blast
qed

end
