(* ===== verification/Reentry.thy ===== *)
theory Reentry
  imports WriteContract
begin

text \<open>
  Simulators that run value-change callbacks inside \<open>vpi_put_value\<close> (VCS, Icarus): the flush loop of
  \<^verbatim>\<open>apply_pending_put_values\<close> in \<^verbatim>\<open>verilua_env.rs\<close> takes the puts such callbacks post and flushes them
  too. It returns when the posts run out; a post to a signal still waiting in the queue is what it
  cannot take.
\<close>

subsection \<open>Bounded re-entry\<close>

text \<open>
  \<open>\<mu>\<close> bounds, from what has been called so far, the posts that callbacks can still make: a put that
  posts uses it up.
\<close>

definition reentry_bound :: "externals \<Rightarrow> (vpi_call list \<Rightarrow> nat) \<Rightarrow> bool" where
  "reentry_bound X \<mu> \<longleftrightarrow>
     (\<forall>h v f w. vpi_put_value X h v f w \<noteq> Inl Hang)
     \<and> (\<forall>h v f w w'. vpi_put_value X h v f w = Inr w' \<longrightarrow>
           hdl_put_value (env w') = hdl_put_value (env w) \<longrightarrow>
           \<mu> (vpi_log w') + length (hdl_put_value_bak (env w'))
             \<le> \<mu> (vpi_log w) + length (hdl_put_value_bak (env w)))"

definition activity :: "(vpi_call list \<Rightarrow> nat) \<Rightarrow> world \<Rightarrow> nat" where
  "activity \<mu> w = \<mu> (vpi_log w) + length (hdl_put_value_bak (env w))"

lemma apply_one_bound:
  assumes "reentry_bound X \<mu>" and "apply_one X r w = Inr w'"
  shows "hdl_put_value (env w') = hdl_put_value (env w) \<and> activity \<mu> w' \<le> activity \<mu> w"
proof -
  obtain c v f where "vpi_put_value X (vpi_handle c) v f (set_chdl r (c\<lparr>put_value_flag := None\<rparr>) w) = Inr w'"
    and "hdl_put_value (env w') = hdl_put_value (env w)"
    using assms(2) by (auto simp: apply_one_def and_then_eq_Inr split: option.splits if_splits)
  then show ?thesis using assms(1) unfolding reentry_bound_def activity_def by fastforce
qed

lemma do_apply_bound:
  assumes "reentry_bound X \<mu>" and "do_apply_pending_put_values X w = Inr w'"
  shows "hdl_put_value (env w') = [] \<and> activity \<mu> w' \<le> activity \<mu> w"
proof -
  obtain w1 where f: "fold_res (apply_one X) (hdl_put_value (env w)) w = Inr w1"
    and w': "w' = w1\<lparr>env := (env w1)\<lparr>hdl_put_value := []\<rparr>\<rparr>"
    using assms(2) by (auto simp: do_apply_pending_put_values_def and_then_eq_Inr)
  have "activity \<mu> w1 \<le> activity \<mu> w"
    by (rule fold_res_invariant [OF f]) (use apply_one_bound [OF assms(1)] in fastforce)+
  then show ?thesis by (simp add: w' activity_def)
qed

lemma fold_res_no_hang: "(\<And>x s. f x s \<noteq> Inl Hang) \<Longrightarrow> fold_res f xs s \<noteq> Inl Hang"
proof (induction xs arbitrary: s)
  case Nil
  then show ?case by simp
next
  case (Cons x xs)
  then show ?case by (cases "f x s") (simp_all, metis)
qed

lemma do_apply_no_hang: "reentry_bound X \<mu> \<Longrightarrow> do_apply_pending_put_values X w \<noteq> Inl Hang"
proof -
  assume b: "reentry_bound X \<mu>"
  have pv: "pending_value c \<noteq> Inl Hang" for c by (simp add: pending_value_def Let_def)
  have one: "apply_one X r w \<noteq> Inl Hang" for r w
  proof
    assume hang: "apply_one X r w = Inl Hang"
    obtain c v f where "vpi_put_value X (vpi_handle c) v f (set_chdl r (c\<lparr>put_value_flag := None\<rparr>) w) = Inl Hang"
      using hang pv
      by (auto simp: apply_one_def and_then_def from_raw_def split: sum.splits option.splits if_splits)
    then show False using b by (simp add: reentry_bound_def)
  qed
  show ?thesis
    using fold_res_no_hang [of "apply_one X", OF one]
    by (auto simp: do_apply_pending_put_values_def and_then_def split: sum.splits)
qed

lemma flush_loop_returns:
  assumes b: "reentry_bound X \<mu>"
  shows "hdl_put_value_bak (env w) = [] \<Longrightarrow>
    (\<exists>w'. flush_loop X w = Some (Inr w') \<and> queued w' = []) \<or>
    (\<exists>e. flush_loop X w = Some (Inl e) \<and> e \<noteq> Hang)"
proof (induction "\<mu> (vpi_log w)" arbitrary: w rule: less_induct)
  case less
  show ?case
  proof (cases "hdl_put_value (env w) = []")
    case True
    then show ?thesis using less.prems by (simp add: flush_loop_empty queued_def)
  next
    case False
    show ?thesis
    proof (cases "do_apply_pending_put_values X w")
      case (Inl e)
      then show ?thesis using False do_apply_no_hang [OF b, of w] by (simp add: flush_loop.simps)
    next
      case (Inr w1)
      have loop: "flush_loop X w = flush_loop X (append_bak w1)"
        using False Inr by (simp add: flush_loop.simps [of X w])
      have bound: "hdl_put_value (env w1) = []" "activity \<mu> w1 \<le> activity \<mu> w"
        using do_apply_bound [OF b Inr] by simp_all
      have sel: "hdl_put_value (env (append_bak w1)) = hdl_put_value_bak (env w1)"
        "hdl_put_value_bak (env (append_bak w1)) = []" "vpi_log (append_bak w1) = vpi_log w1"
        using bound by (simp_all add: append_bak_def)
      show ?thesis
      proof (cases "hdl_put_value_bak (env w1) = []")
        case True
        then show ?thesis using loop sel by (simp add: flush_loop_empty queued_def)
      next
        case False
        then have "0 < length (hdl_put_value_bak (env w1))" by simp
        then have "\<mu> (vpi_log (append_bak w1)) < \<mu> (vpi_log w)"
          using bound(2) less.prems unfolding sel(3) activity_def by (simp del: length_greater_0_conv)
        then show ?thesis unfolding loop using less.hyps sel(2) by blast
      qed
    qed
  qed
qed

text \<open>C10. On a re-entrant simulator the flush returns whenever the posts made by value-change
  callbacks run out, and when it succeeds nothing is left in either queue.\<close>

theorem apply_pending_returns:
  assumes "reentry_bound X \<mu>" and "reentrant_build C" and "hdl_put_value_bak (env w) = []"
  shows "apply_pending_put_values X C w \<noteq> Inl Hang
    \<and> (\<forall>w'. apply_pending_put_values X C w = Inr w' \<longrightarrow> queued w' = [])"
proof -
  let ?w = "w\<lparr>env := (env w)\<lparr>flush_epoch := flush_epoch (env w) + 1, use_hdl_put_value_bak := True\<rparr>\<rparr>"
  have q: "queued (v\<lparr>env := (env v)\<lparr>use_hdl_put_value_bak := u\<rparr>\<rparr>) = queued v" for u v
    by (simp add: queued_def)
  have eq: "apply_pending_put_values X C w =
    (if hdl_put_value (env w) = [] then Inr w
     else case flush_loop X ?w of None \<Rightarrow> Inl Hang | Some (Inl e) \<Rightarrow> Inl e
      | Some (Inr w2) \<Rightarrow> Inr (w2\<lparr>env := (env w2)\<lparr>use_hdl_put_value_bak := False\<rparr>\<rparr>))"
    using assms(2) by (simp add: apply_pending_put_values_def Let_def)
  have "hdl_put_value_bak (env ?w) = []" using assms(3) by simp
  from flush_loop_returns [OF assms(1) this]
  have "apply_pending_put_values X C w \<noteq> Inl Hang"
    and "apply_pending_put_values X C w = Inr w' \<Longrightarrow> queued w' = []" for w'
    using assms(3) by (auto simp: eq q split: if_splits) (simp_all add: queued_def)
  then show ?thesis by blast
qed

subsection \<open>Two signals with feedback\<close>

text \<open>
  The simulator of the concrete runs: the first change of signal 100 wakes a task that writes the
  64-bit signal at address 2.
\<close>

definition puts_to :: "vpiHandle \<Rightarrow> vpi_call list \<Rightarrow> nat" where
  "puts_to h l = length (filter (\<lambda>p. fst p = h) (puts_of l))"

definition feedback_sim :: externals where
  "feedback_sim = recording_sim\<lparr>put_react := (\<lambda>h v f w.
     if h = 100 \<and> puts_to 100 (vpi_log w) = 1
     then deferred_op recording_sim vcs_build vpiNoDelay (OpValue64 7) 2 w else Inr w)\<rparr>"

lemma length_vec_remove: "length (vec_remove i xs) \<le> length xs"
  by (simp add: vec_remove_def)

lemma remove_stale_bak:
  "remove_stale C h w = Some w' \<Longrightarrow>
   length (hdl_put_value_bak (env w')) \<le> length (hdl_put_value_bak (env w)) \<and> vpi_log w' = vpi_log w"
  by (auto simp: remove_stale_def length_vec_remove split: option.splits if_splits)

lemma try_put_value_bak:
  assumes "try_put_value C r flag fmt w = Inr (b, w1)"
  shows "length (hdl_put_value_bak (env w1)) \<le> length (hdl_put_value_bak (env w))
    \<and> vpi_log w1 = vpi_log w"
proof -
  obtain c where c: "chdls w r = Some c" using assms by (auto simp: try_put_value_def and_then_eq_Inr)
  let ?w = "set_chdl r (c\<lparr>put_value_flag := Some flag, put_value_format := fmt\<rparr>) w"
  have "w1 = w \<or> w1 = ?w \<or> remove_stale C (vpi_handle c) ?w = Some w1"
    using assms by (auto simp: try_put_value_def from_raw_Some [OF c] split: option.splits if_splits)
  then show ?thesis using remove_stale_bak [of C "vpi_handle c" ?w w1] by auto
qed

lemma deferred_write_bak:
  assumes "deferred_write X C fill flag fmt r w = Inr w'"
  shows "length (hdl_put_value_bak (env w')) \<le> Suc (length (hdl_put_value_bak (env w)))
    \<and> puts_of (vpi_log w') = puts_of (vpi_log w)"
proof -
  obtain b w1 where w1: "try_put_value C r flag fmt w = Inr (b, w1)"
    and "w' = w1 \<or> (\<exists>d. w' = do_push_hdl_put_value X C r (set_chdl r d w1))"
    using assms by (auto simp: deferred_write_def and_then_eq_Inr split: if_splits)
  then show ?thesis using try_put_value_bak [OF w1] by (auto simp: do_push_log do_push_queues)
qed

lemma try_put_no_hang: "try_put_value C r flag fmt w \<noteq> Inl Hang"
  by (auto simp: try_put_value_def and_then_def from_raw_def split: option.splits sum.splits if_splits)

lemma feedback_no_inertial: "\<not> feat_inertial_put vcs_build"
  by (simp add: vcs_build_def)

lemma deferred64_no_hang: "deferred_op recording_sim vcs_build f (OpValue64 v) r w \<noteq> Inl Hang"
  unfolding deferred_op_eq [OF feedback_no_inertial]
  using try_put_no_hang [of vcs_build r f vpiVectorVal w]
  by (auto simp: deferred_write_def and_then_def from_raw_def fill_value64_def
      split: option.splits sum.splits if_splits)

lemma feedback_bound: "reentry_bound feedback_sim (\<lambda>l. if puts_to 100 l = 0 then 1 else 0)"
proof -
  let ?go = "\<lambda>w. deferred_op recording_sim vcs_build vpiNoDelay (OpValue64 7) 2 w"
  have put: "vpi_put_value feedback_sim h v f w = (if h = 100 \<and> puts_to 100 (vpi_log w) = 0
      then ?go (log_call (PutValue h v f) w) else Inr (log_call (PutValue h v f) w))" for h v f w
    by (auto simp: vpi_put_value_def feedback_sim_def puts_to_def)
  note C = feedback_no_inertial
  have go: "length (hdl_put_value_bak (env w')) \<le> Suc (length (hdl_put_value_bak (env w)))
      \<and> puts_of (vpi_log w') = puts_of (vpi_log w)" if "?go w = Inr w'" for w w'
    using that deferred_write_bak unfolding deferred_op_eq [OF C] by blast
  show ?thesis
    unfolding reentry_bound_def put
    using deferred64_no_hang go by (fastforce simp: puts_to_def split: if_splits)
qed

definition one_queued :: world where
  "one_queued = projr (deferred_op recording_sim vcs_build vpiNoDelay (OpValue 5) 1 demo_world)"

definition both_queued :: world where
  "both_queued = projr (deferred_op recording_sim vcs_build vpiNoDelay (OpValue64 9) 2 one_queued)"

lemma apply_pending_returns_witness:
  "\<exists>w'. apply_pending_put_values feedback_sim vcs_build one_queued = Inr w' \<and> queued w' = []
     \<and> puts_of (vpi_log w') = [(100, 1), (200, 1)]"
proof -
  have "case apply_pending_put_values feedback_sim vcs_build one_queued of
     Inl e \<Rightarrow> False | Inr w' \<Rightarrow> puts_of (vpi_log w') = [(100, 1), (200, 1)]" by code_simp
  moreover have "reentrant_build vcs_build" "hdl_put_value_bak (env one_queued) = []" by code_simp+
  ultimately show ?thesis
    using apply_pending_returns [OF feedback_bound] by (auto split: sum.splits)
qed

subsection \<open>A post to a signal that still waits\<close>

text \<open>
  The reactions of a simulator where one task waits for the value change of signal \<open>h\<close>: when it is put,
  the task runs and posts \<open>op\<close> to the signal at \<open>s\<close>; no other put has a reaction.
\<close>

definition wakes_writer :: "externals \<Rightarrow> features \<Rightarrow> vpiHandle \<Rightarrow> nat \<Rightarrow> write_op \<Rightarrow> raw \<Rightarrow> bool" where
  "wakes_writer X C h g op s \<longleftrightarrow> (\<exists>X'. \<forall>k v f u. put_react X k v f u =
     (if k = h then deferred_op X' C g op s u else Inr u))"

text \<open>Taking back a stale post shortens the queue.\<close>

lemma remove_stale_shortens:
  assumes "chdls u s = Some d" and "s \<in> set (hdl_put_value (env u))"
  shows "\<exists>u'. remove_stale C (vpi_handle d) u = Some u' \<and> chdls u' = chdls u
    \<and> length (hdl_put_value (env u')) < length (hdl_put_value (env u))
    \<and> use_hdl_put_value_bak (env u') = use_hdl_put_value_bak (env u)"
proof -
  have "same_signal u (vpi_handle d) s" using assms(1) by (simp add: same_signal_def)
  then obtain i where i: "position (same_signal u (vpi_handle d)) (hdl_put_value (env u)) = Some i"
    using assms(2) by (cases "position (same_signal u (vpi_handle d)) (hdl_put_value (env u))")
      (auto simp: position_None_iff)
  then have "i < length (hdl_put_value (env u))" using position_Some by blast
  then have "length (vec_remove i (hdl_put_value (env u))) < length (hdl_put_value (env u))"
    by (simp add: vec_remove_def)
  then show ?thesis using i by (simp add: remove_stale_def)
qed

lemma reentrant_post_shortens:
  assumes C: "reentrant_build C" "\<not> feat_inertial_put C" and d: "chdls u s = Some d" "put_value_flag d \<noteq> None"
    and q: "s \<in> set (hdl_put_value (env u))" "use_hdl_put_value_bak (env u)"
    and op: "\<not> force_blocks d g" "\<And>c. ok (fill_of op c)"
  shows "\<exists>u'. deferred_op X C g op s u = Inr u' \<and> length (hdl_put_value (env u')) < length (hdl_put_value (env u))"
proof -
  let ?d = "d\<lparr>put_value_flag := Some g, put_value_format := fmt_of op\<rparr>"
  have "chdls (set_chdl s ?d u) s = Some ?d" "s \<in> set (hdl_put_value (env (set_chdl s ?d u)))"
    using q(1) by simp_all
  from remove_stale_shortens [OF this, of C]
  obtain u1 where u1: "remove_stale C (vpi_handle d) (set_chdl s ?d u) = Some u1" "chdls u1 s = Some ?d"
    "length (hdl_put_value (env u1)) < length (hdl_put_value (env u))" "use_hdl_put_value_bak (env u1)"
    using q(2) by auto
  have posted: "try_put_value C s g (fmt_of op) u = Inr (True, u1)"
    using d u1(1) op(1) by (auto simp: try_put_value_def from_raw_Some force_blocks_def)
  obtain e where e: "fill_of op ?d = Inr e" using op(2) [of ?d] by (auto simp: ok_iff)
  have "deferred_op X C g op s u = Inr (do_push_hdl_put_value X C s (set_chdl s e u1))"
    unfolding deferred_op_eq [OF C(2)] deferred_write_def using posted u1(2) e by (simp add: from_raw_Some)
  then show ?thesis using u1(3,4) C(1) by (simp add: do_push_queues)
qed

lemma flush_reaches_writer:
  assumes C: "reentrant_build C" "\<not> feat_inertial_put C" and X: "wakes_writer X C (vpi_handle cr) g op s"
    and op: "\<not> force_blocks cs g" "\<And>c. ok (fill_of op c)"
  shows "distinct (qs @ r # rs) \<Longrightarrow> s \<in> set rs \<Longrightarrow> chdls w r = Some cr \<Longrightarrow> chdls w s = Some cs \<Longrightarrow>
    s \<in> set (hdl_put_value (env w)) \<Longrightarrow> use_hdl_put_value_bak (env w) \<Longrightarrow>
    (\<And>q. q \<in> set (qs @ r # rs) \<Longrightarrow>
       \<exists>c f v. chdls w q = Some c \<and> put_value_flag c = Some f \<and> pending_value c = Inr v
         \<and> (vpi_handle c = vpi_handle cr \<longrightarrow> q = r)) \<Longrightarrow>
    fold_res (apply_one X) (qs @ r # rs) w = Inl (Undefined ''hdl_put_value changed while iterated'')"
proof (induction qs arbitrary: w)
  case Nil
  obtain f v where r: "put_value_flag cr = Some f" "pending_value cr = Inr v" using Nil.prems(3,7) by fastforce
  obtain fs where s: "put_value_flag cs = Some fs" using Nil.prems(2,4,7) by fastforce
  obtain X' where X': "put_react X (vpi_handle cr) v f u = deferred_op X' C g op s u" for u
    using X by (auto simp: wakes_writer_def)
  let ?u = "log_call (PutValue (vpi_handle cr) v f) (set_chdl r (cr\<lparr>put_value_flag := None\<rparr>) w)"
  have "chdls ?u s = Some cs" "s \<in> set (hdl_put_value (env ?u))" "use_hdl_put_value_bak (env ?u)"
    using Nil.prems by auto
  then obtain u' where u': "deferred_op X' C g op s ?u = Inr u'"
    "length (hdl_put_value (env u')) < length (hdl_put_value (env w))"
    using reentrant_post_shortens [OF C, of ?u s cs g op X'] op s by auto
  then have "hdl_put_value (env u') \<noteq> hdl_put_value (env w)" by auto
  then show ?case using Nil.prems(3) r u'(1)
    by (simp add: apply_one_def from_raw_Some vpi_put_value_def X')
next
  case (Cons q qs)
  obtain c f v where c: "chdls w q = Some c" "put_value_flag c = Some f" "pending_value c = Inr v"
    and n: "vpi_handle c = vpi_handle cr \<longrightarrow> q = r" using Cons.prems(7) [of q] by auto
  have "q \<noteq> r" "q \<noteq> s" using Cons.prems(1,2) by auto
  then have react: "put_react X (vpi_handle c) v f u = Inr u" for u
    using X n unfolding wakes_writer_def by force
  let ?u = "log_call (PutValue (vpi_handle c) v f) (set_chdl q (c\<lparr>put_value_flag := None\<rparr>) w)"
  have step: "apply_one X q w = Inr ?u"
    using c by (simp add: apply_one_def from_raw_Some vpi_put_value_def react)
  have "fold_res (apply_one X) (qs @ r # rs) ?u = Inl (Undefined ''hdl_put_value changed while iterated'')"
    by (rule Cons.IH) (use Cons.prems \<open>q \<noteq> r\<close> \<open>q \<noteq> s\<close> in auto)
  then show ?case using step by simp
qed

text \<open>C33. A build whose simulator re-enters flushes a queue in which a signal \<open>r\<close> comes before a signal \<open>s\<close>. If
  putting \<open>r\<close> wakes a task that posts any write to \<open>s\<close> (one that a queued force does not block, and whose
  buffer fills), the flush always ends in undefined behaviour: the post removes the stale element of \<open>s\<close>
  from the very vector the flush is iterating over.\<close>

theorem requeue_during_flush_undefined:
  assumes "reentrant_build C" "\<not> feat_inertial_put C" and "put_inv C w" "puts_ok w"
    and "hdl_put_value (env w) = qs @ r # rs" and "s \<in> set rs"
    and "chdls w r = Some cr" "chdls w s = Some cs" and "wakes_writer X C (vpi_handle cr) g op s"
    and "\<not> force_blocks cs g" and "\<And>c. ok (fill_of op c)"
  shows "apply_pending_put_values X C w = Inl (Undefined ''hdl_put_value changed while iterated'')"
proof -
  let ?w = "w\<lparr>env := (env w)\<lparr>flush_epoch := flush_epoch (env w) + 1, use_hdl_put_value_bak := True\<rparr>\<rparr>"
  have "distinct (queued w)" using assms(3) unfolding put_inv_def by blast
  then have "distinct (qs @ r # rs)" unfolding queued_def assms(5) distinct_append by blast
  moreover have "\<exists>c f v. chdls ?w q = Some c \<and> put_value_flag c = Some f \<and> pending_value c = Inr v
      \<and> (vpi_handle c = vpi_handle cr \<longrightarrow> q = r)" if "q \<in> set (qs @ r # rs)" for q
  proof -
    have "q \<in> set (queued w)" using that assms(5) by (auto simp: queued_def)
    from queued_handles [OF assms(3,4) this] obtain c f v where c: "chdls w q = Some c"
      "put_value_flag c = Some f" "pending_value c = Inr v" by blast
    moreover have "vpi_handle c \<noteq> 0" using flagged_nonnull [OF assms(3) c(1)] c(2) by simp
    ultimately show ?thesis using one_handle_per_signal [OF assms(3) c(1) assms(7)] by auto
  qed
  ultimately have "fold_res (apply_one X) (qs @ r # rs) ?w = Inl (Undefined ''hdl_put_value changed while iterated'')"
    using assms(5-8) by (intro flush_reaches_writer [OF assms(1,2,9-11)]) auto
  then have "flush_loop X ?w = Some (Inl (Undefined ''hdl_put_value changed while iterated''))"
    using assms(5) by (simp add: flush_loop.simps [of X ?w] do_apply_pending_put_values_def)
  then show ?thesis using assms(1,5) by (simp add: apply_pending_put_values_def Let_def)
qed

definition echo_sim :: externals where
  "echo_sim = recording_sim\<lparr>put_react := (\<lambda>h v f w.
     if h = 100 then deferred_op recording_sim vcs_build vpiNoDelay (OpValue64 7) 2 w else Inr w)\<rparr>"

lemma queued_next_inv:
  assumes "put_inv vcs_build w" "signal_at w r" "ok (deferred_op recording_sim vcs_build f op r w)"
  shows "put_inv vcs_build (projr (deferred_op recording_sim vcs_build f op r w))"
proof -
  obtain w' where w': "deferred_op recording_sim vcs_build f op r w = Inr w'" using assms(3) by (auto simp: ok_iff)
  have "put_inv_at vcs_build r w" using assms(1,2) by (simp add: put_inv_at_def)
  then have "put_inv_at vcs_build r w'" using w' put_frame.deferred_op quiet_recording_sim by blast
  then show ?thesis using w' by (simp add: put_inv_at_def)
qed

lemma both_queued_inv: "put_inv vcs_build both_queued"
proof -
  have s: "signal_at demo_world 1" "signal_at one_queued 2" "ok (deferred_op recording_sim vcs_build vpiNoDelay (OpValue 5) 1 demo_world)"
    "ok (deferred_op recording_sim vcs_build vpiNoDelay (OpValue64 9) 2 one_queued)"
    subgoal by (simp add: signal_at_def demo_world_def)
    subgoal
    proof -
      have "case chdls one_queued 2 of None \<Rightarrow> True | Some c \<Rightarrow> vpi_handle c \<noteq> 0" by code_simp
      then show ?thesis by (auto simp: signal_at_def)
    qed
    subgoal by code_simp
    subgoal by code_simp
    done
  have "put_inv vcs_build one_queued" unfolding one_queued_def by (rule queued_next_inv [OF demo_world_inv s(1,3)])
  then show ?thesis unfolding both_queued_def by (rule queued_next_inv [OF _ s(2,4)])
qed

lemma requeue_during_flush_undefined_witness:
  "apply_pending_put_values echo_sim vcs_build both_queued
     = Inl (Undefined ''hdl_put_value changed while iterated'')"
proof -
  have "case chdls both_queued 1 of None \<Rightarrow> False | Some c \<Rightarrow> vpi_handle c = 100" by code_simp
  then obtain cr where r: "chdls both_queued 1 = Some cr" "vpi_handle cr = 100" by (auto split: option.splits)
  have "case chdls both_queued 2 of None \<Rightarrow> False | Some c \<Rightarrow> \<not> force_blocks c vpiNoDelay" by code_simp
  then obtain cs where s: "chdls both_queued 2 = Some cs" "\<not> force_blocks cs vpiNoDelay" by (auto split: option.splits)
  have f: "reentrant_build vcs_build" "\<not> feat_inertial_put vcs_build" "puts_ok both_queued"
    "hdl_put_value (env both_queued) = [] @ 1 # [2]" by code_simp+
  have x: "wakes_writer echo_sim vcs_build (vpi_handle cr) vpiNoDelay (OpValue64 7) 2"
    unfolding wakes_writer_def r(2) by (intro exI [of _ recording_sim]) (simp add: echo_sim_def recording_sim_def)
  show ?thesis
    by (rule requeue_during_flush_undefined [OF f(1,2) both_queued_inv f(3,4) _ r(1) s(1) x s(2)])
      (simp_all add: fill_value64_def)
qed

end
