(* ===== verification/Memo.thy ===== *)
theory Memo
  imports Prelude
begin

text \<open>
  Operations that remember their results: the handle cache of \<^verbatim>\<open>handle_getters.rs\<close>, the ELF symbol
  tables and the detected simulator of \<^verbatim>\<open>utils/mod.rs\<close>. The locale states the contract, the lemmas
  inside it that answers never change.
\<close>

text \<open>A session: the results of a list of calls, and the state they leave.\<close>

fun run_all :: "('k \<Rightarrow> 's \<Rightarrow> ('v \<times> 's) res) \<Rightarrow> 'k list \<Rightarrow> 's \<Rightarrow> ('v list \<times> 's) res" where
  "run_all f [] s = Inr ([], s)"
| "run_all f (k # ks) s =
     and_then (f k s) (\<lambda>(v, s). and_then (run_all f ks s) (\<lambda>(vs, s). Inr (v # vs, s)))"

lemma run_all_Cons_Inr:
  assumes "run_all f (k # ks) s = Inr (vs, t)"
  obtains v s' ws where "f k s = Inr (v, s')" "run_all f ks s' = Inr (ws, t)" "vs = v # ws"
  using assms by (auto simp: and_then_eq_Inr)

lemma run_all_length: "run_all f ks s = Inr (vs, t) \<Longrightarrow> length vs = length ks"
proof (induction ks arbitrary: s vs)
  case (Cons k ks)
  then show ?case by (auto elim!: run_all_Cons_Inr simp del: run_all.simps)
qed simp

locale memo =
  fixes call :: "'k \<Rightarrow> 's \<Rightarrow> ('v \<times> 's) res"
    and cached :: "'k \<Rightarrow> 's \<Rightarrow> 'v option"
    and inv :: "'s \<Rightarrow> bool"
  assumes hit: "inv s \<Longrightarrow> cached k s = Some v \<Longrightarrow> call k s = Inr (v, s)"
    and miss: "inv s \<Longrightarrow> cached k s = None \<Longrightarrow> call k s = Inr (v, s') \<Longrightarrow>
      inv s' \<and> cached k s' = Some v \<and> (\<forall>j u. cached j s = Some u \<longrightarrow> cached j s' = Some u)"
begin

lemma call_Inr:
  assumes "inv s" "call k s = Inr (v, s')"
  shows "inv s'" "cached k s' = Some v" "cached j s = Some u \<Longrightarrow> cached j s' = Some u"
proof -
  have "inv s' \<and> cached k s' = Some v \<and> (\<forall>j u. cached j s = Some u \<longrightarrow> cached j s' = Some u)"
  proof (cases "cached k s")
    case None
    then show ?thesis using miss assms by blast
  next
    case (Some x)
    then have "s' = s" "v = x" using hit [OF assms(1) Some] assms(2) by simp_all
    then show ?thesis using Some assms(1) by simp
  qed
  then show "inv s'" "cached k s' = Some v" "cached j s = Some u \<Longrightarrow> cached j s' = Some u" by blast+
qed

lemma run_all_inv:
  assumes "inv s" "run_all call ks s = Inr (vs, t)"
  shows "inv t" "cached j s = Some u \<Longrightarrow> cached j t = Some u"
    "i < length ks \<Longrightarrow> cached (ks ! i) t = Some (vs ! i)"
  using assms
proof (induction ks arbitrary: s vs i j u)
  case Nil
  {
    case 1 then show ?case by simp
  next
    case 2 then show ?case by simp
  next
    case 3 then show ?case by simp
  }
next
  case (Cons k ks)
  {
    case 1
    from 1(2) show ?case by (rule run_all_Cons_Inr) (rule Cons.IH(1) [OF call_Inr(1) [OF 1(1)]])
  next
    case 2
    from 2(3) show ?case
      by (rule run_all_Cons_Inr)
        (rule Cons.IH(2) [OF call_Inr(3) [OF 2(2) _ 2(1)] call_Inr(1) [OF 2(2)]])
  next
    case 3
    from 3(3) obtain v s' ws where r: "call k s = Inr (v, s')" "run_all call ks s' = Inr (ws, t)" "vs = v # ws"
      by (rule run_all_Cons_Inr)
    have s': "inv s'" "cached k s' = Some v" using call_Inr [OF 3(2) r(1)] by blast+
    show ?case
    proof (cases i)
      case 0
      then show ?thesis using Cons.IH(2) [OF s'(2,1) r(2)] r(3) by simp
    next
      case (Suc j)
      then show ?thesis using Cons.IH(3) [OF _ s'(1) r(2), of j] 3(1) r(3) by simp
    qed
  }
qed

text \<open>Asked again after the session, every call gives the answer it gave in it, and changes nothing.\<close>

lemma repeat_call:
  assumes "inv s" "run_all call ks s = Inr (vs, t)" "i < length ks"
  shows "call (ks ! i) t = Inr (vs ! i, t)"
  using hit run_all_inv [OF assms(1,2)] assms(3) by blast

lemma repeat_session:
  assumes "inv s" "run_all call ks s = Inr (vs, t)"
  shows "inv t \<and> length vs = length ks \<and> (\<forall>i. i < length ks \<longrightarrow> call (ks ! i) t = Inr (vs ! i, t))"
  using run_all_inv(1) [OF assms] run_all_length [OF assms(2)] repeat_call [OF assms] by blast

end

end
