(* ===== verification/Handles.thy ===== *)
theory Handles
  imports State Lossy Memo
begin

text \<open>
  \<^verbatim>\<open>vpi_access/handle_getters.rs\<close> and \<^verbatim>\<open>meta_getters.rs\<close>: handles by name and by index with the handle
  cache, iteration over objects, and the metadata of handles and of the simulation.
\<close>

subsection \<open>Handles by name and by index\<close>

text \<open>\<open>into_raw\<close> and the insertion into \<open>hdl_cache\<close>, by which every \<open>ComplexHandle\<close> comes to life.\<close>

definition cache_handle :: "string \<Rightarrow> complex_handle \<Rightarrow> world \<Rightarrow> raw \<times> world" where
  "cache_handle nm c w =
     (let r = int (next_raw w) in
      (r, w\<lparr>env := (env w)\<lparr>hdl_cache := (hdl_cache (env w))(nm \<mapsto> r)\<rparr>,
            chdls := (chdls w)(r \<mapsto> c\<lparr>ch_env := True\<rparr>), next_raw := Suc (next_raw w)\<rparr>))"

text \<open>\<open>i32 as usize\<close>.\<close>

definition as_usize :: "int \<Rightarrow> nat" where
  "as_usize i = nat (i mod 2 ^ 64)"

text \<open>Both callers pass a null scope. The name is a C string, so \<open>CString::new\<close> cannot fail on it.\<close>

definition complex_handle_by_name :: "externals \<Rightarrow> string \<Rightarrow> world \<Rightarrow> (raw \<times> world) res" where
  "complex_handle_by_name X name w =
     (let name_str = to_string_lossy name in
      case hdl_cache (env w) name_str of
        Some hdl \<Rightarrow> Inr (hdl, w)
      | None \<Rightarrow>
          let h = handle_by_name X name w;
              width = (if h = 0 then 0 else vpi_get X vpiSize h w)
          in and_then (complex_handle_new h name_str (as_usize width)) (\<lambda>chdl. Inr (cache_handle name_str chdl w)))"

definition vpiml_handle_by_name_safe :: "externals \<Rightarrow> string \<Rightarrow> world \<Rightarrow> (raw \<times> world) res" where
  "vpiml_handle_by_name_safe X name w =
     and_then (complex_handle_by_name X name w) (\<lambda>(handle, w).
       and_then (from_raw handle w) (\<lambda>chdl.
         Inr (if vpi_handle chdl = 0 then - 1 else handle, w)))"

definition index_name :: "string \<Rightarrow> u32 \<Rightarrow> string" where
  "index_name nm idx = nm @ CHR ''['' # dec_string (unat idx) @ '']''"

definition vpiml_handle_by_index :: "externals \<Rightarrow> raw \<Rightarrow> u32 \<Rightarrow> world \<Rightarrow> (raw \<times> world) res" where
  "vpiml_handle_by_index X r idx w =
     and_then (from_raw r w) (\<lambda>c.
       let final_name = index_name (to_string_lossy (ch_name c)) idx in
       case hdl_cache (env w) final_name of
         Some hdl \<Rightarrow> Inr (hdl, w)
       | None \<Rightarrow>
           let h = handle_by_index X (vpi_handle c) (unat idx) w in
           if h = 0 then Inl (Panic ''No handle found'')
           else and_then (complex_handle_new h final_name (as_usize (vpi_get X vpiSize h w)))
                  (\<lambda>chdl. Inr (cache_handle final_name chdl w)))"

subsection \<open>Metadata\<close>

text \<open>
  What the getters print and return. The object model is that of the hierarchy traversal, in which an
  iterator is the list of its objects (freeing it is not modelled); a C string that is NULL or not
  UTF-8 faults.
\<close>

definition vpi_type_name :: "nat \<Rightarrow> string" where
  "vpi_type_name t =
     (if t = vpiNet then ''vpiNet'' else if t = vpiReg then ''vpiReg''
      else if t = vpiMemory then ''vpiMemory'' else ''unknown'')"

fun print_objects :: "hier_vpi \<Rightarrow> nat \<Rightarrow> vpiHandle list \<Rightarrow> string list res" where
  "print_objects V count [] = Inr []"
| "print_objects V count (hdl # hdls) =
     and_then (c_char_to_str (obj_str V vpiName hdl)) (\<lambda>nm.
     and_then (c_char_to_str (obj_str V vpiType hdl)) (\<lambda>typ.
     and_then (print_objects V (Suc count) hdls) (\<lambda>out.
       Inr ((CHR ''['' # dec_string count @ ''] name => '' @ nm @ '' type => '' @ typ) # out))))"

definition vpiml_iterate_vpi_type ::
  "externals \<Rightarrow> string \<Rightarrow> nat \<Rightarrow> world \<Rightarrow> (string list \<times> world) res" where
  "vpiml_iterate_vpi_type X name vpi_type w =
     and_then (complex_handle_by_name X name w) (\<lambda>(r, w).
     and_then (from_raw r w) (\<lambda>chdl.
       let iter = objects (objs X) vpi_type (vpi_handle chdl) in
       and_then (c_char_to_str (Some name)) (\<lambda>module_name_str.
         let start = ''[vpiml_iterate_vpi_type] start iterate on module_name => '' @ module_name_str
               @ '' type => '' @ vpi_type_name vpi_type in
         case iter of
           None \<Rightarrow> Inr ([start, ''[vpiml_iterate_vpi_type] No objects found''], w)
         | Some hdls \<Rightarrow>
             and_then (print_objects (objs X) 0 hdls) (\<lambda>out.
               Inr (start # out @ (if hdls = [] then [''[vpiml_iterate_vpi_type] No objects found''] else []), w)))))"

definition vpiml_get_signal_width :: "raw \<Rightarrow> world \<Rightarrow> nat res" where
  "vpiml_get_signal_width r w = and_then (from_raw r w) (\<lambda>c. Inr (width c))"

definition vpiml_get_hdl_type :: "externals \<Rightarrow> raw \<Rightarrow> world \<Rightarrow> c_str res" where
  "vpiml_get_hdl_type X r w = and_then (from_raw r w) (\<lambda>c. Inr (obj_str (objs X) vpiType (vpi_handle c)))"

definition vpiml_get_top_module :: "externals \<Rightarrow> world \<Rightarrow> (c_str \<times> world) res" where
  "vpiml_get_top_module X w =
     (case objects (objs X) vpiModule 0 of
        None \<Rightarrow> Inl (Panic ''No module exist...'')
      | Some [] \<Rightarrow> Inl (Panic ''Canot find top module...'')
      | Some (top_module # _) \<Rightarrow>
          let top_module_name = obj_str (objs X) vpiName top_module in
          if env_var w ''VL_DUT_TOP'' = None
          then and_then (c_char_to_str top_module_name) (\<lambda>nm. Inr (top_module_name, set_env_var ''VL_DUT_TOP'' nm w))
          else Inr (top_module_name, w))"

definition vpiml_get_time_precision :: "externals \<Rightarrow> world \<Rightarrow> int" where
  "vpiml_get_time_precision X w = vpi_get X vpiTimePrecision 0 w"

text \<open>\<open>now\<close> is what \<open>vpi_get_time\<close> stores: the high and the low word.\<close>

definition vpiml_get_sim_time :: "u32 \<times> u32 \<Rightarrow> u64" where
  "vpiml_get_sim_time now = join_time now"

subsection \<open>One handle per name\<close>

text \<open>
  The cache and the heap of handles agree: the cached names are exactly the names of the handles, so
  no two handles share one, and every handle is well formed and owned by the environment.
\<close>

definition handle_inv :: "world \<Rightarrow> bool" where
  "handle_inv w \<longleftrightarrow>
     (\<forall>nm r. hdl_cache (env w) nm = Some r \<longleftrightarrow> (\<exists>c. chdls w r = Some c \<and> ch_name c = nm))
     \<and> (\<forall>r c. chdls w r = Some c \<longrightarrow>
          handle_wf c \<and> ch_env c \<and> utf8_valid (ch_name c) \<and> r < int (next_raw w) \<and> 0 < r)
     \<and> 0 < next_raw w"

lemma handle_invD:
  assumes "handle_inv w"
  shows "hdl_cache (env w) nm = Some r \<longleftrightarrow> (\<exists>c. chdls w r = Some c \<and> ch_name c = nm)"
    and "chdls w r = Some c \<Longrightarrow>
      handle_wf c \<and> ch_env c \<and> utf8_valid (ch_name c) \<and> r < int (next_raw w) \<and> 0 < r"
    and "0 < next_raw w"
  using assms unfolding handle_inv_def by blast+

lemma handle_inv_empty: "handle_inv empty_world"
  by (simp add: handle_inv_def empty_world_def default_env_def)

lemma handle_inv_unique:
  "handle_inv w \<Longrightarrow> chdls w r = Some c \<Longrightarrow> chdls w r' = Some c' \<Longrightarrow> ch_name c = ch_name c' \<Longrightarrow> r = r'"
  using handle_invD(1) [of w "ch_name c"] by (metis option.inject)

text \<open>What a lookup may do to the world: add handles.\<close>

definition extends :: "world \<Rightarrow> world \<Rightarrow> bool" where
  "extends w w' \<longleftrightarrow> hdl_cache (env w) \<subseteq>\<^sub>m hdl_cache (env w') \<and> chdls w \<subseteq>\<^sub>m chdls w'"

lemma extends_refl [simp]: "extends w w"
  by (simp add: extends_def)

lemma extendsD:
  "extends w w' \<Longrightarrow> hdl_cache (env w) nm = Some r \<Longrightarrow> hdl_cache (env w') nm = Some r"
  "extends w w' \<Longrightarrow> chdls w p = Some c \<Longrightarrow> chdls w' p = Some c"
  by (auto simp: extends_def map_le_def dom_def)

lemma complex_handle_new_name: "complex_handle_new h nm wd = Inr c \<Longrightarrow> ch_name c = nm"
  by (auto simp: complex_handle_new_def split: if_splits)

lemma cache_handle_inv:
  assumes inv: "handle_inv w" and fresh: "hdl_cache (env w) nm = None" and nm: "utf8_valid nm"
    and c: "complex_handle_new h nm wd = Inr c" and w': "cache_handle nm c w = (r, w')"
  shows "handle_inv w' \<and> extends w w' \<and> hdl_cache (env w') nm = Some r \<and> chdls w' r = Some (c\<lparr>ch_env := True\<rparr>)"
proof -
  have r: "r = int (next_raw w)" and cache: "hdl_cache (env w') = (hdl_cache (env w))(nm \<mapsto> r)"
    and heap: "chdls w' = (chdls w)(r \<mapsto> c\<lparr>ch_env := True\<rparr>)" and nx: "next_raw w' = Suc (next_raw w)"
    using w' by (auto simp: cache_handle_def Let_def)
  have new: "chdls w r = None" using handle_invD(2) [OF inv, of r] r by (cases "chdls w r") auto
  have wf: "handle_wf c" "ch_name c = nm"
    using complex_handle_new_wf [OF c] complex_handle_new_name [OF c] by simp_all
  have other: "ch_name c' \<noteq> nm" if "chdls w p = Some c'" for p c'
    using that fresh handle_invD(1) [OF inv, of nm p] by auto
  have "hdl_cache (env w') n = Some q \<longleftrightarrow> (\<exists>c. chdls w' q = Some c \<and> ch_name c = n)" for n q
    using new wf(2) other handle_invD(1) [OF inv, of n q] handle_invD(1) [OF inv, of nm r]
    by (auto simp: cache heap)
  moreover have "handle_wf d \<and> ch_env d \<and> utf8_valid (ch_name d) \<and> q < int (next_raw w') \<and> 0 < q"
    if "chdls w' q = Some d" for q d
    using that handle_invD(2) [OF inv, of q d] handle_invD(3) [OF inv] wf nm r
    by (auto simp: heap nx handle_wf_def split: if_splits)
  ultimately have "handle_inv w'" unfolding handle_inv_def by (simp add: nx)
  moreover have "extends w w'" using fresh new by (simp add: extends_def cache heap map_le_def dom_def)
  ultimately show ?thesis by (simp add: cache heap)
qed

lemma by_name_hit: "hdl_cache (env w) (to_string_lossy name) = Some r \<Longrightarrow> complex_handle_by_name X name w = Inr (r, w)"
  by (simp add: complex_handle_by_name_def)

lemma by_name_miss:
  assumes "handle_inv w" "hdl_cache (env w) (to_string_lossy name) = None"
    and "complex_handle_by_name X name w = Inr (r, w')"
  shows "handle_inv w' \<and> extends w w' \<and> hdl_cache (env w') (to_string_lossy name) = Some r
    \<and> (\<exists>c. chdls w' r = Some c \<and> vpi_handle c = handle_by_name X name w)"
proof -
  from assms(2,3) obtain wd c where c: "complex_handle_new (handle_by_name X name w) (to_string_lossy name) wd = Inr c"
    and w': "cache_handle (to_string_lossy name) c w = (r, w')"
    by (auto simp: complex_handle_by_name_def Let_def and_then_eq_Inr)
  show ?thesis
    using cache_handle_inv [OF assms(1,2) utf8_valid_lossy c w'] complex_handle_new_wf [OF c] by auto
qed

lemma utf8_index_name: "utf8_valid nm \<Longrightarrow> utf8_valid (index_name nm i)"
proof -
  assume "utf8_valid nm"
  have "list_all (\<lambda>c. (48::nat) \<le> of_char c \<and> of_char c < (58::nat)) (dec_string (unat i))"
    using dec_string_value by blast
  then have "utf8_valid (dec_string (unat i))" by (intro utf8_valid_ascii) (auto simp: list_all_iff)
  moreover have "utf8_valid '']''" by (simp add: utf8_valid_ascii)
  ultimately have "utf8_valid (dec_string (unat i) @ '']'')" by (rule utf8_valid_append)
  then show ?thesis using \<open>utf8_valid nm\<close> by (simp add: index_name_def utf8_valid_append utf8_valid_Cons)
qed

text \<open>The lookups of the exported interface, their results, and what the cache answers.\<close>

datatype lookup = By_name string | By_name_safe string | By_index raw u32

fun run_lookup :: "externals \<Rightarrow> lookup \<Rightarrow> world \<Rightarrow> (raw \<times> world) res" where
  "run_lookup X (By_name n) = complex_handle_by_name X n"
| "run_lookup X (By_name_safe n) = vpiml_handle_by_name_safe X n"
| "run_lookup X (By_index p i) = vpiml_handle_by_index X p i"

fun cached_lookup :: "lookup \<Rightarrow> world \<Rightarrow> raw option" where
  "cached_lookup (By_name n) w = hdl_cache (env w) (to_string_lossy n)"
| "cached_lookup (By_name_safe n) w =
     (case hdl_cache (env w) (to_string_lossy n) of
        None \<Rightarrow> None
      | Some r \<Rightarrow> map_option (\<lambda>c. if vpi_handle c = 0 then - 1 else r) (chdls w r))"
| "cached_lookup (By_index p i) w =
     (case chdls w p of None \<Rightarrow> None | Some c \<Rightarrow> hdl_cache (env w) (index_name (to_string_lossy (ch_name c)) i))"

lemma cached_lookup_extends:
  assumes "extends w w'" "cached_lookup k w = Some v"
  shows "cached_lookup k w' = Some v"
proof (cases k)
  case (By_name n)
  then show ?thesis using assms by (simp add: extendsD)
next
  case (By_name_safe n)
  then show ?thesis using assms extendsD [OF assms(1)] by (auto split: option.splits)
next
  case (By_index p i)
  then show ?thesis using assms extendsD [OF assms(1)] by (auto split: option.splits)
qed

lemma lookup_hit: "handle_inv w \<Longrightarrow> cached_lookup k w = Some v \<Longrightarrow> run_lookup X k w = Inr (v, w)"
  by (cases k)
    (auto simp: by_name_hit vpiml_handle_by_name_safe_def vpiml_handle_by_index_def and_then_eq_Inr Let_def
      from_raw_Some split: option.splits)

lemma lookup_miss:
  assumes "handle_inv w" "cached_lookup k w = None" "run_lookup X k w = Inr (v, w')"
  shows "handle_inv w' \<and> extends w w' \<and> cached_lookup k w' = Some v"
proof (cases k)
  case (By_name n)
  then show ?thesis using assms by_name_miss [OF assms(1)] by simp
next
  case (By_name_safe n)
  from assms(3) obtain r c where r: "complex_handle_by_name X n w = Inr (r, w')" "chdls w' r = Some c"
      and v: "v = (if vpi_handle c = 0 then - 1 else r)"
    unfolding By_name_safe by (auto simp: vpiml_handle_by_name_safe_def and_then_eq_Inr)
  show ?thesis
  proof (cases "hdl_cache (env w) (to_string_lossy n)")
    case None
    then show ?thesis using by_name_miss [OF assms(1) None r(1)] r v by (simp add: By_name_safe)
  next
    case (Some q)
    then have "q = r" "w' = w" using r(1) by_name_hit [OF Some] by simp_all
    then show ?thesis using assms(2) Some r(2) by (simp add: By_name_safe)
  qed
next
  case (By_index p i)
  from assms(3) obtain c where c: "chdls w p = Some c" by (auto simp: By_index vpiml_handle_by_index_def and_then_eq_Inr)
  let ?n = "index_name (to_string_lossy (ch_name c)) i"
  have fresh: "hdl_cache (env w) ?n = None" using assms(2) c by (simp add: By_index)
  obtain h wd d where d: "complex_handle_new h ?n wd = Inr d" "cache_handle ?n d w = (v, w')"
    using assms(3) c fresh
    by (auto simp: By_index vpiml_handle_by_index_def and_then_eq_Inr Let_def split: if_splits)
  have "utf8_valid ?n" by (simp add: utf8_index_name utf8_valid_lossy)
  from cache_handle_inv [OF assms(1) fresh this d] have
    "handle_inv w' \<and> extends w w' \<and> hdl_cache (env w') ?n = Some v" by blast
  then show ?thesis using c extendsD(2) [of w w' p c] by (simp add: By_index)
qed

interpretation hc: memo "run_lookup X" cached_lookup handle_inv
proof
  show "run_lookup X k w = Inr (v, w)" if "handle_inv w" "cached_lookup k w = Some v" for k w v
    using that by (rule lookup_hit)
  show "handle_inv w' \<and> cached_lookup k w' = Some v
      \<and> (\<forall>j u. cached_lookup j w = Some u \<longrightarrow> cached_lookup j w' = Some u)"
    if "handle_inv w" "cached_lookup k w = None" "run_lookup X k w = Inr (v, w')" for k w v w'
    using lookup_miss [OF that] cached_lookup_extends by blast
qed

text \<open>C35. There is one \<open>ComplexHandle\<close> per name, and lookups are stable: after any sequence of lookups, by
  name or by index, failed or not, every one of them repeated gives the same handle, without a call to
  the simulator and without changing anything.\<close>

theorem one_handle_per_name:
  assumes "handle_inv w" "run_all (run_lookup X) ks w = Inr (rs, w')"
  shows "handle_inv w' \<and> length rs = length ks
    \<and> (\<forall>i. i < length ks \<longrightarrow> run_lookup X (ks ! i) w' = Inr (rs ! i, w'))
    \<and> (\<forall>r r' c c'. chdls w' r = Some c \<and> chdls w' r' = Some c' \<and> ch_name c = ch_name c' \<longrightarrow> r = r')"
  using hc.repeat_session [OF assms] handle_inv_unique [of w'] by blast

text \<open>A simulator that knows every name but \<open>a[3]\<close>, as an element of \<open>a\<close>.\<close>

definition indexing_sim :: externals where
  "indexing_sim = recording_sim\<lparr>handle_by_name := (\<lambda>n w. if n = ''a[3]'' then 0 else length n)\<rparr>"

definition demo_lookups :: "lookup list" where
  "demo_lookups = [By_name ''a'', By_name_safe ''a[3]'', By_index 1 3, By_index 1 4, By_name_safe ''a'']"

lemma demo_lookups_run:
  "\<exists>w. run_all (run_lookup indexing_sim) demo_lookups empty_world = Inr ([1, - 1, 2, 3, 1], w)"
proof -
  have "case run_all (run_lookup indexing_sim) demo_lookups empty_world of
      Inr (rs, w) \<Rightarrow> rs = [1, - 1, 2, 3, 1] | Inl e \<Rightarrow> False" by code_simp
  then show ?thesis by (auto split: sum.splits)
qed

theorem one_handle_per_name_witness:
  "\<exists>w. run_all (run_lookup indexing_sim) demo_lookups empty_world = Inr ([1, - 1, 2, 3, 1], w)
     \<and> run_lookup indexing_sim (By_index 1 4) w = Inr (3, w)"
proof -
  obtain w where w: "run_all (run_lookup indexing_sim) demo_lookups empty_world = Inr ([1, - 1, 2, 3, 1], w)"
    using demo_lookups_run by blast
  have "run_lookup indexing_sim (demo_lookups ! 3) w = Inr ([1, - 1, 2, 3, 1] ! 3, w)"
  proof -
    have "3 < length demo_lookups" by (simp add: demo_lookups_def)
    then show ?thesis using one_handle_per_name [OF handle_inv_empty w] by blast
  qed
  then show ?thesis using w by (simp add: demo_lookups_def)
qed

text \<open>A failed lookup by name defeats the check of the lookup by index: once \<open>a[i]\<close> was looked up by name in
  vain, \<open>vpiml_handle_by_index\<close> returns the cached handle with a null \<open>vpiHandle\<close>, where it otherwise
  asks the simulator for the element and stops the program when there is none.\<close>

theorem failed_name_defeats_index_check:
  assumes "handle_inv w" "chdls w p = Some c" "hdl_cache (env w) (index_name (ch_name c) i) = None"
    and "handle_by_name X (index_name (ch_name c) i) w = 0"
  shows "\<exists>r w' c'. vpiml_handle_by_name_safe X (index_name (ch_name c) i) w = Inr (- 1, w')
    \<and> vpiml_handle_by_index X p i w' = Inr (r, w') \<and> chdls w' r = Some c' \<and> vpi_handle c' = 0
    \<and> (handle_by_index X (vpi_handle c) (unat i) w = 0 \<longrightarrow> \<not> ok (vpiml_handle_by_index X p i w))"
proof -
  let ?n = "index_name (ch_name c) i"
  have nm: "to_string_lossy (ch_name c) = ch_name c" "to_string_lossy ?n = ?n"
    using handle_invD(2) [OF assms(1,2)] by (simp_all add: utf8_index_name)
  have "ok (complex_handle_new 0 ?n 0)" by (simp add: complex_handle_new_ok)
  then obtain d where d: "complex_handle_new 0 ?n 0 = Inr d" by (auto simp: ok_iff)
  obtain r w' where w': "cache_handle ?n d w = (r, w')" by (cases "cache_handle ?n d w") blast
  have by_name: "complex_handle_by_name X ?n w = Inr (r, w')"
    using assms(3,4) d w' nm(2) by (simp add: complex_handle_by_name_def as_usize_def Let_def)
  from by_name_miss [OF assms(1) _ by_name] assms(3,4) nm(2) obtain c' where
    c': "extends w w'" "hdl_cache (env w') ?n = Some r" "chdls w' r = Some c'" "vpi_handle c' = 0" by auto
  have "vpiml_handle_by_name_safe X ?n w = Inr (- 1, w')"
    using by_name c' by (simp add: vpiml_handle_by_name_safe_def from_raw_Some)
  moreover have "vpiml_handle_by_index X p i w' = Inr (r, w')"
    using c' assms(2) nm extendsD(2) by (fastforce simp: vpiml_handle_by_index_def from_raw_Some Let_def)
  moreover have "\<not> ok (vpiml_handle_by_index X p i w)" if "handle_by_index X (vpi_handle c) (unat i) w = 0"
    using that assms(2,3) nm by (simp add: vpiml_handle_by_index_def from_raw_Some Let_def)
  ultimately show ?thesis using c'(3,4)
    by (intro exI [of _ r] exI [of _ w'] exI [of _ c'] conjI impI) simp_all
qed

theorem failed_name_defeats_index_check_witness:
  "\<exists>w r w' c. complex_handle_by_name indexing_sim ''a'' empty_world = Inr (1, w)
     \<and> vpiml_handle_by_name_safe indexing_sim ''a[3]'' w = Inr (- 1, w')
     \<and> vpiml_handle_by_index indexing_sim 1 3 w' = Inr (r, w') \<and> chdls w' r = Some c \<and> vpi_handle c = 0"
proof -
  have "case complex_handle_by_name indexing_sim ''a'' empty_world of Inl e \<Rightarrow> False
      | Inr (r, w) \<Rightarrow> r = 1 \<and> map_option ch_name (chdls w 1) = Some ''a'' \<and> hdl_cache (env w) ''a[3]'' = None
          \<and> handle_by_name indexing_sim ''a[3]'' w = 0" by code_simp
  then obtain w c where w: "complex_handle_by_name indexing_sim ''a'' empty_world = Inr (1, w)"
    and c: "chdls w 1 = Some c" "ch_name c = ''a''" "hdl_cache (env w) ''a[3]'' = None"
      "handle_by_name indexing_sim ''a[3]'' w = 0" by (auto split: sum.splits)
  have "hdl_cache (env empty_world) (to_string_lossy ''a'') = None" by (simp add: empty_world_def default_env_def)
  from by_name_miss [OF handle_inv_empty this w] have inv: "handle_inv w" by blast
  have "index_name ''a'' 3 = ''a[3]''" by code_simp
  with failed_name_defeats_index_check [OF inv c(1), of 3 indexing_sim] c w show ?thesis by auto
qed

end
