(* ===== verification/Lifecycle.thy ===== *)
theory Lifecycle
  imports WriteApi Handles
begin

text \<open>
  Start-up and shut-down of the library: \<^verbatim>\<open>initialize\<close>, \<^verbatim>\<open>finalize\<close>, the Lua calls and the exported
  step functions of \<^verbatim>\<open>verilua_env.rs\<close>, the bootstrap callbacks of \<^verbatim>\<open>vpi_callback.rs\<close> and the
  start-up routines of \<^verbatim>\<open>lib.rs\<close>. The lemmas show that initialisation, the final Lua callback and
  the three bootstrap registrations each happen at most once, whatever the order of the calls.
\<close>

subsection \<open>Calls into Lua\<close>

text \<open>
  The result of a \<open>lua_pcall\<close>: an error message if it failed, and the world it left. Looking the
  function up in the registry and the time statistics are not modelled.
\<close>

definition call_lua_tasks :: "externals \<Rightarrow> lua_fn \<Rightarrow> task_id list \<Rightarrow> world \<Rightarrow> string option \<times> world" where
  "call_lua_tasks X fn ts w = lua_pcall X fn ts (log_call (LuaCall fn ts) w)"

definition call_sim_event :: "externals \<Rightarrow> task_id \<Rightarrow> world \<Rightarrow> string option \<times> world" where
  "call_sim_event X t = call_lua_tasks X Sim_event [t]"

definition call_sim_event_chunk :: "externals \<Rightarrow> nat \<Rightarrow> task_id list \<Rightarrow> world \<Rightarrow> string option \<times> world" where
  "call_sim_event_chunk X n ts = call_lua_tasks X (Sim_event_chunk n) ts"

definition finalize :: "externals \<Rightarrow> world \<Rightarrow> world res" where
  "finalize X w =
     (if \<not> initialized (env w) then Inr w
      else if finalized (env w) then Inr w
      else if \<not> lua_global X ''finish_callback'' w then Inl (Panic ''finish_callback'')
      else (case lua_finish X (log_call LuaFinish (w\<lparr>env := (env w)\<lparr>finalized := True\<rparr>\<rparr>)) of
              (Some err, _) \<Rightarrow> Inl (Panic err)
            | (None, w') \<Rightarrow> Inr w'))"

text \<open>\<open>if let Err(e) = ... { env.finalize(); panic!(e) }\<close>, the error path of every callback.\<close>

definition or_abort :: "externals \<Rightarrow> string option \<times> world \<Rightarrow> world res" where
  "or_abort X p =
     (case p of
        (None, w) \<Rightarrow> Inr w
      | (Some e, w) \<Rightarrow> and_then (finalize X w) (\<lambda>_. Inl (Panic e)))"

subsection \<open>Bootstrap callbacks\<close>

definition bootstrap_register_start_callback :: "externals \<Rightarrow> world \<Rightarrow> world" where
  "bootstrap_register_start_callback X w =
     (if has_start_cb (env w) then w
      else register_and_free X (cb_data cbStartOfSimulation start_callback 0 0)
             (w\<lparr>env := (env w)\<lparr>has_start_cb := True\<rparr>\<rparr>))"

definition do_register_final_callback :: "externals \<Rightarrow> world \<Rightarrow> world" where
  "do_register_final_callback X w =
     (if has_final_cb (env w) then w
      else register_and_free X (cb_data cbEndOfSimulation final_callback 0 0)
             (w\<lparr>env := (env w)\<lparr>has_final_cb := True\<rparr>\<rparr>))"

definition libverilua_do_register_next_sim_time_cb :: "externals \<Rightarrow> world \<Rightarrow> world" where
  "libverilua_do_register_next_sim_time_cb X w =
     register_and_free X (cb_data cbNextSimTime libverilua_next_sim_time_cb 0 0) w"

definition bootstrap_register_next_sim_time_callback :: "externals \<Rightarrow> features \<Rightarrow> world \<Rightarrow> world" where
  "bootstrap_register_next_sim_time_callback X C w =
     (if has_next_sim_time_cb (env w) then w
      else
        let w1 = w\<lparr>env := (env w)\<lparr>has_next_sim_time_cb := True\<rparr>\<rparr>
        in if \<not> feat_inner_step C then libverilua_do_register_next_sim_time_cb X w1 else w1)"

definition vlog_startup_routines_bootstrap :: "externals \<Rightarrow> world \<Rightarrow> world" where
  "vlog_startup_routines_bootstrap X w =
     do_register_final_callback X (bootstrap_register_start_callback X w)"

subsection \<open>Initialisation\<close>

definition env_flag_set :: "string option \<Rightarrow> bool" where
  "env_flag_set v \<longleftrightarrow> (case v of None \<Rightarrow> False | Some s \<Rightarrow> s = ''1'' \<or> s = ''true'')"

definition lua_or_panic :: "externals \<Rightarrow> lua_fn \<Rightarrow> world \<Rightarrow> world res" where
  "lua_or_panic X fn w =
     (case call_lua_tasks X fn [] w of (Some e, _) \<Rightarrow> Inl (Panic e) | (None, w') \<Rightarrow> Inr w')"

definition run_post_init :: "externals \<Rightarrow> world \<Rightarrow> world res" where
  "run_post_init X w =
     (case env_var w ''VL_POST_INIT_SCRIPT'' of
        None \<Rightarrow> Inr w
      | Some post_init \<Rightarrow>
          (if post_init = [] then Inl (Panic ''VL_POST_INIT_SCRIPT is set but empty'')
           else if is_file X post_init then lua_or_panic X (Dofile post_init) w
           else lua_or_panic X (Load_source post_init) w))"

definition expect_var :: "string \<Rightarrow> world \<Rightarrow> string res" where
  "expect_var n w = (case env_var w n of None \<Rightarrow> Inl (Panic n) | Some v \<Rightarrow> Inr v)"

text \<open>The switches read from the environment, and the global that makes the environment visible to Lua.\<close>

definition read_switches :: "features \<Rightarrow> world \<Rightarrow> world" where
  "read_switches C w =
     (let e = env w;
          e = (if feat_iverilog C then
                 e\<lparr>resolve_x_as_zero := (env_var w ''VL_RESOLVE_X_AS_ZERO'' = None
                      \<or> env_flag_set (env_var w ''VL_RESOLVE_X_AS_ZERO''))\<rparr>
               else e)
      in log_call (SetGlobal ''GLOBAL_VERILUA_ENV'')
           (w\<lparr>env := e\<lparr>acc_lua_time := env_flag_set (env_var w ''VL_ACC_LUA_TIME'')\<rparr>\<rparr>))"

definition ensure_dut_top :: "externals \<Rightarrow> world \<Rightarrow> world res" where
  "ensure_dut_top X w =
     (if env_var w ''VL_DUT_TOP'' = None then
        and_then (vpiml_get_top_module X w) (\<lambda>(p, w).
        and_then (c_char_to_str p) (\<lambda>dut_top. Inr (set_env_var ''VL_DUT_TOP'' dut_top w)))
      else Inr w)"

text \<open>\<open>pin_global_fn\<close>, and the lookups of the step functions: a global that is missing panics.\<close>

definition pin_global_fn :: "externals \<Rightarrow> string \<Rightarrow> world \<Rightarrow> world res" where
  "pin_global_fn X n w =
     (if lua_global X n w then Inr (w\<lparr>env := (env w)\<lparr>lua_pinned := n # lua_pinned (env w)\<rparr>\<rparr>)
      else Inl (Panic n))"

definition SIM_EVENT_CHUNK_MAX :: nat where "SIM_EVENT_CHUNK_MAX = 16"

definition pinned_fns :: "features \<Rightarrow> string list" where
  "pinned_fns C =
     [''sim_event'', ''lua_main_step'', ''lua_posedge_step'', ''lua_negedge_step'']
     @ (if feat_chunk_task C
        then map (\<lambda>i. ''sim_event_chunk_'' @ dec_string i) [1..<Suc SIM_EVENT_CHUNK_MAX] else [])"

text \<open>\<open>VeriluaEnv::initialize\<close>; the registrations come before anything that runs Lua.\<close>

definition boot :: "externals \<Rightarrow> features \<Rightarrow> world \<Rightarrow> world" where
  "boot X C w =
     bootstrap_register_next_sim_time_callback X C
       (do_register_final_callback X (w\<lparr>env := (env w)\<lparr>initialized := True\<rparr>\<rparr>))"

definition initialize :: "externals \<Rightarrow> features \<Rightarrow> world \<Rightarrow> world res" where
  "initialize X C w =
     (if feat_inner_step C \<and> \<not> feat_verilator C then Inl (Panic ''requires verilator'')
      else if initialized (env w) then Inr w
      else
        let w2 = boot X C w
        in and_then (expect_var ''VERILUA_HOME'' w2) (\<lambda>verilua_home.
           and_then (lua_or_panic X (Dofile (verilua_home @ ''/src/lua/verilua/init.lua'')) (read_switches C w2)) (\<lambda>w3.
           and_then (ensure_dut_top X w3) (\<lambda>w4.
           and_then (run_post_init X w4) (\<lambda>w5.
           and_then (expect_var ''VL_LUA_SCRIPT'' w5) (\<lambda>lua_script.
           and_then (lua_or_panic X (Dofile lua_script) w5) (\<lambda>w6.
           if \<not> lua_global X ''verilua_init'' w6 then Inl (Panic ''Failed to load verilua_init'')
           else and_then (lua_or_panic X Verilua_init w6) (fold_res (pin_global_fn X) (pinned_fns C)))))))))"

text \<open>
  The global \<open>VERILUA_ENV\<close>: \<open>None\<close> before its first use. \<open>get_verilua_env\<close> creates and initialises
  it, \<open>get_verilua_env_no_init\<close> only creates it.
\<close>

definition get_verilua_env :: "externals \<Rightarrow> features \<Rightarrow> world option \<Rightarrow> world res" where
  "get_verilua_env X C g = (case g of Some w \<Rightarrow> Inr w | None \<Rightarrow> initialize X C (start_world X))"

definition get_verilua_env_no_init :: "externals \<Rightarrow> world option \<Rightarrow> world" where
  "get_verilua_env_no_init X g = (case g of Some w \<Rightarrow> w | None \<Rightarrow> start_world X)"

definition verilua_init :: "externals \<Rightarrow> features \<Rightarrow> world option \<Rightarrow> world res" where
  "verilua_init X C g = and_then (get_verilua_env X C g) (initialize X C)"

definition verilua_final :: "externals \<Rightarrow> features \<Rightarrow> world option \<Rightarrow> world res" where
  "verilua_final X C g = and_then (get_verilua_env X C g) (finalize X)"

definition run_start_callback :: "externals \<Rightarrow> features \<Rightarrow> world option \<Rightarrow> world res" where
  "run_start_callback X C g =
     and_then (verilua_init X C g) (\<lambda>w. Inr (bootstrap_register_next_sim_time_callback X C w))"

definition run_final_callback :: "externals \<Rightarrow> world \<Rightarrow> world res" where
  "run_final_callback X w = finalize X w"

definition automatically_finalize_verilua_env ::
  "externals \<Rightarrow> bool \<Rightarrow> world option \<Rightarrow> world option res" where
  "automatically_finalize_verilua_env X nosim_build g =
     (if nosim_build then Inr g
      else (case g of
              None \<Rightarrow> Inr None
            | Some w \<Rightarrow>
                (if initialized (env w) \<and> \<not> finalized (env w)
                 then and_then (finalize X w) (\<lambda>w'. Inr (Some w')) else Inr (Some w))))"

subsection \<open>Step functions\<close>

text \<open>The \<open>Option\<close> field a step unwraps unchecked, by the name of its function.\<close>

fun step_name :: "lua_fn \<Rightarrow> string" where
  "step_name Lua_main_step = ''lua_main_step''"
| "step_name Lua_posedge_step = ''lua_posedge_step''"
| "step_name Lua_negedge_step = ''lua_negedge_step''"
| "step_name _ = []"

text \<open>\<open>verilua_main_step\<close>, \<open>verilua_posedge_step\<close>, \<open>verilua_negedge_step\<close>: the Lua function is an argument.\<close>

definition verilua_step :: "externals \<Rightarrow> features \<Rightarrow> lua_fn \<Rightarrow> world option \<Rightarrow> world res" where
  "verilua_step X C fn g =
     and_then (get_verilua_env X C g) (\<lambda>w.
       if \<not> initialized (env w) then Inl (Panic ''called before verilua_init()'')
       else if step_name fn \<notin> set (lua_pinned (env w)) then Inl (Undefined ''unwrap_unchecked'')
       else (case call_lua_tasks X fn [] w of
               (Some e, _) \<Rightarrow> Inl (Panic e)
             | (None, w1) \<Rightarrow> apply_pending_put_values X C w1))"

text \<open>The \<open>_safe\<close> variants, with their thread-local \<open>HAS_ERROR\<close>.\<close>

definition verilua_step_safe ::
  "externals \<Rightarrow> features \<Rightarrow> lua_fn \<Rightarrow> bool \<Rightarrow> world option \<Rightarrow> (bool \<times> world) res" where
  "verilua_step_safe X C fn has_error g =
     and_then (get_verilua_env X C g) (\<lambda>w.
       if has_error then and_then (finalize X w) (\<lambda>w'. Inr (True, w'))
       else if \<not> initialized (env w) then Inl (Panic ''called before verilua_init()'')
       else if step_name fn \<notin> set (lua_pinned (env w)) then Inl (Undefined ''unwrap_unchecked'')
       else (case call_lua_tasks X fn [] w of
               (e, w1) \<Rightarrow> and_then (apply_pending_put_values X C w1) (\<lambda>w2. Inr (e \<noteq> None, w2))))"

subsection \<open>Everything happens once\<close>

definition occurs :: "(vpi_call \<Rightarrow> bool) \<Rightarrow> world \<Rightarrow> nat" where
  "occurs P w = length (filter P (vpi_log w))"

lemma occurs_log [simp]: "occurs P (log_call c w) = occurs P w + (if P c then 1 else 0)"
  by (simp add: occurs_def)

lemma occurs_env [simp]: "occurs P (w\<lparr>env := e\<rparr>) = occurs P w"
  by (simp add: occurs_def)

definition registers :: "cb_rtn \<Rightarrow> vpi_call \<Rightarrow> bool" where
  "registers c l = (case l of RegisterCb d h \<Rightarrow> rtn d = c | _ \<Rightarrow> False)"

definition lifecycle_calls :: "world \<Rightarrow> nat \<times> nat \<times> nat \<times> nat \<times> nat" where
  "lifecycle_calls w =
     (occurs (registers start_callback) w, occurs (registers final_callback) w,
      occurs (registers libverilua_next_sim_time_cb) w,
      occurs (\<lambda>l. l = LuaFinish) w, occurs (\<lambda>l. l = LuaCall Verilua_init []) w)"

definition lifecycle_flags :: "world \<Rightarrow> bool \<times> bool \<times> bool \<times> bool \<times> bool \<times> string list" where
  "lifecycle_flags w =
     (has_start_cb (env w), has_final_cb (env w), has_next_sim_time_cb (env w), finalized (env w), initialized (env w), lua_pinned (env w))"

text \<open>
  Lua scripts and the callbacks a simulator runs inside a put use the signal interface; they neither
  call the exported lifecycle functions nor run the callbacks that start a time slot.
\<close>

definition no_lifecycle :: "externals \<Rightarrow> bool" where
  "no_lifecycle X \<longleftrightarrow>
     (\<forall>fn ts w. lifecycle_calls (snd (lua_pcall X fn ts w)) = lifecycle_calls w
              \<and> lifecycle_flags (snd (lua_pcall X fn ts w)) = lifecycle_flags w)
     \<and> (\<forall>w. lifecycle_calls (snd (lua_finish X w)) = lifecycle_calls w
              \<and> lifecycle_flags (snd (lua_finish X w)) = lifecycle_flags w)
     \<and> (\<forall>h v f w w'. put_react X h v f w = Inr w' \<longrightarrow>
              lifecycle_calls w' = lifecycle_calls w \<and> lifecycle_flags w' = lifecycle_flags w)"

definition once :: "world \<Rightarrow> bool" where
  "once w \<longleftrightarrow>
     occurs (registers start_callback) w = of_bool (has_start_cb (env w))
     \<and> occurs (registers final_callback) w = of_bool (has_final_cb (env w))
     \<and> occurs (registers libverilua_next_sim_time_cb) w \<le> of_bool (has_next_sim_time_cb (env w))
     \<and> occurs (\<lambda>l. l = LuaFinish) w = of_bool (finalized (env w))
     \<and> occurs (\<lambda>l. l = LuaCall Verilua_init []) w \<le> of_bool (initialized (env w))
     \<and> (finalized (env w) \<longrightarrow> initialized (env w))"

lemma once_cong:
  "lifecycle_calls w' = lifecycle_calls w \<Longrightarrow> lifecycle_flags w' = lifecycle_flags w \<Longrightarrow>
   once w' = once w"
  by (simp add: once_def lifecycle_calls_def lifecycle_flags_def)

lemma once_start [simp]: "once (start_world X)"
  by (simp add: once_def occurs_def start_world_def empty_world_def default_env_def)

lemma registers_simps [simp]:
  "registers c (PutValue h v f) = False" "registers c (RegisterCb d k) = (rtn d = c)"
  "registers c (RemoveCb k) = False" "registers c (FreeObject k) = False"
  "registers c (LuaCall fn ts) = False" "registers c LuaFinish = False" "registers c (SetGlobal n) = False"
  by (simp_all add: registers_def)

lemma once_lua:
  assumes "no_lifecycle X" and "call_lua_tasks X fn ts w = (e, w')" and "fn \<noteq> Verilua_init"
  shows "once w' = once w" and "initialized (env w') = initialized (env w)"
    and "occurs (\<lambda>l. l = LuaCall Verilua_init []) w' = occurs (\<lambda>l. l = LuaCall Verilua_init []) w"
proof -
  let ?w = "log_call (LuaCall fn ts) w"
  have w': "w' = snd (lua_pcall X fn ts ?w)" using assms(2) by (simp add: call_lua_tasks_def)
  have "lifecycle_calls w' = lifecycle_calls ?w" "lifecycle_flags w' = lifecycle_flags ?w"
    using assms(1) unfolding no_lifecycle_def w' by blast+
  moreover have "lifecycle_calls ?w = lifecycle_calls w" "lifecycle_flags ?w = lifecycle_flags w"
    using assms(3) by (simp_all add: lifecycle_calls_def lifecycle_flags_def)
  ultimately have eq: "lifecycle_calls w' = lifecycle_calls w" "lifecycle_flags w' = lifecycle_flags w"
    by simp_all
  show "once w' = once w" using eq by (rule once_cong)
  show "initialized (env w') = initialized (env w)"
    "occurs (\<lambda>l. l = LuaCall Verilua_init []) w' = occurs (\<lambda>l. l = LuaCall Verilua_init []) w"
    using eq by (simp_all add: lifecycle_calls_def lifecycle_flags_def)
qed

lemma once_verilua_init:
  assumes X: "no_lifecycle X" and "once w" and "initialized (env w)"
    and "occurs (\<lambda>l. l = LuaCall Verilua_init []) w = 0"
    and "call_lua_tasks X Verilua_init [] w = (e, w')"
  shows "once w'"
proof -
  let ?w = "log_call (LuaCall Verilua_init []) w"
  have w': "w' = snd (lua_pcall X Verilua_init [] ?w)" using assms(5) by (simp add: call_lua_tasks_def)
  have "once w' = once ?w"
    using X unfolding no_lifecycle_def w' by (intro once_cong) blast+
  then show ?thesis using assms(2-4) by (simp add: once_def)
qed

definition step_fns :: "string list" where
  "step_fns = [''lua_main_step'', ''lua_posedge_step'', ''lua_negedge_step'']"

text \<open>An initialised environment is ready for steps.\<close>

definition ready :: "world \<Rightarrow> bool" where
  "ready w \<longleftrightarrow> (initialized (env w) \<longrightarrow> set step_fns \<subseteq> set (lua_pinned (env w)))"

lemma ready_cong: "lifecycle_flags w' = lifecycle_flags w \<Longrightarrow> ready w' = ready w"
  by (simp add: ready_def lifecycle_flags_def)

lemma step_fns_pinned: "set step_fns \<subseteq> set (pinned_fns C)"
  by (simp add: step_fns_def pinned_fns_def)

definition settled :: "world \<Rightarrow> bool" where
  "settled w \<longleftrightarrow> once w \<and> ready w"

lemma settled_cong:
  "lifecycle_calls w' = lifecycle_calls w \<Longrightarrow> lifecycle_flags w' = lifecycle_flags w \<Longrightarrow> settled w' = settled w"
  using once_cong ready_cong unfolding settled_def by blast

lemma settled_start [simp]: "settled (start_world X)"
  by (simp add: settled_def ready_def) (simp add: start_world_def empty_world_def default_env_def)

lemma settled_finalize:
  assumes X: "no_lifecycle X" and "settled w" and w': "finalize X w = Inr w'"
  shows "settled w'"
proof (cases "initialized (env w) \<and> \<not> finalized (env w)")
  case True
  let ?w = "log_call LuaFinish (w\<lparr>env := (env w)\<lparr>finalized := True\<rparr>\<rparr>)"
  have "w' = snd (lua_finish X ?w)"
    using w' True by (auto simp: finalize_def split: prod.splits option.splits if_splits)
  then have "settled w' = settled ?w"
    using X unfolding no_lifecycle_def by (intro settled_cong) blast+
  then show ?thesis using assms(2) True by (simp add: settled_def once_def ready_def)
next
  case False
  then have "w' = w" using w' by (cases "initialized (env w)") (simp_all add: finalize_def)
  then show ?thesis using assms(2) by simp
qed

lemma bootstrap_env:
  "env (bootstrap_register_start_callback X w) = (env w)\<lparr>has_start_cb := True\<rparr>"
  "env (do_register_final_callback X w) = (env w)\<lparr>has_final_cb := True\<rparr>"
  "env (bootstrap_register_next_sim_time_callback X C w) = (env w)\<lparr>has_next_sim_time_cb := True\<rparr>"
  by (simp_all add: bootstrap_register_start_callback_def do_register_final_callback_def
      bootstrap_register_next_sim_time_callback_def libverilua_do_register_next_sim_time_cb_def
      register_and_free_eq Let_def)

lemma once_bootstrap:
  "once w \<Longrightarrow> once (bootstrap_register_start_callback X w)"
  "once w \<Longrightarrow> once (do_register_final_callback X w)"
  "once w \<Longrightarrow> once (bootstrap_register_next_sim_time_callback X C w)"
  by (cases "has_next_sim_time_cb (env w)"; auto simp: once_def bootstrap_register_start_callback_def
      do_register_final_callback_def bootstrap_register_next_sim_time_callback_def
      libverilua_do_register_next_sim_time_cb_def register_and_free_eq Let_def)+

lemma settled_bootstrap:
  assumes "settled w"
  shows "settled (bootstrap_register_start_callback X w)" "settled (do_register_final_callback X w)"
    "settled (bootstrap_register_next_sim_time_callback X C w)"
  using assms once_bootstrap unfolding settled_def ready_def bootstrap_env by simp_all

text \<open>What initialisation has established by the time it runs Lua.\<close>

definition booting :: "world \<Rightarrow> bool" where
  "booting w \<longleftrightarrow> once w \<and> initialized (env w) \<and> occurs (\<lambda>l. l = LuaCall Verilua_init []) w = 0"

lemma booting_lua:
  assumes "no_lifecycle X" and "booting w" and "lua_or_panic X fn w = Inr w'" and "fn \<noteq> Verilua_init"
  shows "booting w'"
  using assms once_lua [OF assms(1) _ assms(4)]
  by (auto simp: lua_or_panic_def booting_def split: prod.splits option.splits)

lemma booting_post_init:
  assumes "no_lifecycle X" and "booting w" and "run_post_init X w = Inr w'"
  shows "booting w'"
  using assms booting_lua [OF assms(1,2)]
  by (auto simp: run_post_init_def split: option.splits if_splits)

lemma booting_start: "once w \<Longrightarrow> \<not> initialized (env w) \<Longrightarrow> booting (boot X C w)"
  by (cases "has_next_sim_time_cb (env w)"; simp add: booting_def once_def boot_def bootstrap_register_next_sim_time_callback_def Let_def
      do_register_final_callback_def register_and_free_eq libverilua_do_register_next_sim_time_cb_def)

lemma booting_switches: "booting w \<Longrightarrow> booting (read_switches C w)"
  by (simp add: booting_def once_def read_switches_def Let_def)

lemma lifecycle_set_env_var [simp]:
  "lifecycle_calls (set_env_var n v w) = lifecycle_calls w" "lifecycle_flags (set_env_var n v w) = lifecycle_flags w"
  by (simp_all add: lifecycle_calls_def lifecycle_flags_def occurs_def set_env_var_def)

lemma booting_cong:
  "lifecycle_calls w' = lifecycle_calls w \<Longrightarrow> lifecycle_flags w' = lifecycle_flags w \<Longrightarrow> booting w' = booting w"
  using once_cong [of w' w] by (simp add: booting_def lifecycle_calls_def lifecycle_flags_def)

lemma booting_dut_top:
  assumes "booting w" and "ensure_dut_top X w = Inr w'"
  shows "booting w'"
proof -
  have "w1 = w \<or> (\<exists>nm. w1 = set_env_var ''VL_DUT_TOP'' nm w)" if "vpiml_get_top_module X w = Inr (p, w1)" for p w1
    using that by (auto simp: vpiml_get_top_module_def Let_def and_then_eq_Inr
        split: if_splits option.splits list.splits)
  moreover have "w' = w \<or> (\<exists>p w1 top. vpiml_get_top_module X w = Inr (p, w1) \<and> w' = set_env_var ''VL_DUT_TOP'' top w1)"
    using assms(2) by (auto simp: ensure_dut_top_def and_then_eq_Inr split: if_splits)
  ultimately have "lifecycle_calls w' = lifecycle_calls w \<and> lifecycle_flags w' = lifecycle_flags w"
    by (metis lifecycle_set_env_var)
  then show ?thesis using assms(1) booting_cong by blast
qed

lemma lua_or_panic_flags:
  "no_lifecycle X \<Longrightarrow> lua_or_panic X fn w = Inr w' \<Longrightarrow> lifecycle_flags w' = lifecycle_flags w"
proof -
  assume X: "no_lifecycle X" and l: "lua_or_panic X fn w = Inr w'"
  have w': "w' = snd (lua_pcall X fn [] (log_call (LuaCall fn []) w))"
    using l by (auto simp: lua_or_panic_def call_lua_tasks_def split: prod.splits option.splits)
  have "lifecycle_flags w' = lifecycle_flags (log_call (LuaCall fn []) w)"
    using X unfolding no_lifecycle_def w' by blast
  then show ?thesis by (simp add: lifecycle_flags_def)
qed

text \<open>The functions a successful initialisation holds.\<close>

lemma pin_all:
  "fold_res (pin_global_fn X) ns w = Inr w' \<Longrightarrow>
   \<exists>p. w' = w\<lparr>env := (env w)\<lparr>lua_pinned := p\<rparr>\<rparr> \<and> set p = set ns \<union> set (lua_pinned (env w))"
proof (induction ns arbitrary: w)
  case Nil
  then show ?case by (intro exI [of _ "lua_pinned (env w)"]) simp
next
  case (Cons n ns)
  then have "fold_res (pin_global_fn X) ns (w\<lparr>env := (env w)\<lparr>lua_pinned := n # lua_pinned (env w)\<rparr>\<rparr>) = Inr w'"
    by (auto simp: and_then_eq_Inr pin_global_fn_def [of X n w] split: if_splits)
  from Cons.IH [OF this] show ?case by auto
qed

lemma initialize_cases:
  assumes "initialize X C w = Inr w'" "\<not> initialized (env w)"
  obtains home w3 w4 w5 script w6 w7
  where "lua_or_panic X (Dofile home) (read_switches C (boot X C w)) = Inr w3" "ensure_dut_top X w3 = Inr w4"
    "run_post_init X w4 = Inr w5" "lua_or_panic X (Dofile script) w5 = Inr w6"
    "lua_or_panic X Verilua_init w6 = Inr w7" "fold_res (pin_global_fn X) (pinned_fns C) w7 = Inr w'"
  using assms unfolding initialize_def Let_def by (auto simp: and_then_eq_Inr split: if_splits)

lemma settled_initialize:
  assumes X: "no_lifecycle X" and settled: "settled w" and w': "initialize X C w = Inr w'"
  shows "settled w' \<and> initialized (env w')"
proof (cases "initialized (env w)")
  case True
  then show ?thesis using w' settled by (auto simp: initialize_def split: if_splits)
next
  case False
  obtain home w3 w4 w5 script w6 w7
    where w3: "lua_or_panic X (Dofile home) (read_switches C (boot X C w)) = Inr w3" and w4: "ensure_dut_top X w3 = Inr w4"
    and w5: "run_post_init X w4 = Inr w5" and w6: "lua_or_panic X (Dofile script) w5 = Inr w6"
    and w7: "lua_or_panic X Verilua_init w6 = Inr w7" and p: "fold_res (pin_global_fn X) (pinned_fns C) w7 = Inr w'"
    using initialize_cases [OF w' False] by blast
  have "booting w3" using booting_lua [OF X booting_switches [OF booting_start [OF _ False]] w3] settled by (simp add: settled_def)
  from booting_lua [OF X booting_post_init [OF X booting_dut_top [OF this w4] w5] w6] have "booting w6" by simp
  then have b: "once w6" "initialized (env w6)" "occurs (\<lambda>l. l = LuaCall Verilua_init []) w6 = 0"
    by (simp_all add: booting_def)
  obtain e where c: "call_lua_tasks X Verilua_init [] w6 = (e, w7)"
    using w7 by (auto simp: lua_or_panic_def split: prod.splits option.splits)
  have "once w7" by (rule once_verilua_init [OF X b c])
  moreover have "initialized (env w7)" using lua_or_panic_flags [OF X w7] b(2) by (simp add: lifecycle_flags_def)
  moreover obtain ps where "w' = w7\<lparr>env := (env w7)\<lparr>lua_pinned := ps\<rparr>\<rparr>" "set (pinned_fns C) \<subseteq> set ps"
    using pin_all [OF p] by blast
  ultimately show ?thesis using step_fns_pinned [of C] by (auto simp: settled_def once_def ready_def)
qed

lemma settled_apply_pending:
  assumes X: "no_lifecycle X" and "settled w" and run: "apply_pending_put_values X C w = Inr w'"
  shows "settled w'"
  using _ _ assms(2) run
proof (rule apply_pending_invariant)
  fix r w w' assume "settled w" and a: "apply_one X r w = Inr w'"
  obtain c v f where v: "vpi_put_value X (vpi_handle c) v f
      (set_chdl r (c\<lparr>put_value_flag := None\<rparr>) w) = Inr w'"
    using a by (auto simp: apply_one_def and_then_eq_Inr split: option.splits if_splits)
  let ?w = "log_call (PutValue (vpi_handle c) v f) (set_chdl r (c\<lparr>put_value_flag := None\<rparr>) w)"
  have "lifecycle_calls w' = lifecycle_calls ?w" "lifecycle_flags w' = lifecycle_flags ?w"
    using X v unfolding no_lifecycle_def vpi_put_value_def by blast+
  then have "settled w' = settled ?w" by (rule settled_cong)
  then show "settled w'" using \<open>settled w\<close> by (simp add: settled_def once_def occurs_def ready_def)
next
  fix w q b u e assume "settled w"
  then show "settled (w\<lparr>env := (env w)\<lparr>hdl_put_value := q, hdl_put_value_bak := b,
       flush_epoch := e, use_hdl_put_value_bak := u\<rparr>\<rparr>)" by (simp add: settled_def once_def ready_def)
qed

subsection \<open>Any sequence of lifecycle calls\<close>

datatype lifecycle_op =
    Op_bootstrap_start
  | Op_bootstrap_final
  | Op_bootstrap_next_sim_time
  | Op_vlog_startup
  | Op_verilua_init
  | Op_verilua_final
  | Op_start_callback
  | Op_final_callback
  | Op_step lua_fn
  | Op_step_safe bool lua_fn
  | Op_exit bool

fun run_lifecycle :: "externals \<Rightarrow> features \<Rightarrow> lifecycle_op \<Rightarrow> world option \<Rightarrow> world option res" where
  "run_lifecycle X C Op_bootstrap_start g =
     Inr (Some (bootstrap_register_start_callback X (get_verilua_env_no_init X g)))"
| "run_lifecycle X C Op_bootstrap_final g =
     Inr (Some (do_register_final_callback X (get_verilua_env_no_init X g)))"
| "run_lifecycle X C Op_bootstrap_next_sim_time g =
     Inr (Some (bootstrap_register_next_sim_time_callback X C (get_verilua_env_no_init X g)))"
| "run_lifecycle X C Op_vlog_startup g =
     Inr (Some (vlog_startup_routines_bootstrap X (get_verilua_env_no_init X g)))"
| "run_lifecycle X C Op_verilua_init g = and_then (verilua_init X C g) (\<lambda>w. Inr (Some w))"
| "run_lifecycle X C Op_verilua_final g = and_then (verilua_final X C g) (\<lambda>w. Inr (Some w))"
| "run_lifecycle X C Op_start_callback g = and_then (run_start_callback X C g) (\<lambda>w. Inr (Some w))"
| "run_lifecycle X C Op_final_callback g =
     and_then (run_final_callback X (get_verilua_env_no_init X g)) (\<lambda>w. Inr (Some w))"
| "run_lifecycle X C (Op_step fn) g = and_then (verilua_step X C fn g) (\<lambda>w. Inr (Some w))"
| "run_lifecycle X C (Op_step_safe err fn) g =
     and_then (verilua_step_safe X C fn err g) (\<lambda>(_, w). Inr (Some w))"
| "run_lifecycle X C (Op_exit nosim) g = automatically_finalize_verilua_env X nosim g"

definition step_fn_ok :: "lifecycle_op \<Rightarrow> bool" where
  "step_fn_ok op = (case op of
     Op_step fn \<Rightarrow> fn \<in> {Lua_main_step, Lua_posedge_step, Lua_negedge_step}
   | Op_step_safe _ fn \<Rightarrow> fn \<in> {Lua_main_step, Lua_posedge_step, Lua_negedge_step}
   | _ \<Rightarrow> True)"

definition settled_opt :: "world option \<Rightarrow> bool" where
  "settled_opt g = (case g of None \<Rightarrow> True | Some w \<Rightarrow> settled w)"

lemma settled_get_env: "no_lifecycle X \<Longrightarrow> settled_opt g \<Longrightarrow> get_verilua_env X C g = Inr w \<Longrightarrow> settled w"
  using settled_initialize [OF _ settled_start]
  by (auto simp: get_verilua_env_def settled_opt_def split: option.splits)

lemma settled_get_env_no_init: "settled_opt g \<Longrightarrow> settled (get_verilua_env_no_init X g)"
  by (auto simp: get_verilua_env_no_init_def settled_opt_def split: option.splits)

lemma settled_call_and_apply:
  assumes X: "no_lifecycle X" and "settled w" and "fn \<noteq> Verilua_init"
    and "call_lua_tasks X fn [] w = (e, w1)" and "apply_pending_put_values X C w1 = Inr w2"
  shows "settled w2"
  proof -
  let ?w = "log_call (LuaCall fn []) w"
  have w1: "w1 = snd (lua_pcall X fn [] ?w)" using assms(4) by (simp add: call_lua_tasks_def)
  have "settled w1 = settled ?w"
    using X unfolding no_lifecycle_def w1 by (intro settled_cong) blast+
  moreover have "settled ?w" using assms(2,3) by (simp add: settled_def once_def ready_def)
  ultimately show ?thesis using settled_apply_pending [OF X _ assms(5)] by blast
qed

lemma settled_step_safe:
  assumes X: "no_lifecycle X" and g: "settled_opt g" and fn: "fn \<noteq> Verilua_init"
    and w': "verilua_step_safe X C fn err g = Inr (b, w')"
  shows "settled w'"
proof -
  obtain w where w: "get_verilua_env X C g = Inr w"
    using w' unfolding verilua_step_safe_def by (auto simp: and_then_eq_Inr)
  have settled: "settled w" by (rule settled_get_env [OF X g w])
  show ?thesis
  proof (cases err)
    case True
    then have "finalize X w = Inr w'"
      using w' w by (auto simp: verilua_step_safe_def and_then_eq_Inr)
    then show ?thesis by (rule settled_finalize [OF X settled])
  next
    case False
    obtain e w1 where c: "call_lua_tasks X fn [] w = (e, w1)" by (metis surj_pair)
    then have "apply_pending_put_values X C w1 = Inr w'"
      using w' w False by (auto simp: verilua_step_safe_def and_then_eq_Inr split: if_splits)
    with X settled fn c show ?thesis by (rule settled_call_and_apply)
  qed
qed

lemma settled_step:
  assumes X: "no_lifecycle X" and g: "settled_opt g" and fn: "fn \<noteq> Verilua_init"
    and w': "verilua_step X C fn g = Inr w'"
  shows "settled w'"
proof -
  obtain w where w: "get_verilua_env X C g = Inr w"
    using w' unfolding verilua_step_def by (auto simp: and_then_eq_Inr)
  have settled: "settled w" by (rule settled_get_env [OF X g w])
  obtain e w1 where c: "call_lua_tasks X fn [] w = (e, w1)" by (metis surj_pair)
  then have "apply_pending_put_values X C w1 = Inr w'"
    using w' w by (auto simp: verilua_step_def split: if_splits option.splits)
  with X settled fn c show ?thesis by (rule settled_call_and_apply)
qed

lemma settled_verilua_init_final:
  assumes X: "no_lifecycle X" and g: "settled_opt g"
  shows "verilua_init X C g = Inr w \<Longrightarrow> settled w" and "verilua_final X C g = Inr w \<Longrightarrow> settled w"
    and "run_start_callback X C g = Inr w \<Longrightarrow> settled w"
proof -
  show init: "settled w" if "verilua_init X C g = Inr w" for w
    using that settled_get_env [OF X g] settled_initialize [OF X]
    by (simp add: verilua_init_def and_then_eq_Inr) blast
  show "settled w" if "verilua_final X C g = Inr w"
    using that settled_get_env [OF X g] settled_finalize [OF X] by (auto simp: verilua_final_def and_then_eq_Inr)
  show "settled w" if "run_start_callback X C g = Inr w"
    using that init settled_bootstrap(3) by (auto simp: run_start_callback_def and_then_eq_Inr)
qed

lemma settled_exit:
  assumes X: "no_lifecycle X" and g: "settled_opt g"
    and g': "automatically_finalize_verilua_env X n g = Inr g'"
  shows "settled_opt g'"
  using g' g settled_finalize [OF X]
  by (cases n; cases g) (auto simp: automatically_finalize_verilua_env_def and_then_eq_Inr settled_opt_def
      split: if_splits)

lemma run_lifecycle_settled:
  assumes X: "no_lifecycle X" and g: "settled_opt g" and op: "step_fn_ok op"
    and g': "run_lifecycle X C op g = Inr g'"
  shows "settled_opt g'"
proof -
  have settled_Some: "settled_opt (Some w) = settled w" for w by (simp add: settled_opt_def)
  note n = settled_get_env_no_init [OF g]
  show ?thesis
  proof (cases op)
    case (Op_step fn)
    then obtain w where "verilua_step X C fn g = Inr w" "g' = Some w"
      using g' by (auto simp: and_then_eq_Inr)
    moreover have "fn \<noteq> Verilua_init" using op Op_step by (auto simp: step_fn_ok_def)
    ultimately show ?thesis using settled_step [OF X g] settled_Some by blast
  next
    case (Op_step_safe err fn)
    then obtain b w where "verilua_step_safe X C fn err g = Inr (b, w)" "g' = Some w"
      using g' by (auto simp: and_then_eq_Inr)
    moreover have "fn \<noteq> Verilua_init" using op Op_step_safe by (auto simp: step_fn_ok_def)
    ultimately show ?thesis using settled_step_safe [OF X g] settled_Some by blast
  next
    case (Op_exit n)
    then show ?thesis using g' settled_exit [OF X g] by simp
  next
    case Op_verilua_init
    then show ?thesis using g' settled_verilua_init_final [OF X g] by (auto simp: and_then_eq_Inr settled_Some)
  next
    case Op_verilua_final
    then show ?thesis using g' settled_verilua_init_final [OF X g] by (auto simp: and_then_eq_Inr settled_Some)
  next
    case Op_start_callback
    then show ?thesis using g' settled_verilua_init_final [OF X g] by (auto simp: and_then_eq_Inr settled_Some)
  next
    case Op_final_callback
    then show ?thesis using g' settled_finalize [OF X n]
      by (auto simp: and_then_eq_Inr settled_Some run_final_callback_def)
  qed (use g' settled_bootstrap n in \<open>auto simp: settled_Some vlog_startup_routines_bootstrap_def\<close>)
qed

text \<open>C9. Whatever sequence of lifecycle calls an embedding makes, the start callback, the final callback and
  the callback of the first time slot are registered, \<open>verilua_init\<close> is run and the Lua \<open>finish_callback\<close> is called at most once each, the
  latter only after initialisation, and an initialised environment holds the functions that the steps
  unwrap unchecked.\<close>

theorem lifecycle_at_most_once:
  assumes "no_lifecycle X" and "\<forall>op \<in> set ops. step_fn_ok op"
    and "fold_res (run_lifecycle X C) ops None = Inr (Some w)"
  shows "occurs (registers start_callback) w \<le> 1 \<and> occurs (registers final_callback) w \<le> 1
    \<and> occurs (registers libverilua_next_sim_time_cb) w \<le> 1
    \<and> occurs (\<lambda>l. l = LuaCall Verilua_init []) w \<le> 1 \<and> occurs (\<lambda>l. l = LuaFinish) w \<le> 1
    \<and> (occurs (\<lambda>l. l = LuaFinish) w = 1 \<longrightarrow> initialized (env w))
    \<and> (initialized (env w) \<longrightarrow> set step_fns \<subseteq> set (lua_pinned (env w)))"
proof -
  have "settled_opt (Some w)"
    by (rule fold_res_invariant [where P=settled_opt, OF assms(3)])
      (use assms(1,2) run_lifecycle_settled in \<open>auto simp: settled_opt_def\<close>)
  then have "once w" "ready w" by (simp_all add: settled_opt_def settled_def)
  then show ?thesis
    unfolding once_def ready_def
    by (cases "has_start_cb (env w)"; cases "has_final_cb (env w)"; cases "has_next_sim_time_cb (env w)";
        cases "finalized (env w)"; cases "initialized (env w)") simp_all
qed

definition demo_lifecycle :: "lifecycle_op list" where
  "demo_lifecycle = [Op_vlog_startup, Op_start_callback, Op_verilua_init, Op_step Lua_main_step,
     Op_step_safe True Lua_main_step, Op_final_callback, Op_exit False]"

lemma no_lifecycle_recording: "no_lifecycle recording_sim"
  by (simp add: no_lifecycle_def recording_sim_def)

definition single_task_build :: features where
  "single_task_build = verilator_build\<lparr>feat_chunk_task := False, feat_inner_step := False\<rparr>"

lemma occurs_or: "occurs (\<lambda>l. P l \<or> Q l) w \<le> occurs P w + occurs Q w"
proof -
  have "length (filter (\<lambda>l. P l \<or> Q l) xs) \<le> length (filter P xs) + length (filter Q xs)" for xs
    by (induction xs) auto
  then show ?thesis by (simp add: occurs_def)
qed

lemma lifecycle_at_most_once_witness:
  "\<exists>w. fold_res (run_lifecycle recording_sim single_task_build) demo_lifecycle None = Inr (Some w)
     \<and> occurs (\<lambda>l. l = LuaFinish) w = 1 \<and> occurs (registers libverilua_next_sim_time_cb) w = 1"
proof -
  let ?P = "\<lambda>l. l = LuaFinish" and ?Q = "registers libverilua_next_sim_time_cb"
  have "case fold_res (run_lifecycle recording_sim single_task_build) demo_lifecycle None of
      Inr (Some w) \<Rightarrow> occurs (\<lambda>l. ?P l \<or> ?Q l) w = 2 | _ \<Rightarrow> False" by code_simp
  then obtain w where w: "fold_res (run_lifecycle recording_sim single_task_build) demo_lifecycle None = Inr (Some w)"
    and o: "occurs (\<lambda>l. ?P l \<or> ?Q l) w = 2" by (auto split: sum.splits option.splits)
  have "\<forall>op \<in> set demo_lifecycle. step_fn_ok op" by code_simp
  then have "occurs ?P w \<le> 1" "occurs ?Q w \<le> 1"
    using lifecycle_at_most_once [OF no_lifecycle_recording _ w] by blast+
  then show ?thesis using w o occurs_or [of ?P ?Q w] by auto
qed

text \<open>
  The flag \<open>initialized\<close> is set before the step functions are looked up, so a step that a script calls while
  it is being loaded passes the assertion and unwraps \<open>None\<close> unchecked.
\<close>

lemma step_during_initialization:
  "booting w \<Longrightarrow> lua_pinned (env w) = [] \<Longrightarrow> verilua_step X C fn (Some w) = Inl (Undefined ''unwrap_unchecked'')"
  by (simp add: verilua_step_def get_verilua_env_def booting_def)

end
