(* ===== verification/EdgeCallbacks.thy ===== *)
theory EdgeCallbacks
  imports Lifecycle
begin

text \<open>
  Waiting for signal edges (\<^verbatim>\<open>vpi_callback.rs\<close>, \<^verbatim>\<open>gen/gen_register_callback_func.rs\<close>,
  \<^verbatim>\<open>gen/gen_callback_policy.rs\<close>): registration at once or at the next time step, in chunks of up to
  16 tasks (\<open>chunk_task\<close>), with reference counts for repeated waits (\<open>merge_cb\<close>); the callbacks that
  resume the tasks and unregister themselves. The sixteen generated copies of a chunk function
  differ in the number of tasks only; here they are one definition on a task list, \<open>GenChunks\<close> has them
  one by one.
\<close>

subsection \<open>Edge detection\<close>

datatype edge_value = Low | High | DontCare

fun edge_value_try_from :: "u8 \<Rightarrow> edge_value option" where
  "edge_value_try_from b = (if b = 0 then Some Low else if b = 1 then Some High
     else if b = 2 then Some DontCare else None)"

fun edge_type_to_value :: "edge_type \<Rightarrow> edge_value" where
  "edge_type_to_value Posedge = High"
| "edge_type_to_value Negedge = Low"
| "edge_type_to_value Edge = DontCare"

text \<open>The guard every edge callback starts with, on the new integer value of the signal.\<close>

definition edge_fires :: "edge_type \<Rightarrow> u32 \<Rightarrow> bool" where
  "edge_fires et v =
     (case edge_value_try_from (ucast v) of
        None \<Rightarrow> False
      | Some new_value \<Rightarrow>
          new_value = edge_type_to_value et \<or> edge_type_to_value et = DontCare)"

subsection \<open>The slab of registered callbacks\<close>

definition slab_insert :: "nat \<Rightarrow> vpiHandle \<Rightarrow> world \<Rightarrow> world" where
  "slab_insert k h w = w\<lparr>env := (env w)\<lparr>edge_cb_slab := (edge_cb_slab (env w))(k \<mapsto> h)\<rparr>\<rparr>"

text \<open>\<open>edge_cb_slab.remove(id)\<close> (which panics on a vacant key), then \<open>vpi_remove_cb\<close>.\<close>

definition remove_edge_cb :: "nat \<Rightarrow> world \<Rightarrow> world res" where
  "remove_edge_cb k w =
     (case edge_cb_slab (env w) k of
        None \<Rightarrow> Inl (Panic ''invalid key'')
      | Some cb_hdl \<Rightarrow>
          Inr (vpi_remove_cb cb_hdl
                (w\<lparr>env := (env w)\<lparr>edge_cb_slab := (edge_cb_slab (env w))(k := None)\<rparr>\<rparr>)))"

definition register_value_change ::
  "externals \<Rightarrow> (edge_cb_data \<Rightarrow> cb_rtn) \<Rightarrow> edge_cb_data \<Rightarrow> world \<Rightarrow> (vpiHandle \<times> world) res" where
  "register_value_change X f d w =
     and_then (from_raw (ecb_handle d) w) (\<lambda>c.
       Inr (vpi_register_cb X (cb_data cbValueChange (f d) 0 (vpi_handle c)) w))"

definition edge_data :: "task_id list \<Rightarrow> raw \<Rightarrow> edge_type \<Rightarrow> nat \<Rightarrow> edge_cb_data" where
  "edge_data ts r et k = \<lparr>ecb_task_ids = ts, ecb_handle = r, ecb_edge_type = et, ecb_callback_id = k\<rparr>"

lemma edge_data_sel [simp]:
  "ecb_task_ids (edge_data ts r et k) = ts" "ecb_handle (edge_data ts r et k) = r"
  "ecb_edge_type (edge_data ts r et k) = et" "ecb_callback_id (edge_data ts r et k) = k"
  by (simp_all add: edge_data_def)

definition do_register_edge_callback ::
  "externals \<Rightarrow> raw \<Rightarrow> task_id \<Rightarrow> edge_type \<Rightarrow> nat \<Rightarrow> world \<Rightarrow> (vpiHandle \<times> world) res" where
  "do_register_edge_callback X r t et k = register_value_change X edge_callback (edge_data [t] r et k)"

definition do_register_edge_callback_chunk ::
  "externals \<Rightarrow> raw \<Rightarrow> task_id list \<Rightarrow> edge_type \<Rightarrow> nat \<Rightarrow> world \<Rightarrow> (vpiHandle \<times> world) res" where
  "do_register_edge_callback_chunk X r ts et k =
     register_value_change X (edge_callback_chunk (length ts)) (edge_data ts r et k)"

definition do_register_edge_callback_always ::
  "externals \<Rightarrow> raw \<Rightarrow> task_id \<Rightarrow> edge_type \<Rightarrow> nat \<Rightarrow> world \<Rightarrow> (vpiHandle \<times> world) res" where
  "do_register_edge_callback_always X r t et k =
     register_value_change X edge_callback_always (edge_data [t] r et k)"

text \<open>\<open>vacant_entry\<close>, register, \<open>insert\<close>.\<close>

definition with_vacant_entry ::
  "externals \<Rightarrow> (nat \<Rightarrow> world \<Rightarrow> (vpiHandle \<times> world) res) \<Rightarrow> world \<Rightarrow> world res" where
  "with_vacant_entry X reg w =
     (let k = slab_vacant_key X (edge_cb_slab (env w))
      in and_then (reg k w) (\<lambda>(cb_hdl, w'). Inr (slab_insert k cb_hdl w')))"

subsection \<open>Registering a wait\<close>

definition add_pending :: "edge_type \<Rightarrow> raw \<Rightarrow> task_id \<Rightarrow> world \<Rightarrow> world" where
  "add_pending et r t w =
     w\<lparr>env := (env w)\<lparr>pending_cb_map := (pending_cb_map (env w))(et :=
        hm_upd r (\<lambda>v. case v of None \<Rightarrow> [t] | Some ts \<Rightarrow> ts @ [t]) (pending_cb_map (env w) et))\<rparr>\<rparr>"

definition add_pending_info :: "edge_type \<Rightarrow> raw \<Rightarrow> task_id \<Rightarrow> world \<Rightarrow> world" where
  "add_pending_info et r t w =
     (let i = \<lparr>ci_edge_type = et, ci_task_id = t\<rparr>
      in w\<lparr>env := (env w)\<lparr>pending_cb_infos :=
           hm_upd r (\<lambda>v. case v of None \<Rightarrow> [i] | Some is \<Rightarrow> is @ [i]) (pending_cb_infos (env w))\<rparr>\<rparr>)"

definition count_of :: "complex_handle \<Rightarrow> edge_type \<Rightarrow> task_id \<Rightarrow> u32" where
  "count_of c et t = (case cb_count c et t of None \<Rightarrow> 0 | Some n \<Rightarrow> n)"

definition set_count :: "edge_type \<Rightarrow> (task_id \<rightharpoonup> u32) \<Rightarrow> complex_handle \<Rightarrow> complex_handle" where
  "set_count et m c = c\<lparr>cb_count := (cb_count c)(et := m)\<rparr>"

text \<open>\<open>vpiml_register_<posedge|negedge|edge>_callback\<close>: the edge is an argument.\<close>

definition vpiml_register_edge_callback ::
  "externals \<Rightarrow> features \<Rightarrow> edge_type \<Rightarrow> raw \<Rightarrow> task_id \<Rightarrow> world \<Rightarrow> world res" where
  "vpiml_register_edge_callback X C et r t w =
     and_then (from_complex_handle_raw r w) (\<lambda>c.
       if feat_opt_cb_task C then
         (let n = count_of c et t + 1;
              w1 = (if feat_merge_cb C
                    then set_chdl r (set_count et ((cb_count c et)(t \<mapsto> n)) c) w else w)
          in if feat_merge_cb C \<and> \<not> feat_chunk_task C \<and> n > 1 then Inr w1
             else if feat_chunk_task C then Inr (add_pending et r t w1)
             else Inr (add_pending_info et r t w1))
       else with_vacant_entry X (do_register_edge_callback X r t et) w)"

definition vpiml_register_edge_callback_always ::
  "externals \<Rightarrow> edge_type \<Rightarrow> raw \<Rightarrow> task_id \<Rightarrow> world \<Rightarrow> world res" where
  "vpiml_register_edge_callback_always X et r t w =
     and_then (do_register_edge_callback_always X r t et 0 w) (\<lambda>(_, w'). Inr w')"

subsection \<open>The callbacks\<close>

definition run_edge_callback ::
  "externals \<Rightarrow> features \<Rightarrow> edge_cb_data \<Rightarrow> u32 \<Rightarrow> world \<Rightarrow> world res" where
  "run_edge_callback X C d v w =
     (let t = hd (ecb_task_ids d); et = ecb_edge_type d; r = ecb_handle d
      in if \<not> edge_fires et v then Inr w
         else
           and_then (from_complex_handle_raw r w) (\<lambda>_.
           and_then (or_abort X (call_sim_event X t w)) (\<lambda>w1.
             if feat_opt_cb_task C \<and> feat_merge_cb C then
               and_then (from_raw r w1) (\<lambda>c.
                 case cb_count c et t of
                   None \<Rightarrow> Inl (Undefined ''unwrap_unchecked on None'')
                 | Some n \<Rightarrow>
                     (let w2 = set_chdl r (set_count et ((cb_count c et)(t \<mapsto> n - 1)) c) w1
                      in if n - 1 = 0 then remove_edge_cb (ecb_callback_id d) w2 else Inr w2))
             else remove_edge_cb (ecb_callback_id d) w1)))"

definition run_edge_callback_always ::
  "externals \<Rightarrow> edge_cb_data \<Rightarrow> u32 \<Rightarrow> world \<Rightarrow> world res" where
  "run_edge_callback_always X d v w =
     (if \<not> edge_fires (ecb_edge_type d) v then Inr w
      else or_abort X (call_sim_event X (hd (ecb_task_ids d)) w))"

text \<open>
  The count loop of a chunk callback: decrement the count of every task, collect those that reach 0.
\<close>

fun dec_counts :: "(task_id \<rightharpoonup> u32) \<Rightarrow> task_id list \<Rightarrow> ((task_id \<rightharpoonup> u32) \<times> task_id list) res" where
  "dec_counts m [] = Inr (m, [])"
| "dec_counts m (t # ts) =
     (case m t of
        None \<Rightarrow> Inl (Panic ''unwrap on None'')
      | Some n \<Rightarrow>
          and_then (dec_counts (m(t \<mapsto> n - 1)) ts) (\<lambda>(m', finished).
            Inr (m', if n - 1 = 0 then t # finished else finished)))"

definition drop_counts :: "task_id list \<Rightarrow> (task_id \<rightharpoonup> u32) \<Rightarrow> task_id \<rightharpoonup> u32" where
  "drop_counts fin m = (\<lambda>t. if t \<in> set fin then None else m t)"

definition keep_chunk :: "edge_cb_data \<Rightarrow> world \<Rightarrow> world" where
  "keep_chunk d w =
     (let et = ecb_edge_type d; ch = pending_cb_chunk (env w) et
      in if map_of ch (ecb_callback_id d) \<noteq> None then w
         else w\<lparr>env := (env w)\<lparr>pending_cb_chunk := (pending_cb_chunk (env w))(et :=
                ch @ [(ecb_callback_id d, (ecb_handle d, ecb_task_ids d))])\<rparr>\<rparr>)"

definition forget_chunk :: "edge_cb_data \<Rightarrow> world \<Rightarrow> world" where
  "forget_chunk d w =
     w\<lparr>env := (env w)\<lparr>pending_cb_chunk := (pending_cb_chunk (env w))(ecb_edge_type d :=
        hm_remove (ecb_callback_id d) (pending_cb_chunk (env w) (ecb_edge_type d)))\<rparr>\<rparr>"

text \<open>
  The body of \<^verbatim>\<open>edge_callback_chunk_N\<close>, whose literal argument of \<open>call_sim_event_chunk\<close> is \<open>n\<close>; a
  chunk is served by the one of its length.
\<close>

definition edge_callback_chunk_n ::
  "externals \<Rightarrow> features \<Rightarrow> nat \<Rightarrow> edge_cb_data \<Rightarrow> u32 \<Rightarrow> world \<Rightarrow> world res" where
  "edge_callback_chunk_n X C n d v w =
     (let ts = ecb_task_ids d; et = ecb_edge_type d; r = ecb_handle d
      in if \<not> edge_fires et v then Inr w
         else
           and_then (or_abort X (call_sim_event_chunk X n ts w)) (\<lambda>w1.
             if feat_merge_cb C then
               and_then (from_raw r w1) (\<lambda>c.
               and_then (dec_counts (cb_count c et) ts) (\<lambda>(m, finished).
                 if finished = [] then Inr (keep_chunk d (set_chdl r (set_count et m c) w1))
                 else remove_edge_cb (ecb_callback_id d)
                        (forget_chunk d (set_chdl r (set_count et (drop_counts finished m) c) w1))))
             else remove_edge_cb (ecb_callback_id d) w1))"

definition run_edge_callback_chunk ::
  "externals \<Rightarrow> features \<Rightarrow> edge_cb_data \<Rightarrow> u32 \<Rightarrow> world \<Rightarrow> world res" where
  "run_edge_callback_chunk X C d = edge_callback_chunk_n X C (length (ecb_task_ids d)) d"

lemmas run_edge_callback_chunk_eq = run_edge_callback_chunk_def edge_callback_chunk_n_def

subsection \<open>Registration at the next time step\<close>

text \<open>Chunks that are still registered make the pending waits of their tasks redundant.\<close>

definition process_one_chunk ::
  "raw \<times> task_id list \<Rightarrow> (raw \<times> task_id list) list \<Rightarrow> (raw \<times> task_id list) list" where
  "process_one_chunk c m =
     (case c of (r, ts) \<Rightarrow>
        case map_of m r of
          None \<Rightarrow> m
        | Some pending \<Rightarrow>
            (if list_all (\<lambda>t. t \<in> set pending) ts then
               (let rest = filter (\<lambda>t. t \<notin> set ts) pending
                in if rest = [] then hm_remove r m else hm_upd r (\<lambda>_. rest) m)
             else m))"

definition process_cb_chunk ::
  "(nat \<times> (raw \<times> task_id list)) list \<Rightarrow> (raw \<times> task_id list) list \<Rightarrow> (raw \<times> task_id list) list" where
  "process_cb_chunk cb_chunk cb_map = fold (\<lambda>(_, c). process_one_chunk c) cb_chunk cb_map"

text \<open>\<open>while idx < size { chunk = [idx..min(idx + 16, size)]; ... }\<close>.\<close>

function chunks_of :: "'a list \<Rightarrow> 'a list list" where
  "chunks_of xs = (if xs = [] then [] else take 16 xs # chunks_of (drop 16 xs))"
  by auto
termination by (relation "measure length") auto

declare chunks_of.simps [simp del]

definition register_chunk :: "externals \<Rightarrow> edge_type \<Rightarrow> raw \<Rightarrow> task_id list \<Rightarrow> world \<Rightarrow> world res" where
  "register_chunk X et r ts = with_vacant_entry X (do_register_edge_callback_chunk X r ts et)"

definition register_all_chunks ::
  "externals \<Rightarrow> edge_type \<Rightarrow> (raw \<times> task_id list) list \<Rightarrow> world \<Rightarrow> world res" where
  "register_all_chunks X et m =
     fold_res (\<lambda>(r, ts). fold_res (register_chunk X et r) (chunks_of ts)) m"

definition register_all_infos :: "externals \<Rightarrow> (raw \<times> callback_info list) list \<Rightarrow> world \<Rightarrow> world res" where
  "register_all_infos X m =
     fold_res (\<lambda>(r, infos) w.
       and_then (from_raw r w) (\<lambda>_.
         fold_res (\<lambda>i. with_vacant_entry X (do_register_edge_callback X r (ci_task_id i) (ci_edge_type i)))
           infos w)) m"

definition merge_pending :: "features \<Rightarrow> world \<Rightarrow> world" where
  "merge_pending C w =
     (if feat_chunk_task C \<and> feat_merge_cb C then
        w\<lparr>env := (env w)\<lparr>pending_cb_map := (\<lambda>et.
           process_cb_chunk (pending_cb_chunk (env w) et) (pending_cb_map (env w) et))\<rparr>\<rparr>
      else w)"

definition register_pending :: "externals \<Rightarrow> features \<Rightarrow> world \<Rightarrow> world res" where
  "register_pending X C w =
     (if feat_chunk_task C then
        and_then (register_all_chunks X Posedge (pending_cb_map (env w) Posedge) w) (\<lambda>w1.
        and_then (register_all_chunks X Negedge (pending_cb_map (env w) Negedge) w1) (\<lambda>w2.
        and_then (register_all_chunks X Edge (pending_cb_map (env w) Edge) w2) (\<lambda>w3.
          Inr (w3\<lparr>env := (env w3)\<lparr>pending_cb_map := (\<lambda>_. [])\<rparr>\<rparr>))))
      else
        and_then (register_all_infos X (pending_cb_infos (env w)) w) (\<lambda>w1.
          Inr (w1\<lparr>env := (env w1)\<lparr>pending_cb_infos := []\<rparr>\<rparr>)))"

text \<open>The handler of \<open>cbNextSimTime\<close>. On \<open>wave_vpi\<close> it registers itself again.\<close>

definition run_next_sim_time_cb :: "externals \<Rightarrow> features \<Rightarrow> world \<Rightarrow> world res" where
  "run_next_sim_time_cb X C w =
     (let w1 = w\<lparr>env := (env w)\<lparr>rw_phase_passed := False, rw_cb_re_registered := False\<rparr>\<rparr>
      in and_then (if feat_opt_cb_task C then register_pending X C (merge_pending C w1) else Inr w1)
           (\<lambda>w2. Inr (if feat_wave_vpi C then libverilua_do_register_next_sim_time_cb X w2
                      else libverilua_register_rw_synch_cb X w2)))"

end
