(* ===== verification/EdgeSpec.thy ===== *)
theory EdgeSpec
  imports EdgeCallbacks
begin

text \<open>
  What the edge-callback machinery promises: at the next time step every pending wait is registered
  exactly once, in chunks of 1 to 16 tasks with fresh ids; a one-shot callback removes itself; the
  reference counts decide when a shared chunk goes away; tasks that wait again keep their chunk.
\<close>

subsection \<open>Chunks\<close>

lemma concat_chunks_of [simp]: "concat (chunks_of xs) = xs"
  by (induction xs rule: chunks_of.induct) (subst chunks_of.simps, simp)

lemma chunks_of_length: "c \<in> set (chunks_of xs) \<Longrightarrow> 1 \<le> length c \<and> length c \<le> 16"
proof (induction xs rule: chunks_of.induct)
  case (1 xs)
  show ?case
  proof (cases "xs = []")
    case True
    then show ?thesis using 1 by (simp add: chunks_of.simps)
  next
    case False
    then have "c = take 16 xs \<or> c \<in> set (chunks_of (drop 16 xs))"
      using 1 by (subst (asm) chunks_of.simps) simp
    moreover have "1 \<le> length xs" using False by (cases xs) simp_all
    ultimately show ?thesis using 1 False by auto
  qed
qed

subsection \<open>Registrations\<close>

text \<open>The chunk callbacks a log registers.\<close>

fun chunk_regs :: "vpi_call list \<Rightarrow> edge_cb_data list" where
  "chunk_regs [] = []"
| "chunk_regs (RegisterCb d h # cs) =
     (case rtn d of edge_callback_chunk n e \<Rightarrow> e # chunk_regs cs | _ \<Rightarrow> chunk_regs cs)"
| "chunk_regs (_ # cs) = chunk_regs cs"

lemma chunk_regs_append [simp]: "chunk_regs (xs @ ys) = chunk_regs xs @ chunk_regs ys"
  by (induction xs rule: chunk_regs.induct) (auto split: cb_rtn.splits)

text \<open>\<open>grows w w' ds\<close>: exactly the chunks \<open>ds\<close> were registered on the way from \<open>w\<close> to \<open>w'\<close>.\<close>

definition grows :: "world \<Rightarrow> world \<Rightarrow> edge_cb_data list \<Rightarrow> bool" where
  "grows w w' ds \<longleftrightarrow>
     chunk_regs (vpi_log w') = chunk_regs (vpi_log w) @ ds
     \<and> distinct (map ecb_callback_id ds)
     \<and> set (map ecb_callback_id ds) \<inter> dom (edge_cb_slab (env w)) = {}
     \<and> dom (edge_cb_slab (env w')) = dom (edge_cb_slab (env w)) \<union> set (map ecb_callback_id ds)
     \<and> finite (dom (edge_cb_slab (env w')))
     \<and> chdls w' = chdls w \<and> pending_cb_map (env w') = pending_cb_map (env w)"

lemma grows_refl: "finite (dom (edge_cb_slab (env w))) \<Longrightarrow> grows w w []"
  by (simp add: grows_def)

lemma grows_finite: "grows w w' ds \<Longrightarrow> finite (dom (edge_cb_slab (env w')))"
  unfolding grows_def by blast

lemma grows_trans: "grows w w1 ds \<Longrightarrow> grows w1 w2 es \<Longrightarrow> grows w w2 (ds @ es)"
  unfolding grows_def by auto

lemma register_chunk_grows:
  assumes X: "slab_vacant_ok X" and fin: "finite (dom (edge_cb_slab (env w)))"
    and w': "register_chunk X et r ts w = Inr w'"
  shows "\<exists>d. grows w w' [d] \<and> ecb_handle d = r \<and> ecb_task_ids d = ts \<and> ecb_edge_type d = et"
proof -
  let ?k = "slab_vacant_key X (edge_cb_slab (env w))"
  let ?d = "edge_data ts r et ?k"
  obtain c where c: "chdls w r = Some c"
    using w' by (auto simp: register_chunk_def with_vacant_entry_def Let_def and_then_eq_Inr
        do_register_edge_callback_chunk_def register_value_change_def)
  have "edge_cb_slab (env w) ?k = None" using X fin by (simp add: slab_vacant_ok_def)
  then have "grows w w' [?d]"
    using w' fin
    by (auto simp: register_chunk_def with_vacant_entry_def Let_def vpi_register_cb_def slab_insert_def
        do_register_edge_callback_chunk_def register_value_change_def from_raw_Some [OF c] grows_def)
  then show ?thesis by (intro exI [of _ ?d]) simp
qed

definition chunk_of :: "edge_cb_data \<Rightarrow> raw \<times> task_id list" where
  "chunk_of d = (ecb_handle d, ecb_task_ids d)"

lemma fold_register_grows:
  assumes X: "slab_vacant_ok X"
  shows "finite (dom (edge_cb_slab (env w))) \<Longrightarrow> fold_res (register_chunk X et r) cs w = Inr w' \<Longrightarrow>
    \<exists>ds. grows w w' ds \<and> map chunk_of ds = map (Pair r) cs \<and> (\<forall>d \<in> set ds. ecb_edge_type d = et)"
proof (induction cs arbitrary: w)
  case Nil
  then show ?case using grows_refl by fastforce
next
  case (Cons c cs)
  then obtain w1 where w1: "register_chunk X et r c w = Inr w1"
    and rest: "fold_res (register_chunk X et r) cs w1 = Inr w'" by (auto simp: and_then_eq_Inr)
  obtain d where d: "grows w w1 [d]" "chunk_of d = (r, c)" "ecb_edge_type d = et"
    using register_chunk_grows [OF X Cons.prems(1) w1] by (auto simp: chunk_of_def)
  then have "finite (dom (edge_cb_slab (env w1)))" by (metis grows_finite)
  then obtain ds where ds: "grows w1 w' ds" "map chunk_of ds = map (Pair r) cs"
      "\<forall>d \<in> set ds. ecb_edge_type d = et" using Cons.IH rest by blast
  have "grows w w' (d # ds)" using grows_trans [OF d(1) ds(1)] by simp
  then show ?case using d ds by (intro exI [of _ "d # ds"]) simp
qed

text \<open>All chunks of a pending map, in its iteration order.\<close>

definition pending_chunks :: "(raw \<times> task_id list) list \<Rightarrow> (raw \<times> task_id list) list" where
  "pending_chunks m = concat (map (\<lambda>(r, ts). map (Pair r) (chunks_of ts)) m)"

lemma register_all_grows:
  assumes X: "slab_vacant_ok X"
  shows "finite (dom (edge_cb_slab (env w))) \<Longrightarrow> register_all_chunks X et m w = Inr w' \<Longrightarrow>
    \<exists>ds. grows w w' ds \<and> map chunk_of ds = pending_chunks m \<and> (\<forall>d \<in> set ds. ecb_edge_type d = et)"
proof (induction m arbitrary: w)
  case Nil
  then show ?case using grows_refl by (fastforce simp: register_all_chunks_def pending_chunks_def)
next
  case (Cons e m)
  obtain r ts where e: "e = (r, ts)" by (metis surj_pair)
  obtain w1 where w1: "fold_res (register_chunk X et r) (chunks_of ts) w = Inr w1"
    and rest: "register_all_chunks X et m w1 = Inr w'"
    using Cons.prems(2) by (auto simp: register_all_chunks_def e and_then_eq_Inr)
  obtain ds where ds: "grows w w1 ds" "map chunk_of ds = map (Pair r) (chunks_of ts)"
      "\<forall>d \<in> set ds. ecb_edge_type d = et"
    using fold_register_grows [OF X Cons.prems(1) w1] by blast
  then have "finite (dom (edge_cb_slab (env w1)))" by (metis grows_finite)
  then obtain es where es: "grows w1 w' es" "map chunk_of es = pending_chunks m"
      "\<forall>d \<in> set es. ecb_edge_type d = et" using Cons.IH rest by blast
  have "grows w w' (ds @ es)" by (rule grows_trans [OF ds(1) es(1)])
  then show ?case using ds es by (intro exI [of _ "ds @ es"]) (auto simp: pending_chunks_def e)
qed

text \<open>The tasks that chunks \<open>ds\<close> resume on an edge \<open>et\<close> of the handle \<open>r\<close>, in order.\<close>

definition tasks_for :: "edge_cb_data list \<Rightarrow> raw \<Rightarrow> edge_type \<Rightarrow> task_id list" where
  "tasks_for ds r et =
     concat (map ecb_task_ids (filter (\<lambda>d. ecb_handle d = r \<and> ecb_edge_type d = et) ds))"

lemma tasks_for_append: "tasks_for (ds @ es) r et = tasks_for ds r et @ tasks_for es r et"
  by (simp add: tasks_for_def)

lemma tasks_for_other: "(\<forall>d \<in> set ds. ecb_edge_type d = et') \<Longrightarrow> et \<noteq> et' \<Longrightarrow> tasks_for ds r et = []"
  by (auto simp: tasks_for_def filter_empty_conv)

lemma tasks_for_chunks:
  assumes "map chunk_of ds = cs" and "\<forall>d \<in> set ds. ecb_edge_type d = et"
  shows "tasks_for ds r et = concat (map snd (filter (\<lambda>c. fst c = r) cs))"
proof -
  have "filter (\<lambda>c. fst c = r) cs = map chunk_of (filter (\<lambda>d. ecb_handle d = r) ds)"
    unfolding assms(1) [symmetric] by (simp add: filter_map comp_def chunk_of_def)
  then show ?thesis
    using assms(2) by (simp add: tasks_for_def comp_def chunk_of_def cong: filter_cong)
qed

lemma pending_chunks_tasks:
  "distinct (map fst m) \<Longrightarrow>
   concat (map snd (filter (\<lambda>c. fst c = r) (pending_chunks m))) = (case map_of m r of None \<Rightarrow> [] | Some ts \<Rightarrow> ts)"
proof (induction m)
  case Nil
  then show ?case by (simp add: pending_chunks_def)
next
  case (Cons e m)
  obtain s ts where e: "e = (s, ts)" by (metis surj_pair)
  have split: "pending_chunks (e # m) = map (Pair s) (chunks_of ts) @ pending_chunks m"
    by (simp add: pending_chunks_def e)
  have one: "concat (map snd (filter (\<lambda>c. fst c = r) (map (Pair s) (chunks_of ts)))) =
      (if s = r then ts else [])"
    by (simp add: filter_map comp_def)
  have all: "concat (map snd (filter (\<lambda>c. fst c = r) (pending_chunks (e # m)))) =
      (if s = r then ts else []) @ (case map_of m r of None \<Rightarrow> [] | Some ts \<Rightarrow> ts)"
    using Cons one by (simp only: split filter_append map_append concat_append) (simp add: e)
  show ?case
  proof (cases "s = r")
    case True
    then have "map_of m r = None" using Cons.prems by (auto simp: e map_of_eq_None_iff)
    then show ?thesis using True unfolding all by (simp add: e)
  next
    case False
    then show ?thesis unfolding all by (simp add: e)
  qed
qed

definition pending_tasks :: "world \<Rightarrow> raw \<Rightarrow> edge_type \<Rightarrow> task_id list" where
  "pending_tasks w r et = (case map_of (pending_cb_map (env w) et) r of None \<Rightarrow> [] | Some ts \<Rightarrow> ts)"

lemma register_and_free_rw [simp]:
  "env (libverilua_register_rw_synch_cb X w) = env w"
  "env (libverilua_do_register_next_sim_time_cb X w) = env w"
  "chunk_regs (vpi_log (libverilua_register_rw_synch_cb X w)) = chunk_regs (vpi_log w)"
  "chunk_regs (vpi_log (libverilua_do_register_next_sim_time_cb X w)) = chunk_regs (vpi_log w)"
  by (simp_all add: libverilua_register_rw_synch_cb_def libverilua_do_register_next_sim_time_cb_def
      register_and_free_eq)

lemma register_pending_grows:
  assumes X: "slab_vacant_ok X" and C: "feat_chunk_task C"
    and fin: "finite (dom (edge_cb_slab (env w)))"
    and dist: "\<forall>et. distinct (map fst (pending_cb_map (env w) et))"
    and w': "register_pending X C w = Inr w'"
  shows "\<exists>ds. chunk_regs (vpi_log w') = chunk_regs (vpi_log w) @ ds
     \<and> (\<forall>r et. tasks_for ds r et = pending_tasks w r et)
     \<and> (\<forall>d \<in> set ds. 1 \<le> length (ecb_task_ids d) \<and> length (ecb_task_ids d) \<le> 16)
     \<and> distinct (map ecb_callback_id ds)
     \<and> dom (edge_cb_slab (env w')) = dom (edge_cb_slab (env w)) \<union> set (map ecb_callback_id ds)
     \<and> (\<forall>et. pending_cb_map (env w') et = [])"
proof -
  let ?m = "pending_cb_map (env w)"
  obtain w1 w2 w3 where w1: "register_all_chunks X Posedge (?m Posedge) w = Inr w1"
    and w2: "register_all_chunks X Negedge (?m Negedge) w1 = Inr w2"
    and w3: "register_all_chunks X Edge (?m Edge) w2 = Inr w3"
    and w'': "w' = w3\<lparr>env := (env w3)\<lparr>pending_cb_map := (\<lambda>_. [])\<rparr>\<rparr>"
    using w' C by (auto simp: register_pending_def and_then_eq_Inr)
  obtain ds where ds: "grows w w1 ds" "map chunk_of ds = pending_chunks (?m Posedge)"
      "\<forall>d \<in> set ds. ecb_edge_type d = Posedge" using register_all_grows [OF X fin w1] by blast
  then have "finite (dom (edge_cb_slab (env w1)))" by (metis grows_finite)
  then obtain es where es: "grows w1 w2 es" "map chunk_of es = pending_chunks (?m Negedge)"
      "\<forall>d \<in> set es. ecb_edge_type d = Negedge" using register_all_grows [OF X _ w2] by blast
  then have "finite (dom (edge_cb_slab (env w2)))" by (metis grows_finite)
  then obtain fs where fs: "grows w2 w3 fs" "map chunk_of fs = pending_chunks (?m Edge)"
      "\<forall>d \<in> set fs. ecb_edge_type d = Edge" using register_all_grows [OF X _ w3] by blast
  have g: "grows w w3 (ds @ es @ fs)"
    using grows_trans [OF ds(1) grows_trans [OF es(1) fs(1)]] .
  note other = tasks_for_other [OF ds(3)] tasks_for_other [OF es(3)] tasks_for_other [OF fs(3)]
  note own = tasks_for_chunks [OF ds(2,3)] tasks_for_chunks [OF es(2,3)] tasks_for_chunks [OF fs(2,3)]
  have "tasks_for (ds @ es @ fs) r et = pending_tasks w r et" for r et
    using dist by (cases et) (simp_all add: tasks_for_append other own pending_chunks_tasks pending_tasks_def)
  moreover have "1 \<le> length (ecb_task_ids d) \<and> length (ecb_task_ids d) \<le> 16"
    if "d \<in> set (ds @ es @ fs)" for d
  proof -
    have "chunk_of d \<in> set (pending_chunks (?m Posedge)) \<union> set (pending_chunks (?m Negedge))
        \<union> set (pending_chunks (?m Edge))"
      using that unfolding ds(2) [symmetric] es(2) [symmetric] fs(2) [symmetric] by auto
    then show ?thesis using chunks_of_length by (auto simp: pending_chunks_def chunk_of_def)
  qed
  ultimately show ?thesis
    using g by (intro exI [of _ "ds @ es @ fs"]) (simp add: w'' grows_def)
qed

text \<open>C7. At the next time step (chunked builds without reference counts) every task that waits for
  an edge of a signal is registered exactly once and in order, in chunks of 1 to 16 tasks with fresh
  ids that the slab records, and no wait stays pending.\<close>

theorem next_sim_time_registers_all:
  assumes "slab_vacant_ok X" and "feat_chunk_task C" and "feat_opt_cb_task C" and "\<not> feat_merge_cb C"
    and "finite (dom (edge_cb_slab (env w)))"
    and "\<forall>et. distinct (map fst (pending_cb_map (env w) et))"
    and "run_next_sim_time_cb X C w = Inr w'"
  shows "\<exists>ds. chunk_regs (vpi_log w') = chunk_regs (vpi_log w) @ ds
     \<and> (\<forall>r et. tasks_for ds r et = pending_tasks w r et)
     \<and> (\<forall>d \<in> set ds. 1 \<le> length (ecb_task_ids d) \<and> length (ecb_task_ids d) \<le> 16)
     \<and> distinct (map ecb_callback_id ds)
     \<and> dom (edge_cb_slab (env w')) = dom (edge_cb_slab (env w)) \<union> set (map ecb_callback_id ds)
     \<and> (\<forall>et. pending_cb_map (env w') et = [])"
proof -
  let ?w = "w\<lparr>env := (env w)\<lparr>rw_phase_passed := False, rw_cb_re_registered := False\<rparr>\<rparr>"
  obtain w2 where w2: "register_pending X C ?w = Inr w2"
    and w': "w' = (if feat_wave_vpi C then libverilua_do_register_next_sim_time_cb X w2
                   else libverilua_register_rw_synch_cb X w2)"
    using assms(3,4,7) by (auto simp: run_next_sim_time_cb_def merge_pending_def and_then_eq_Inr)
  have "pending_tasks ?w = pending_tasks w" by (simp add: pending_tasks_def fun_eq_iff)
  then show ?thesis
    using register_pending_grows [OF assms(1,2) _ _ w2] assms(5,6) by (simp add: w')
qed

definition wait_all :: "externals \<Rightarrow> features \<Rightarrow> edge_type \<Rightarrow> raw \<Rightarrow> task_id list \<Rightarrow> world \<Rightarrow> world res" where
  "wait_all X C et r = fold_res (vpiml_register_edge_callback X C et r)"

lemma wait_slab:
  "feat_opt_cb_task C \<Longrightarrow> vpiml_register_edge_callback X C et r t w = Inr w' \<Longrightarrow>
   edge_cb_slab (env w') = edge_cb_slab (env w)"
  by (auto simp: vpiml_register_edge_callback_def and_then_eq_Inr Let_def add_pending_def
      add_pending_info_def split: if_splits)

lemma wait_all_slab:
  assumes "feat_opt_cb_task C" and "wait_all X C et r ts w = Inr w'"
  shows "edge_cb_slab (env w') = edge_cb_slab (env w)"
  by (rule fold_res_invariant [where P="\<lambda>v. edge_cb_slab (env v) = edge_cb_slab (env w)"])
    (use assms wait_slab in \<open>auto simp: wait_all_def\<close>)

definition demo_waiting :: world where
  "demo_waiting = projr (wait_all recording_sim verilator_build Posedge 1 [3..<23] demo_world)"

lemma next_sim_time_registers_all_witness:
  "\<exists>w' ds. run_next_sim_time_cb recording_sim verilator_build demo_waiting = Inr w'
     \<and> chunk_regs (vpi_log w') = ds \<and> tasks_for ds 1 Posedge = [3..<23] \<and> length ds = 2"
proof -
  let ?m = "run_next_sim_time_cb recording_sim verilator_build demo_waiting"
  have pend: "pending_cb_map (env demo_waiting) Posedge = [(1, [3..<23])]"
    "pending_cb_map (env demo_waiting) Negedge = []" "pending_cb_map (env demo_waiting) Edge = []"
    "chunk_regs (vpi_log demo_waiting) = []" by code_simp+
  have "case ?m of Inl e \<Rightarrow> False | Inr w' \<Rightarrow> length (chunk_regs (vpi_log w')) = 2" by code_simp
  then obtain w' where w': "?m = Inr w'" and len: "length (chunk_regs (vpi_log w')) = 2"
    by (auto split: sum.splits)
  have "ok (wait_all recording_sim verilator_build Posedge 1 [3..<23] demo_world)" by code_simp
  then have "wait_all recording_sim verilator_build Posedge 1 [3..<23] demo_world = Inr demo_waiting"
    by (auto simp: ok_iff demo_waiting_def)
  moreover have "feat_opt_cb_task verilator_build" by code_simp
  ultimately have "edge_cb_slab (env demo_waiting) = Map.empty"
    using wait_all_slab by (simp add: default_env_def)
  then have fin: "finite (dom (edge_cb_slab (env demo_waiting)))" by simp
  have dist: "\<forall>et. distinct (map fst (pending_cb_map (env demo_waiting) et))"
  proof
    fix et show "distinct (map fst (pending_cb_map (env demo_waiting) et))"
      by (cases et) (simp_all add: pend)
  qed
  have f: "feat_chunk_task verilator_build" "feat_opt_cb_task verilator_build"
    "\<not> feat_merge_cb verilator_build" by code_simp+
  obtain ds where "chunk_regs (vpi_log w') = chunk_regs (vpi_log demo_waiting) @ ds"
      and "\<forall>r et. tasks_for ds r et = pending_tasks demo_waiting r et"
    using next_sim_time_registers_all [OF slab_vacant_recording_sim f fin dist w']
    by (elim exE conjE) (rule that)
  then have "chunk_regs (vpi_log w') = ds" "tasks_for ds 1 Posedge = pending_tasks demo_waiting 1 Posedge"
    by (simp_all add: pend)
  moreover have "pending_tasks demo_waiting 1 Posedge = [3..<23]" by (simp add: pending_tasks_def pend)
  ultimately have "tasks_for ds 1 Posedge = [3..<23]" "length ds = 2" "chunk_regs (vpi_log w') = ds"
    using len by simp_all
  then show ?thesis using w' by (intro exI [of _ w'] exI [of _ ds] conjI)
qed

subsection \<open>Reference counts\<close>

definition counts_cover :: "(task_id \<rightharpoonup> u32) \<Rightarrow> task_id list \<Rightarrow> bool" where
  "counts_cover m ts \<longleftrightarrow> (\<forall>t \<in> set ts. \<exists>n. m t = Some n \<and> count_list ts t \<le> unat n)"

definition dec_map :: "(task_id \<rightharpoonup> u32) \<Rightarrow> task_id list \<Rightarrow> task_id \<rightharpoonup> u32" where
  "dec_map m ts = (\<lambda>t. map_option (\<lambda>n. n - of_nat (count_list ts t)) (m t))"

definition exhausted :: "(task_id \<rightharpoonup> u32) \<Rightarrow> task_id list \<Rightarrow> task_id set" where
  "exhausted m ts = {t \<in> set ts. \<exists>n. m t = Some n \<and> unat n = count_list ts t}"

lemma unat_minus_1: "0 < unat n \<Longrightarrow> unat (n - 1 :: u32) = unat n - 1"
  by (metis One_nat_def less_eq_Suc_le unat_1 unat_sub word_less_eq_iff_unsigned)

lemma dec_counts_spec:
  "counts_cover m ts \<Longrightarrow>
   \<exists>fin. dec_counts m ts = Inr (dec_map m ts, fin) \<and> set fin = exhausted m ts"
proof (induction ts arbitrary: m)
  case Nil
  have "map_option (\<lambda>n. n) (m t) = m t" for t by (cases "m t") simp_all
  then show ?case by (simp add: dec_map_def exhausted_def)
next
  case (Cons t ts)
  obtain n where n: "m t = Some n" "Suc (count_list ts t) \<le> unat n"
    using Cons.prems by (auto simp: counts_cover_def)
  have un: "unat (n - 1) = unat n - 1" using n(2) by (intro unat_minus_1) simp
  have cover: "counts_cover (m(t \<mapsto> n - 1)) ts"
    using Cons.prems n un by (fastforce simp: counts_cover_def)
  obtain fin where fin: "dec_counts (m(t \<mapsto> n - 1)) ts = Inr (dec_map (m(t \<mapsto> n - 1)) ts, fin)"
    "set fin = exhausted (m(t \<mapsto> n - 1)) ts" using Cons.IH [OF cover] by blast
  have "dec_map (m(t \<mapsto> n - 1)) ts = dec_map m (t # ts)"
    using n(1) by (auto simp: dec_map_def fun_eq_iff algebra_simps)
  moreover have "set (if n - 1 = 0 then t # fin else fin) = exhausted m (t # ts)"
  proof -
    have z: "n - 1 = 0 \<longleftrightarrow> unat n = 1" using un n(2) by (simp add: word_unat_eq_iff) arith
    have t: "t \<in> exhausted (m(t \<mapsto> n - 1)) ts \<longleftrightarrow> t \<in> set ts \<and> unat n = Suc (count_list ts t)"
      using un n(2) by (auto simp: exhausted_def)
    have t': "t \<in> exhausted m (t # ts) \<longleftrightarrow> unat n = Suc (count_list ts t)"
      using n(1) by (simp add: exhausted_def)
    have s: "s \<in> exhausted (m(t \<mapsto> n - 1)) ts \<longleftrightarrow> s \<in> exhausted m (t # ts)" if "s \<noteq> t" for s
      using that by (auto simp: exhausted_def)
    have c: "count_list ts t = 0 \<longleftrightarrow> t \<notin> set ts" by (rule count_list_0_iff)
    have e: "t \<in> exhausted m (t # ts) \<longleftrightarrow> n - 1 = 0 \<or> t \<in> exhausted (m(t \<mapsto> n - 1)) ts"
      unfolding z t t' using c n(2) by auto
    show ?thesis
    proof (rule set_eqI)
      fix s show "s \<in> set (if n - 1 = 0 then t # fin else fin) \<longleftrightarrow> s \<in> exhausted m (t # ts)"
        using e s [of s] by (cases "s = t"; cases "n - 1 = 0") (simp_all add: fin(2))
    qed
  qed
  ultimately show ?case using n(1) fin(1) by auto
qed

text \<open>C14. A matching edge on a shared chunk lowers the count of each of its tasks by its occurrences in
  the chunk. If no count reaches zero the callback stays registered; otherwise the exhausted counts
  are dropped and the callback leaves the slab and the simulator.\<close>

theorem chunk_callback_counts:
  assumes "edge_fires (ecb_edge_type d) v" and "feat_merge_cb C"
    and "call_sim_event_chunk X (length (ecb_task_ids d)) (ecb_task_ids d) w = (None, w1)"
    and "chdls w1 (ecb_handle d) = Some c"
    and "counts_cover (cb_count c (ecb_edge_type d)) (ecb_task_ids d)"
    and "edge_cb_slab (env w1) (ecb_callback_id d) = Some h"
  shows "\<exists>w' c'. run_edge_callback_chunk X C d v w = Inr w' \<and> chdls w' (ecb_handle d) = Some c'
     \<and> (let m = cb_count c (ecb_edge_type d); gone = exhausted m (ecb_task_ids d)
        in cb_count c' (ecb_edge_type d) = (\<lambda>t. if t \<in> gone then None else dec_map m (ecb_task_ids d) t)
           \<and> (if gone = {} then edge_cb_slab (env w') = edge_cb_slab (env w1) \<and> vpi_log w' = vpi_log w1
              else edge_cb_slab (env w') (ecb_callback_id d) = None
                \<and> vpi_log w' = vpi_log w1 @ [RemoveCb h]))"
proof -
  let ?et = "ecb_edge_type d" and ?ts = "ecb_task_ids d" and ?r = "ecb_handle d"
  let ?m = "cb_count c ?et"
  obtain fin where dec: "dec_counts ?m ?ts = Inr (dec_map ?m ?ts, fin)"
    and fin: "set fin = exhausted ?m ?ts" using dec_counts_spec [OF assms(5)] by blast
  show ?thesis
  proof (cases "fin = []")
    case True
    then have "run_edge_callback_chunk X C d v w =
        Inr (keep_chunk d (set_chdl ?r (set_count ?et (dec_map ?m ?ts) c) w1))"
      using assms dec by (simp add: run_edge_callback_chunk_eq or_abort_def from_raw_Some Let_def)
    moreover have "exhausted ?m ?ts = {}" using True fin by simp
    ultimately show ?thesis
      by (simp add: keep_chunk_def set_count_def Let_def)
  next
    case False
    have "exhausted ?m ?ts \<noteq> {}" using False fin by (metis set_empty)
    moreover have "run_edge_callback_chunk X C d v w = remove_edge_cb (ecb_callback_id d)
        (forget_chunk d (set_chdl ?r (set_count ?et (drop_counts fin (dec_map ?m ?ts)) c) w1))"
      using False assms dec by (simp add: run_edge_callback_chunk_eq or_abort_def from_raw_Some Let_def)
    ultimately show ?thesis
      using assms(6) fin
      by (simp add: remove_edge_cb_def forget_chunk_def set_count_def drop_counts_def vpi_remove_cb_def Let_def)
  qed
qed

subsection \<open>Tasks that wait again\<close>

text \<open>Waiting for the same edge adds one to each count and queues the tasks.\<close>

lemma wait_step:
  assumes C: "feat_opt_cb_task C" "feat_merge_cb C" "feat_chunk_task C"
    and c: "chdls w r = Some c" and e: "ch_env c"
  shows "vpiml_register_edge_callback X C et r t w =
    Inr (add_pending et r t (set_chdl r (set_count et ((cb_count c et)(t \<mapsto> count_of c et t + 1)) c) w))"
  using C c e by (simp add: vpiml_register_edge_callback_def from_complex_handle_raw_def from_raw_Some Let_def)

definition count_map :: "(task_id \<rightharpoonup> u32) \<Rightarrow> task_id list \<Rightarrow> task_id \<rightharpoonup> u32" where
  "count_map m ts = (\<lambda>t. if t \<in> set ts
     then Some ((case m t of None \<Rightarrow> 0 | Some n \<Rightarrow> n) + of_nat (count_list ts t)) else m t)"

definition queue_all :: "raw \<Rightarrow> task_id list \<Rightarrow> (raw \<times> task_id list) list \<Rightarrow> (raw \<times> task_id list) list" where
  "queue_all r ts m = fold (\<lambda>t. hm_upd r (\<lambda>v. case v of None \<Rightarrow> [t] | Some ts \<Rightarrow> ts @ [t])) ts m"

lemma wait_all_effect:
  assumes C: "feat_opt_cb_task C" "feat_merge_cb C" "feat_chunk_task C"
  shows "chdls w r = Some c \<Longrightarrow> ch_env c \<Longrightarrow> \<exists>w'. wait_all X C et r ts w = Inr w'
    \<and> (\<exists>c'. chdls w' r = Some c' \<and> cb_count c' et = count_map (cb_count c et) ts)
    \<and> pending_cb_map (env w') et = queue_all r ts (pending_cb_map (env w) et)
    \<and> (\<forall>e. e \<noteq> et \<longrightarrow> pending_cb_map (env w') e = pending_cb_map (env w) e)
    \<and> pending_cb_chunk (env w') = pending_cb_chunk (env w)
    \<and> edge_cb_slab (env w') = edge_cb_slab (env w) \<and> vpi_log w' = vpi_log w"
proof (induction ts arbitrary: w c)
  case Nil
  then show ?case by (simp add: wait_all_def count_map_def queue_all_def)
next
  case (Cons t ts)
  let ?c = "set_count et ((cb_count c et)(t \<mapsto> count_of c et t + 1)) c"
  let ?w = "add_pending et r t (set_chdl r ?c w)"
  have step: "wait_all X C et r (t # ts) w = wait_all X C et r ts ?w"
    using wait_step [OF C Cons.prems] by (simp add: wait_all_def)
  have "chdls ?w r = Some ?c" "ch_env ?c" using Cons.prems by (simp_all add: add_pending_def set_count_def)
  note IH = Cons.IH [OF this]
  have "count_map (cb_count ?c et) ts = count_map (cb_count c et) (t # ts)"
    by (auto simp: count_map_def set_count_def count_of_def fun_eq_iff count_list_0_iff algebra_simps
        split: option.splits)
  moreover have "queue_all r ts (pending_cb_map (env ?w) et) = queue_all r (t # ts) (pending_cb_map (env w) et)"
    by (simp add: queue_all_def add_pending_def)
  moreover have "e \<noteq> et \<Longrightarrow> pending_cb_map (env ?w) e = pending_cb_map (env w) e" for e
    by (simp add: add_pending_def)
  moreover have "pending_cb_chunk (env ?w) = pending_cb_chunk (env w)"
    "edge_cb_slab (env ?w) = edge_cb_slab (env w)" "vpi_log ?w = vpi_log w"
    by (simp_all add: add_pending_def)
  ultimately show ?case using IH unfolding step by simp
qed

lemma queue_all_single:
  "queue_all r ts [(r, us)] = [(r, us @ ts)]"
  by (induction ts arbitrary: us) (simp_all add: queue_all_def)

lemma queue_all_empty: "ts \<noteq> [] \<Longrightarrow> queue_all r ts [] = [(r, ts)]"
  using queue_all_single by (cases ts) (simp_all add: queue_all_def)

text \<open>The state after the callback of a chunk whose tasks all waited again.\<close>

lemma rewait_run:
  assumes "feat_opt_cb_task C" and "feat_merge_cb C" and "feat_chunk_task C"
    and "edge_fires et v" and "d = edge_data ts r et k"
    and "ts \<noteq> []" and "distinct ts"
    and "call_sim_event_chunk X (length ts) ts w = (None, w1)" and "wait_all X C et r ts w0 = Inr w1"
    and "chdls w0 r = Some c" and "ch_env c" and "\<forall>t \<in> set ts. cb_count c et t = Some 1"
    and "pending_cb_map (env w0) et = []" and "pending_cb_chunk (env w0) et = []"
  shows "\<exists>w'. run_edge_callback_chunk X C d v w = Inr w'
    \<and> (\<exists>c'. chdls w' r = Some c' \<and> (\<forall>t \<in> set ts. cb_count c' et t = Some 1))
    \<and> edge_cb_slab (env w') = edge_cb_slab (env w0) \<and> vpi_log w' = vpi_log w0
    \<and> pending_cb_map (env w') et = [(r, ts)]
    \<and> (\<forall>e. e \<noteq> et \<longrightarrow> pending_cb_map (env w') e = pending_cb_map (env w0) e)
    \<and> pending_cb_chunk (env w') = (pending_cb_chunk (env w0))(et := [(k, (r, ts))])"
proof -
  obtain c1 where c1: "chdls w1 r = Some c1" and cnt: "cb_count c1 et = count_map (cb_count c et) ts"
    and pm: "pending_cb_map (env w1) et = queue_all r ts []"
    and other: "\<forall>e. e \<noteq> et \<longrightarrow> pending_cb_map (env w1) e = pending_cb_map (env w0) e"
    and pc: "pending_cb_chunk (env w1) = pending_cb_chunk (env w0)"
    and sl: "edge_cb_slab (env w1) = edge_cb_slab (env w0)" "vpi_log w1 = vpi_log w0"
    using wait_all_effect [OF assms(1-3,10,11), of X et ts] assms(9,13) by auto
  have pm': "pending_cb_map (env w1) et = [(r, ts)]" using pm assms(6) by (simp add: queue_all_empty)
  have one: "count_list ts t = 1" if "t \<in> set ts" for t
    using assms(7) that by (simp add: count_list_eq_length_filter distinct_length_filter)
  have two: "cb_count c1 et t = Some 2" if "t \<in> set ts" for t
    using that assms(12) one by (simp add: cnt count_map_def)
  have "counts_cover (cb_count c1 et) ts" using two one by (simp add: counts_cover_def)
  then obtain fin where dec: "dec_counts (cb_count c1 et) ts = Inr (dec_map (cb_count c1 et) ts, fin)"
    and fin: "set fin = exhausted (cb_count c1 et) ts" using dec_counts_spec by blast
  have "exhausted (cb_count c1 et) ts = {}" using two one by (auto simp: exhausted_def)
  then have "fin = []" using fin by simp
  then have run: "run_edge_callback_chunk X C d v w =
      Inr (keep_chunk d (set_chdl r (set_count et (dec_map (cb_count c1 et) ts) c1) w1))"
    using assms(2,4,5,8) dec c1 by (simp add: run_edge_callback_chunk_eq or_abort_def from_raw_Some Let_def)
  have d1: "dec_map (cb_count c1 et) ts t = Some 1" if "t \<in> set ts" for t
    using two one that by (simp add: dec_map_def)
  show ?thesis
    using run sl d1 assms(5,14) pc pm' other by (simp add: keep_chunk_def set_count_def Let_def)
qed

text \<open>C15. When every task of a registered chunk waits for the same edge again while the chunk's
  callback runs, the chunk stays registered, and at the next time step nothing is registered for
  them: the second wait is served by the callback that is already there.\<close>

theorem rewait_keeps_chunk:
  assumes "feat_opt_cb_task C" and "feat_merge_cb C" and "feat_chunk_task C"
    and "edge_fires et v" and "d = edge_data ts r et k"
    and "ts \<noteq> []" and "distinct ts"
    and "call_sim_event_chunk X (length ts) ts w = (None, w1)" and "wait_all X C et r ts w0 = Inr w1"
    and "chdls w0 r = Some c" and "ch_env c" and "\<forall>t \<in> set ts. cb_count c et t = Some 1"
    and "pending_cb_map (env w0) et = []" and "pending_cb_chunk (env w0) et = []"
  shows "\<exists>w'. run_edge_callback_chunk X C d v w = Inr w'
    \<and> (\<exists>c'. chdls w' r = Some c' \<and> (\<forall>t \<in> set ts. cb_count c' et t = Some 1))
    \<and> edge_cb_slab (env w') = edge_cb_slab (env w0) \<and> vpi_log w' = vpi_log w0
    \<and> pending_cb_map (env (merge_pending C w')) et = []"
proof -
  obtain w' where w': "run_edge_callback_chunk X C d v w = Inr w'"
    "\<exists>c'. chdls w' r = Some c' \<and> (\<forall>t \<in> set ts. cb_count c' et t = Some 1)"
    "edge_cb_slab (env w') = edge_cb_slab (env w0)" "vpi_log w' = vpi_log w0"
    "pending_cb_map (env w') et = [(r, ts)]" "pending_cb_chunk (env w') et = [(k, (r, ts))]"
    using rewait_run [OF assms] by auto
  have "pending_cb_map (env (merge_pending C w')) et = []"
    using assms(2,3) w'(5,6)
    by (simp add: merge_pending_def process_cb_chunk_def process_one_chunk_def Let_def
        list_all_iff hm_remove_def filter_empty_conv)
  then show ?thesis using w' by blast
qed

subsection \<open>Concrete runs\<close>

definition demo_registered :: world where
  "demo_registered = projr (and_then (wait_all recording_sim vcs_build Posedge 1 [3, 4] demo_world)
     (run_next_sim_time_cb recording_sim vcs_build))"

definition demo_chunk :: edge_cb_data where
  "demo_chunk = edge_data [3, 4] 1 Posedge 0"

lemma demo_chunk_sel [simp]:
  "ecb_task_ids demo_chunk = [3, 4]" "ecb_handle demo_chunk = 1" "ecb_edge_type demo_chunk = Posedge"
  "ecb_callback_id demo_chunk = 0"
  by (simp_all add: demo_chunk_def)

lemma chunk_callback_counts_witness:
  "\<exists>w'. run_edge_callback_chunk recording_sim vcs_build demo_chunk 1 demo_registered = Inr w'
     \<and> edge_cb_slab (env w') 0 = None"
proof -
  define w1 where "w1 = snd (call_sim_event_chunk recording_sim 2 [3, 4] demo_registered)"
  have "case chdls w1 1 of None \<Rightarrow> False | Some c \<Rightarrow>
      cb_count c Posedge 3 = Some 1 \<and> cb_count c Posedge 4 = Some 1"
    unfolding w1_def by code_simp
  then obtain c where c: "chdls w1 1 = Some c"
    and m: "cb_count c Posedge 3 = Some 1" "cb_count c Posedge 4 = Some 1" by (auto split: option.splits)
  have "case edge_cb_slab (env w1) 0 of None \<Rightarrow> False | Some h \<Rightarrow> True" unfolding w1_def by code_simp
  then obtain h where h: "edge_cb_slab (env w1) 0 = Some h" by (auto split: option.splits)
  have call: "call_sim_event_chunk recording_sim (length [3 :: task_id, 4]) [3, 4] demo_registered = (None, w1)"
    by (simp add: w1_def call_sim_event_chunk_def call_lua_tasks_def recording_sim_def)
  have f: "edge_fires Posedge 1" "feat_merge_cb vcs_build" by code_simp+
  have cover: "counts_cover (cb_count c Posedge) [3, 4]" using m by (simp add: counts_cover_def)
  have "3 \<in> exhausted (cb_count c Posedge) [3, 4]" using m by (simp add: exhausted_def)
  then have "exhausted (cb_count c Posedge) [3, 4] \<noteq> {}" by blast
  then show ?thesis
    using chunk_callback_counts [of demo_chunk 1 vcs_build recording_sim demo_registered w1 c h]
      f call c h cover by (auto simp: Let_def)
qed

lemma wait_all_sim: "feat_opt_cb_task C \<Longrightarrow> wait_all X C = wait_all Y C"
proof -
  assume C: "feat_opt_cb_task C"
  have "vpiml_register_edge_callback X C = vpiml_register_edge_callback Y C"
    using C by (intro ext) (simp add: vpiml_register_edge_callback_def)
  then show ?thesis by (intro ext) (simp add: wait_all_def)
qed

text \<open>A Lua side whose tasks wait again every time, and one whose tasks do so once.\<close>

definition rewait_sim :: externals where
  "rewait_sim = recording_sim\<lparr>lua_pcall := (\<lambda>fn ts w.
     (None, projr (wait_all recording_sim vcs_build Posedge 1 ts w)))\<rparr>"

definition lua_calls :: "world \<Rightarrow> nat" where
  "lua_calls w = occurs (\<lambda>l. case l of LuaCall _ _ \<Rightarrow> True | _ \<Rightarrow> False) w"

definition rewait_once_sim :: externals where
  "rewait_once_sim = recording_sim\<lparr>lua_pcall := (\<lambda>fn ts w.
     (None, if lua_calls w = 1 then projr (wait_all recording_sim vcs_build Posedge 1 ts w) else w))\<rparr>"

lemma rewait_keeps_chunk_witness:
  "\<exists>w'. run_edge_callback_chunk rewait_sim vcs_build demo_chunk 1 demo_registered = Inr w'
     \<and> pending_cb_map (env (merge_pending vcs_build w')) Posedge = []"
proof -
  define w0 where "w0 = log_call (LuaCall (Sim_event_chunk 2) [3, 4]) demo_registered"
  have w0: "case chdls w0 1 of None \<Rightarrow> False | Some c \<Rightarrow> ch_env c \<and>
      cb_count c Posedge 3 = Some 1 \<and> cb_count c Posedge 4 = Some 1"
    and p: "pending_cb_map (env w0) Posedge = []" "pending_cb_chunk (env w0) Posedge = []"
    unfolding w0_def by code_simp+
  obtain c where c: "chdls w0 1 = Some c" "ch_env c"
    and m: "\<forall>t \<in> set [3, 4]. cb_count c Posedge t = Some 1" using w0 by (auto split: option.splits)
  have "ok (wait_all recording_sim vcs_build Posedge 1 [3, 4] w0)" unfolding w0_def by code_simp
  then obtain w1 where w1: "wait_all recording_sim vcs_build Posedge 1 [3, 4] w0 = Inr w1"
    by (auto simp: ok_iff)
  then have w1': "wait_all rewait_sim vcs_build Posedge 1 [3, 4] w0 = Inr w1"
    using wait_all_sim [of vcs_build rewait_sim recording_sim] by (simp add: vcs_build_def)
  have call: "call_sim_event_chunk rewait_sim (length [3 :: task_id, 4]) [3, 4] demo_registered = (None, w1)"
    using w1 by (simp add: call_sim_event_chunk_def call_lua_tasks_def rewait_sim_def w0_def
        flip: numeral_2_eq_2)
  have f: "feat_opt_cb_task vcs_build" "feat_merge_cb vcs_build" "feat_chunk_task vcs_build"
    "edge_fires Posedge 1" by code_simp+
  have "[3, 4] \<noteq> []" "distinct [3, 4 :: task_id]" by simp_all
  then show ?thesis
    using rewait_keeps_chunk [OF f demo_chunk_def _ _ call w1' c m p] by blast
qed

text \<open>Two edges in one time slot: the tasks wait again after the first and are done after the second.\<close>

definition glitch_to_step :: "world res" where
  "glitch_to_step =
     and_then (run_edge_callback_chunk rewait_once_sim vcs_build demo_chunk 1 demo_registered) (\<lambda>w1.
     and_then (run_edge_callback_chunk rewait_once_sim vcs_build demo_chunk 1 w1)
       (run_next_sim_time_cb rewait_once_sim vcs_build))"

definition glitch_run :: "world res" where
  "glitch_run = and_then glitch_to_step (run_edge_callback_chunk rewait_once_sim vcs_build demo_chunk 1)"

text \<open>The callback of a chunk whose tasks do not wait again, each with count 1: the counts and the callback go.\<close>

lemma last_edge_run:
  assumes "feat_merge_cb C" and "edge_fires et v" and "d = edge_data ts r et k"
    and "ts \<noteq> []" and "distinct ts"
    and "call_sim_event_chunk X (length ts) ts w = (None, u)"
    and "chdls u r = Some c" and "\<forall>t \<in> set ts. cb_count c et t = Some 1"
    and "edge_cb_slab (env u) k = Some h"
  shows "\<exists>w'. run_edge_callback_chunk X C d v w = Inr w'
    \<and> (\<exists>c'. chdls w' r = Some c' \<and> (\<forall>t \<in> set ts. cb_count c' et t = None))
    \<and> edge_cb_slab (env w') = (edge_cb_slab (env u))(k := None)
    \<and> vpi_log w' = vpi_log u @ [RemoveCb h]
    \<and> pending_cb_map (env w') = pending_cb_map (env u)
    \<and> pending_cb_chunk (env w') = (pending_cb_chunk (env u))(et := hm_remove k (pending_cb_chunk (env u) et))"
proof -
  have one: "count_list ts t = 1" if "t \<in> set ts" for t
    using assms(5) that by (simp add: count_list_eq_length_filter distinct_length_filter)
  have "counts_cover (cb_count c et) ts" using assms(8) one by (simp add: counts_cover_def)
  then obtain fin where dec: "dec_counts (cb_count c et) ts = Inr (dec_map (cb_count c et) ts, fin)"
    and fin: "set fin = exhausted (cb_count c et) ts" using dec_counts_spec by blast
  have ex: "exhausted (cb_count c et) ts = set ts" using assms(8) one by (auto simp: exhausted_def)
  then have "fin \<noteq> []" using fin assms(4) by auto
  then have "run_edge_callback_chunk X C d v w = remove_edge_cb k
      (forget_chunk d (set_chdl r (set_count et (drop_counts fin (dec_map (cb_count c et) ts)) c) u))"
    using assms(1-3,6,7) dec by (simp add: run_edge_callback_chunk_eq or_abort_def from_raw_Some Let_def)
  then show ?thesis
    using assms(3,9) fin ex
    by (simp add: remove_edge_cb_def forget_chunk_def set_count_def drop_counts_def vpi_remove_cb_def Let_def)
qed

lemma chunks_of_small: "ts \<noteq> [] \<Longrightarrow> length ts \<le> 16 \<Longrightarrow> chunks_of ts = [ts]"
  by (simp add: chunks_of.simps [of ts] chunks_of.simps [of "[]"])

text \<open>A time step with one small pending wait registers one chunk for it.\<close>

lemma one_wait_registered:
  assumes "feat_opt_cb_task C" "feat_merge_cb C" "feat_chunk_task C" and "ts \<noteq> []" "length ts \<le> 16"
    and "chdls w r = Some c" and "pending_cb_map (env w) = (\<lambda>e. if e = et then [(r, ts)] else [])"
    and "pending_cb_chunk (env w) = (\<lambda>_. [])"
  shows "\<exists>w' k. run_next_sim_time_cb X C w = Inr w' \<and> chdls w' = chdls w
    \<and> chunk_regs (vpi_log w') = chunk_regs (vpi_log w) @ [edge_data ts r et k]"
proof -
  let ?w = "w\<lparr>env := (env w)\<lparr>rw_phase_passed := False, rw_cb_re_registered := False\<rparr>\<rparr>"
  have merge: "merge_pending C ?w = ?w"
    using assms(8) by (simp add: merge_pending_def process_cb_chunk_def)
  have none: "register_all_chunks X e [] u = Inr u" for e u by (simp add: register_all_chunks_def)
  let ?k = "slab_vacant_key X (edge_cb_slab (env w))"
  obtain u where u: "register_all_chunks X et [(r, ts)] ?w = Inr u" "chdls u = chdls w"
      "chunk_regs (vpi_log u) = chunk_regs (vpi_log w) @ [edge_data ts r et ?k]"
      "pending_cb_map (env u) = pending_cb_map (env w)"
    using assms(6) by (simp add: register_all_chunks_def chunks_of_small [OF assms(4,5)] register_chunk_def
        with_vacant_entry_def do_register_edge_callback_chunk_def register_value_change_def from_raw_Some
        vpi_register_cb_def slab_insert_def Let_def)
  have "register_pending X C ?w = Inr (u\<lparr>env := (env u)\<lparr>pending_cb_map := (\<lambda>_. [])\<rparr>\<rparr>)"
    using assms(3,7) u(1) by (cases et) (simp_all add: register_pending_def none)
  then show ?thesis
    using assms(1) merge u
    by (simp add: run_next_sim_time_cb_def libverilua_register_rw_synch_cb_def
        libverilua_do_register_next_sim_time_cb_def register_and_free_eq) blast
qed

text \<open>C32. With reference counts, two matching edges in one time slot go wrong: if all tasks of a chunk wait
  again after the first edge and none after the second, the second takes the counts and the callback
  away but not the pending wait. The next time step registers that wait as a new chunk, and the next
  edge on it panics on the missing count, unless one of its tasks has waited for that edge in the
  meantime.\<close>

theorem double_edge_panics:
  assumes "feat_opt_cb_task C" and "feat_merge_cb C" and "feat_chunk_task C"
    and "edge_fires et v" and "d = edge_data ts r et k"
    and "ts \<noteq> []" and "distinct ts" and "length ts \<le> 16"
    and "call_sim_event_chunk X (length ts) ts w = (None, u)" and "wait_all X C et r ts w0 = Inr u"
    and "chdls w0 r = Some c" and "ch_env c" and "\<forall>t \<in> set ts. cb_count c et t = Some 1"
    and "pending_cb_map (env w0) = (\<lambda>_. [])" and "pending_cb_chunk (env w0) = (\<lambda>_. [])"
    and "edge_cb_slab (env w0) k = Some h"
    and "run_edge_callback_chunk X C d v w = Inr w1"
    and "edge_fires et v2" and "call_sim_event_chunk X (length ts) ts w1 = (None, u2)"
    and "chdls u2 = chdls w1" and "env u2 = env w1"
  shows "\<exists>w2 w3 k3. run_edge_callback_chunk X C d v2 w1 = Inr w2 \<and> edge_cb_slab (env w2) k = None
    \<and> run_next_sim_time_cb X C w2 = Inr w3
    \<and> chunk_regs (vpi_log w3) = chunk_regs (vpi_log w2) @ [edge_data ts r et k3]
    \<and> (\<forall>v3 x u3. edge_fires et v3 \<and> call_sim_event_chunk X (length ts) ts x = (None, u3) \<and> chdls u3 r = chdls w3 r
        \<longrightarrow> run_edge_callback_chunk X C (edge_data ts r et k3) v3 x = Inl (Panic ''unwrap on None''))"
proof -
  have "pending_cb_map (env w0) et = []" "pending_cb_chunk (env w0) et = []" using assms(14,15) by simp_all
  from rewait_run [OF assms(1-7,9-13) this] obtain c1 where c1: "chdls w1 r = Some c1"
    "\<forall>t \<in> set ts. cb_count c1 et t = Some 1" and sl: "edge_cb_slab (env w1) = edge_cb_slab (env w0)"
    and pm: "pending_cb_map (env w1) et = [(r, ts)]"
    and pme: "\<forall>e. e \<noteq> et \<longrightarrow> pending_cb_map (env w1) e = pending_cb_map (env w0) e"
    and pc: "pending_cb_chunk (env w1) = (pending_cb_chunk (env w0))(et := [(k, (r, ts))])"
    using assms(17) by auto
  have "chdls u2 r = Some c1" "edge_cb_slab (env u2) k = Some h"
    using c1(1) sl assms(16,20,21) by simp_all
  from last_edge_run [OF assms(2,18,5,6,7,19) this(1) c1(2) this(2)] obtain w2 c2 where
    w2: "run_edge_callback_chunk X C d v2 w1 = Inr w2" "chdls w2 r = Some c2" "\<forall>t \<in> set ts. cb_count c2 et t = None"
    "edge_cb_slab (env w2) k = None" and m2: "pending_cb_map (env w2) = pending_cb_map (env w1)"
    and p2: "pending_cb_chunk (env w2) = (pending_cb_chunk (env w1))(et := hm_remove k (pending_cb_chunk (env w1) et))"
    using assms(21) by auto
  have "pending_cb_map (env w2) = (\<lambda>e. if e = et then [(r, ts)] else [])"
    using m2 pm pme assms(14) by auto
  moreover have "pending_cb_chunk (env w2) = (\<lambda>_. [])"
    using p2 pc assms(15) by (simp add: hm_remove_def fun_eq_iff)
  ultimately obtain w3 k3 where w3: "run_next_sim_time_cb X C w2 = Inr w3" "chdls w3 = chdls w2"
    "chunk_regs (vpi_log w3) = chunk_regs (vpi_log w2) @ [edge_data ts r et k3]"
    using one_wait_registered [OF assms(1-3,6,8) w2(2)] by blast
  have "run_edge_callback_chunk X C (edge_data ts r et k3) v3 x = Inl (Panic ''unwrap on None'')"
    if "edge_fires et v3" "call_sim_event_chunk X (length ts) ts x = (None, u3)" "chdls u3 r = chdls w3 r" for v3 x u3
  proof -
    obtain t rest where ts: "ts = t # rest" using assms(6) by (cases ts) simp_all
    have "cb_count c2 et t = None" "chdls u3 r = Some c2" using w2(2,3) w3(2) that(3) ts by simp_all
    then show ?thesis using that(1,2) assms(2) ts
      by (simp add: run_edge_callback_chunk_eq or_abort_def from_raw_Some Let_def)
  qed
  then show ?thesis using w2(1,4) w3(1,3) by blast
qed

lemma rewait_once_call:
  "lua_calls w \<noteq> 0 \<Longrightarrow> call_sim_event_chunk rewait_once_sim n ts w = (None, log_call (LuaCall (Sim_event_chunk n) ts) w)"
  by (simp add: call_sim_event_chunk_def call_lua_tasks_def rewait_once_sim_def lua_calls_def)

lemma double_edge_panics_witness: "glitch_run = Inl (Panic ''unwrap on None'')"
proof -
  define w0 where "w0 = log_call (LuaCall (Sim_event_chunk 2) [3, 4]) demo_registered"
  have w0: "case chdls w0 1 of None \<Rightarrow> False | Some c \<Rightarrow> ch_env c \<and>
      cb_count c Posedge 3 = Some 1 \<and> cb_count c Posedge 4 = Some 1"
    and p: "list_all (\<lambda>e. pending_cb_map (env w0) e = [] \<and> pending_cb_chunk (env w0) e = []) [Posedge, Negedge, Edge]"
    and sl: "case edge_cb_slab (env w0) 0 of None \<Rightarrow> False | Some h \<Rightarrow> True" and l0: "lua_calls w0 = 1"
    unfolding w0_def by code_simp+
  obtain c where c: "chdls w0 1 = Some c" "ch_env c"
    and m: "\<forall>t \<in> set [3, 4]. cb_count c Posedge t = Some 1" using w0 by (auto split: option.splits)
  obtain h where h: "edge_cb_slab (env w0) 0 = Some h" using sl by (auto split: option.splits)
  have "pending_cb_map (env w0) e = [] \<and> pending_cb_chunk (env w0) e = []" for e using p by (cases e) simp_all
  then have pend: "pending_cb_map (env w0) = (\<lambda>_. [])" "pending_cb_chunk (env w0) = (\<lambda>_. [])" by auto
  have "ok (wait_all recording_sim vcs_build Posedge 1 [3, 4] w0)" unfolding w0_def by code_simp
  then obtain u where u: "wait_all recording_sim vcs_build Posedge 1 [3, 4] w0 = Inr u" by (auto simp: ok_iff)
  have wait: "wait_all rewait_once_sim vcs_build Posedge 1 [3, 4] w0 = Inr u"
    using u wait_all_sim [of vcs_build rewait_once_sim recording_sim] by (simp add: vcs_build_def)
  have call: "call_sim_event_chunk rewait_once_sim (length [3 :: task_id, 4]) [3, 4] demo_registered = (None, u)"
    using u l0 by (simp add: call_sim_event_chunk_def call_lua_tasks_def rewait_once_sim_def w0_def
        flip: numeral_2_eq_2)
  have "case run_edge_callback_chunk rewait_once_sim vcs_build demo_chunk 1 demo_registered of
      Inl e \<Rightarrow> False | Inr w1 \<Rightarrow> lua_calls w1 = 1" by code_simp
  then obtain w1 where w1: "run_edge_callback_chunk rewait_once_sim vcs_build demo_chunk 1 demo_registered = Inr w1"
    and l1: "lua_calls w1 \<noteq> 0" by (auto split: sum.splits)
  have f: "feat_opt_cb_task vcs_build" "feat_merge_cb vcs_build" "feat_chunk_task vcs_build"
    "edge_fires Posedge 1" by code_simp+
  have ts: "[3, 4] \<noteq> []" "distinct [3, 4 :: task_id]" "length [3, 4 :: task_id] \<le> 16" by simp_all
  note call2 = rewait_once_call [OF l1, of "length [3 :: task_id, 4]" "[3, 4]"]
  from double_edge_panics [OF f demo_chunk_def ts call wait c m pend h w1 f(4) call2]
  obtain w2 w3 k3 where w2: "run_edge_callback_chunk rewait_once_sim vcs_build demo_chunk 1 w1 = Inr w2"
    and w3: "run_next_sim_time_cb rewait_once_sim vcs_build w2 = Inr w3"
    and r3: "chunk_regs (vpi_log w3) = chunk_regs (vpi_log w2) @ [edge_data [3, 4] 1 Posedge k3]"
    and panics: "\<forall>v3 x u3. edge_fires Posedge v3
      \<and> call_sim_event_chunk rewait_once_sim (length [3 :: task_id, 4]) [3, 4] x = (None, u3) \<and> chdls u3 1 = chdls w3 1
        \<longrightarrow> run_edge_callback_chunk rewait_once_sim vcs_build (edge_data [3, 4] 1 Posedge k3) v3 x = Inl (Panic ''unwrap on None'')"
    by auto
  have "case glitch_to_step of Inl e \<Rightarrow> False | Inr w \<Rightarrow> lua_calls w = 2 \<and>
      ecb_callback_id (last (chunk_regs (vpi_log w))) = 0" by code_simp
  then have "lua_calls w3 \<noteq> 0" "k3 = 0" using w1 w2 w3 r3 by (auto simp: glitch_to_step_def edge_data_def)
  then have "run_edge_callback_chunk rewait_once_sim vcs_build demo_chunk 1 w3 = Inl (Panic ''unwrap on None'')"
    using panics rewait_once_call f(4) unfolding demo_chunk_def by (metis log_call_sel(2))
  then show ?thesis using w1 w2 w3 by (simp add: glitch_run_def glitch_to_step_def)
qed

text \<open>\<open>EdgeType::Edge\<close> is documented to match any transition; on a signal of more than one bit it
  skips every new value whose low byte is 3 or more.\<close>

theorem edge_skips_wide_values: "edge_fires Edge v \<longleftrightarrow> unat v mod 256 < 3"
proof -
  have u: "unat (ucast v :: u8) = unat v mod 256"
    by (simp add: unsigned_ucast_eq take_bit_eq_mod)
  have eq: "(ucast v :: u8) = k \<longleftrightarrow> unat v mod 256 = unat k" for k
    unfolding u [symmetric] by (simp add: word_unat_eq_iff)
  show ?thesis by (auto simp: edge_fires_def eq)
qed

end
