(* ===== verification/GenChunks.thy ===== *)
theory GenChunks
  imports EdgeSpec
begin

text \<open>
  The code \<^verbatim>\<open>gen/gen.lua\<close> generates for chunks of 1 to 16 tasks: \<^verbatim>\<open>gen/gen_register_callback_func.rs\<close> has a
  registration function and a callback per length, \<^verbatim>\<open>gen/gen_callback_policy.rs\<close> picks the one for each
  chunk inside an index loop over the waiting tasks. They are given here one by one, as they are in the files.
  They equal the definitions on task lists that the rest of the development uses, and serve every wait.
\<close>

subsection \<open>Registration, by length\<close>

definition do_register_edge_callback_chunk_1 ::
  "externals \<Rightarrow> raw \<Rightarrow> task_id \<Rightarrow> edge_type \<Rightarrow> nat \<Rightarrow> world \<Rightarrow> (vpiHandle \<times> world) res" where
  "do_register_edge_callback_chunk_1 X r t1 et k =
     register_value_change X (edge_callback_chunk 1) (edge_data [t1] r et k)"

definition do_register_edge_callback_chunk_2 ::
  "externals \<Rightarrow> raw \<Rightarrow> task_id \<Rightarrow> task_id \<Rightarrow> edge_type \<Rightarrow> nat \<Rightarrow> world \<Rightarrow>
   (vpiHandle \<times> world) res" where
  "do_register_edge_callback_chunk_2 X r t1 t2 et k =
     register_value_change X (edge_callback_chunk 2) (edge_data [t1, t2] r et k)"

definition do_register_edge_callback_chunk_3 ::
  "externals \<Rightarrow> raw \<Rightarrow> task_id \<Rightarrow> task_id \<Rightarrow> task_id \<Rightarrow> edge_type \<Rightarrow> nat \<Rightarrow> world \<Rightarrow>
   (vpiHandle \<times> world) res" where
  "do_register_edge_callback_chunk_3 X r t1 t2 t3 et k =
     register_value_change X (edge_callback_chunk 3) (edge_data [t1, t2, t3] r et k)"

definition do_register_edge_callback_chunk_4 ::
  "externals \<Rightarrow> raw \<Rightarrow> task_id \<Rightarrow> task_id \<Rightarrow> task_id \<Rightarrow> task_id \<Rightarrow> edge_type \<Rightarrow> nat \<Rightarrow> world \<Rightarrow>
   (vpiHandle \<times> world) res" where
  "do_register_edge_callback_chunk_4 X r t1 t2 t3 t4 et k =
     register_value_change X (edge_callback_chunk 4) (edge_data [t1, t2, t3, t4] r et k)"

definition do_register_edge_callback_chunk_5 ::
  "externals \<Rightarrow> raw \<Rightarrow> task_id \<Rightarrow> task_id \<Rightarrow> task_id \<Rightarrow> task_id \<Rightarrow> task_id \<Rightarrow> edge_type \<Rightarrow> nat \<Rightarrow>
   world \<Rightarrow> (vpiHandle \<times> world) res" where
  "do_register_edge_callback_chunk_5 X r t1 t2 t3 t4 t5 et k =
     register_value_change X (edge_callback_chunk 5) (edge_data [t1, t2, t3, t4, t5] r et k)"

definition do_register_edge_callback_chunk_6 ::
  "externals \<Rightarrow> raw \<Rightarrow> task_id \<Rightarrow> task_id \<Rightarrow> task_id \<Rightarrow> task_id \<Rightarrow> task_id \<Rightarrow> task_id \<Rightarrow>
   edge_type \<Rightarrow> nat \<Rightarrow> world \<Rightarrow> (vpiHandle \<times> world) res" where
  "do_register_edge_callback_chunk_6 X r t1 t2 t3 t4 t5 t6 et k =
     register_value_change X (edge_callback_chunk 6) (edge_data [t1, t2, t3, t4, t5, t6] r et k)"

definition do_register_edge_callback_chunk_7 ::
  "externals \<Rightarrow> raw \<Rightarrow> task_id \<Rightarrow> task_id \<Rightarrow> task_id \<Rightarrow> task_id \<Rightarrow> task_id \<Rightarrow> task_id \<Rightarrow>
   task_id \<Rightarrow> edge_type \<Rightarrow> nat \<Rightarrow> world \<Rightarrow> (vpiHandle \<times> world) res" where
  "do_register_edge_callback_chunk_7 X r t1 t2 t3 t4 t5 t6 t7 et k =
     register_value_change X (edge_callback_chunk 7) (edge_data [t1, t2, t3, t4, t5, t6, t7] r et k)"

definition do_register_edge_callback_chunk_8 ::
  "externals \<Rightarrow> raw \<Rightarrow> task_id \<Rightarrow> task_id \<Rightarrow> task_id \<Rightarrow> task_id \<Rightarrow> task_id \<Rightarrow> task_id \<Rightarrow>
   task_id \<Rightarrow> task_id \<Rightarrow> edge_type \<Rightarrow> nat \<Rightarrow> world \<Rightarrow> (vpiHandle \<times> world) res" where
  "do_register_edge_callback_chunk_8 X r t1 t2 t3 t4 t5 t6 t7 t8 et k =
     register_value_change X (edge_callback_chunk 8) (edge_data [t1, t2, t3, t4, t5, t6, t7, t8] r et k)"

definition do_register_edge_callback_chunk_9 ::
  "externals \<Rightarrow> raw \<Rightarrow> task_id \<Rightarrow> task_id \<Rightarrow> task_id \<Rightarrow> task_id \<Rightarrow> task_id \<Rightarrow> task_id \<Rightarrow>
   task_id \<Rightarrow> task_id \<Rightarrow> task_id \<Rightarrow> edge_type \<Rightarrow> nat \<Rightarrow> world \<Rightarrow> (vpiHandle \<times> world) res" where
  "do_register_edge_callback_chunk_9 X r t1 t2 t3 t4 t5 t6 t7 t8 t9 et k =
     register_value_change X (edge_callback_chunk 9) (edge_data [t1, t2, t3, t4, t5, t6, t7, t8, t9] r et k)"

definition do_register_edge_callback_chunk_10 ::
  "externals \<Rightarrow> raw \<Rightarrow> task_id \<Rightarrow> task_id \<Rightarrow> task_id \<Rightarrow> task_id \<Rightarrow> task_id \<Rightarrow> task_id \<Rightarrow>
   task_id \<Rightarrow> task_id \<Rightarrow> task_id \<Rightarrow> task_id \<Rightarrow> edge_type \<Rightarrow> nat \<Rightarrow> world \<Rightarrow>
   (vpiHandle \<times> world) res" where
  "do_register_edge_callback_chunk_10 X r t1 t2 t3 t4 t5 t6 t7 t8 t9 t10 et k =
     register_value_change X (edge_callback_chunk 10) (edge_data [t1, t2, t3, t4, t5, t6, t7, t8, t9, t10] r et k)"

definition do_register_edge_callback_chunk_11 ::
  "externals \<Rightarrow> raw \<Rightarrow> task_id \<Rightarrow> task_id \<Rightarrow> task_id \<Rightarrow> task_id \<Rightarrow> task_id \<Rightarrow> task_id \<Rightarrow>
   task_id \<Rightarrow> task_id \<Rightarrow> task_id \<Rightarrow> task_id \<Rightarrow> task_id \<Rightarrow> edge_type \<Rightarrow> nat \<Rightarrow> world \<Rightarrow>
   (vpiHandle \<times> world) res" where
  "do_register_edge_callback_chunk_11 X r t1 t2 t3 t4 t5 t6 t7 t8 t9 t10 t11 et k =
     register_value_change X (edge_callback_chunk 11) (edge_data [t1, t2, t3, t4, t5, t6, t7, t8, t9, t10, t11] r et k)"

definition do_register_edge_callback_chunk_12 ::
  "externals \<Rightarrow> raw \<Rightarrow> task_id \<Rightarrow> task_id \<Rightarrow> task_id \<Rightarrow> task_id \<Rightarrow> task_id \<Rightarrow> task_id \<Rightarrow>
   task_id \<Rightarrow> task_id \<Rightarrow> task_id \<Rightarrow> task_id \<Rightarrow> task_id \<Rightarrow> task_id \<Rightarrow> edge_type \<Rightarrow> nat \<Rightarrow> world \<Rightarrow>
   (vpiHandle \<times> world) res" where
  "do_register_edge_callback_chunk_12 X r t1 t2 t3 t4 t5 t6 t7 t8 t9 t10 t11 t12 et k =
     register_value_change X (edge_callback_chunk 12) (edge_data [t1, t2, t3, t4, t5, t6, t7, t8, t9, t10, t11, t12] r et k)"

definition do_register_edge_callback_chunk_13 ::
  "externals \<Rightarrow> raw \<Rightarrow> task_id \<Rightarrow> task_id \<Rightarrow> task_id \<Rightarrow> task_id \<Rightarrow> task_id \<Rightarrow> task_id \<Rightarrow>
   task_id \<Rightarrow> task_id \<Rightarrow> task_id \<Rightarrow> task_id \<Rightarrow> task_id \<Rightarrow> task_id \<Rightarrow> task_id \<Rightarrow> edge_type \<Rightarrow>
   nat \<Rightarrow> world \<Rightarrow> (vpiHandle \<times> world) res" where
  "do_register_edge_callback_chunk_13 X r t1 t2 t3 t4 t5 t6 t7 t8 t9 t10 t11 t12 t13 et k =
     register_value_change X (edge_callback_chunk 13) (edge_data [t1, t2, t3, t4, t5, t6, t7, t8, t9, t10, t11, t12, t13] r et k)"

definition do_register_edge_callback_chunk_14 ::
  "externals \<Rightarrow> raw \<Rightarrow> task_id \<Rightarrow> task_id \<Rightarrow> task_id \<Rightarrow> task_id \<Rightarrow> task_id \<Rightarrow> task_id \<Rightarrow>
   task_id \<Rightarrow> task_id \<Rightarrow> task_id \<Rightarrow> task_id \<Rightarrow> task_id \<Rightarrow> task_id \<Rightarrow> task_id \<Rightarrow> task_id \<Rightarrow>
   edge_type \<Rightarrow> nat \<Rightarrow> world \<Rightarrow> (vpiHandle \<times> world) res" where
  "do_register_edge_callback_chunk_14 X r t1 t2 t3 t4 t5 t6 t7 t8 t9 t10 t11 t12 t13 t14 et k =
     register_value_change X (edge_callback_chunk 14) (edge_data [t1, t2, t3, t4, t5, t6, t7, t8, t9, t10, t11, t12, t13, t14] r et k)"

definition do_register_edge_callback_chunk_15 ::
  "externals \<Rightarrow> raw \<Rightarrow> task_id \<Rightarrow> task_id \<Rightarrow> task_id \<Rightarrow> task_id \<Rightarrow> task_id \<Rightarrow> task_id \<Rightarrow>
   task_id \<Rightarrow> task_id \<Rightarrow> task_id \<Rightarrow> task_id \<Rightarrow> task_id \<Rightarrow> task_id \<Rightarrow> task_id \<Rightarrow> task_id \<Rightarrow>
   task_id \<Rightarrow> edge_type \<Rightarrow> nat \<Rightarrow> world \<Rightarrow> (vpiHandle \<times> world) res" where
  "do_register_edge_callback_chunk_15 X r t1 t2 t3 t4 t5 t6 t7 t8 t9 t10 t11 t12 t13 t14 t15 et k =
     register_value_change X (edge_callback_chunk 15) (edge_data [t1, t2, t3, t4, t5, t6, t7, t8, t9, t10, t11, t12, t13, t14, t15] r et k)"

definition do_register_edge_callback_chunk_16 ::
  "externals \<Rightarrow> raw \<Rightarrow> task_id \<Rightarrow> task_id \<Rightarrow> task_id \<Rightarrow> task_id \<Rightarrow> task_id \<Rightarrow> task_id \<Rightarrow>
   task_id \<Rightarrow> task_id \<Rightarrow> task_id \<Rightarrow> task_id \<Rightarrow> task_id \<Rightarrow> task_id \<Rightarrow> task_id \<Rightarrow> task_id \<Rightarrow>
   task_id \<Rightarrow> task_id \<Rightarrow> edge_type \<Rightarrow> nat \<Rightarrow> world \<Rightarrow> (vpiHandle \<times> world) res" where
  "do_register_edge_callback_chunk_16 X r t1 t2 t3 t4 t5 t6 t7 t8 t9 t10 t11 t12 t13 t14 t15 t16 et k =
     register_value_change X (edge_callback_chunk 16) (edge_data [t1, t2, t3, t4, t5, t6, t7, t8, t9, t10, t11, t12, t13, t14, t15, t16] r et k)"

lemmas chunk_register_defs =
  do_register_edge_callback_chunk_1_def
  do_register_edge_callback_chunk_2_def
  do_register_edge_callback_chunk_3_def
  do_register_edge_callback_chunk_4_def
  do_register_edge_callback_chunk_5_def
  do_register_edge_callback_chunk_6_def
  do_register_edge_callback_chunk_7_def
  do_register_edge_callback_chunk_8_def
  do_register_edge_callback_chunk_9_def
  do_register_edge_callback_chunk_10_def
  do_register_edge_callback_chunk_11_def
  do_register_edge_callback_chunk_12_def
  do_register_edge_callback_chunk_13_def
  do_register_edge_callback_chunk_14_def
  do_register_edge_callback_chunk_15_def
  do_register_edge_callback_chunk_16_def

text \<open>\<open>match chunk.len() { 1 => ..., 16 => ..., _ => unreachable!() }\<close>; the three edge types have the same arms.\<close>

definition register_chunk_match ::
  "externals \<Rightarrow> raw \<Rightarrow> task_id list \<Rightarrow> edge_type \<Rightarrow> nat \<Rightarrow> world \<Rightarrow> (vpiHandle \<times> world) res" where
  "register_chunk_match X r chunk et k w =
     (if length chunk = 1 then do_register_edge_callback_chunk_1 X r (chunk ! 0) et k w
      else if length chunk = 2 then do_register_edge_callback_chunk_2 X r (chunk ! 0) (chunk ! 1) et k w
      else if length chunk = 3 then do_register_edge_callback_chunk_3 X r (chunk ! 0) (chunk ! 1) (chunk ! 2) et k w
      else if length chunk = 4 then do_register_edge_callback_chunk_4 X r (chunk ! 0) (chunk ! 1) (chunk ! 2)
            (chunk ! 3) et k w
      else if length chunk = 5 then do_register_edge_callback_chunk_5 X r (chunk ! 0) (chunk ! 1) (chunk ! 2) (chunk ! 3)
            (chunk ! 4) et k w
      else if length chunk = 6 then do_register_edge_callback_chunk_6 X r (chunk ! 0) (chunk ! 1) (chunk ! 2) (chunk ! 3)
            (chunk ! 4) (chunk ! 5) et k w
      else if length chunk = 7 then do_register_edge_callback_chunk_7 X r (chunk ! 0) (chunk ! 1) (chunk ! 2) (chunk ! 3)
            (chunk ! 4) (chunk ! 5) (chunk ! 6) et k w
      else if length chunk = 8 then do_register_edge_callback_chunk_8 X r (chunk ! 0) (chunk ! 1) (chunk ! 2) (chunk ! 3)
            (chunk ! 4) (chunk ! 5) (chunk ! 6) (chunk ! 7) et k w
      else if length chunk = 9 then do_register_edge_callback_chunk_9 X r (chunk ! 0) (chunk ! 1) (chunk ! 2) (chunk ! 3)
            (chunk ! 4) (chunk ! 5) (chunk ! 6) (chunk ! 7) (chunk ! 8) et k w
      else if length chunk = 10 then do_register_edge_callback_chunk_10 X r (chunk ! 0) (chunk ! 1) (chunk ! 2) (chunk ! 3)
            (chunk ! 4) (chunk ! 5) (chunk ! 6) (chunk ! 7) (chunk ! 8) (chunk ! 9) et k w
      else if length chunk = 11 then do_register_edge_callback_chunk_11 X r (chunk ! 0) (chunk ! 1) (chunk ! 2) (chunk ! 3)
            (chunk ! 4) (chunk ! 5) (chunk ! 6) (chunk ! 7) (chunk ! 8) (chunk ! 9)
            (chunk ! 10) et k w
      else if length chunk = 12 then do_register_edge_callback_chunk_12 X r (chunk ! 0) (chunk ! 1) (chunk ! 2) (chunk ! 3)
            (chunk ! 4) (chunk ! 5) (chunk ! 6) (chunk ! 7) (chunk ! 8) (chunk ! 9) (chunk ! 10)
            (chunk ! 11) et k w
      else if length chunk = 13 then do_register_edge_callback_chunk_13 X r (chunk ! 0) (chunk ! 1) (chunk ! 2) (chunk ! 3)
            (chunk ! 4) (chunk ! 5) (chunk ! 6) (chunk ! 7) (chunk ! 8) (chunk ! 9) (chunk ! 10)
            (chunk ! 11) (chunk ! 12) et k w
      else if length chunk = 14 then do_register_edge_callback_chunk_14 X r (chunk ! 0) (chunk ! 1) (chunk ! 2) (chunk ! 3)
            (chunk ! 4) (chunk ! 5) (chunk ! 6) (chunk ! 7) (chunk ! 8) (chunk ! 9) (chunk ! 10)
            (chunk ! 11) (chunk ! 12) (chunk ! 13) et k w
      else if length chunk = 15 then do_register_edge_callback_chunk_15 X r (chunk ! 0) (chunk ! 1) (chunk ! 2) (chunk ! 3)
            (chunk ! 4) (chunk ! 5) (chunk ! 6) (chunk ! 7) (chunk ! 8) (chunk ! 9) (chunk ! 10)
            (chunk ! 11) (chunk ! 12) (chunk ! 13) (chunk ! 14) et k w
      else if length chunk = 16 then do_register_edge_callback_chunk_16 X r (chunk ! 0) (chunk ! 1) (chunk ! 2) (chunk ! 3)
            (chunk ! 4) (chunk ! 5) (chunk ! 6) (chunk ! 7) (chunk ! 8) (chunk ! 9) (chunk ! 10)
            (chunk ! 11) (chunk ! 12) (chunk ! 13) (chunk ! 14) (chunk ! 15) et k w
      else Inl (Panic ''unreachable''))"

definition register_chunk_generated :: "externals \<Rightarrow> edge_type \<Rightarrow> raw \<Rightarrow> task_id list \<Rightarrow> world \<Rightarrow> world res" where
  "register_chunk_generated X et r chunk =
     with_vacant_entry X (\<lambda>k. register_chunk_match X r chunk et k)"

text \<open>\<open>while idx < task_id_vec_size { let chunk_end = usize::min(idx + 16, task_id_vec_size); ... idx = chunk_end; }\<close>.\<close>

function register_idx ::
  "externals \<Rightarrow> edge_type \<Rightarrow> raw \<Rightarrow> task_id list \<Rightarrow> nat \<Rightarrow> world \<Rightarrow> world res" where
  "register_idx X et r ts idx w =
     (if idx < length ts then
        let chunk_end = min (idx + 16) (length ts);
            chunk = take (chunk_end - idx) (drop idx ts)
        in and_then (register_chunk_generated X et r chunk w) (register_idx X et r ts chunk_end)
      else Inr w)"
  by pat_completeness auto
termination by (relation "measure (\<lambda>(X, et, r, ts, idx, w). length ts - idx)") auto

declare register_idx.simps [simp del]

text \<open>\<open>for (complex_handle, task_id_vec) in &env.pending_<edge>_cb_map { let mut idx = 0; ... }\<close>.\<close>

definition register_all_generated ::
  "externals \<Rightarrow> edge_type \<Rightarrow> (raw \<times> task_id list) list \<Rightarrow> world \<Rightarrow> world res" where
  "register_all_generated X et m = fold_res (\<lambda>(r, ts). register_idx X et r ts 0) m"

subsection \<open>Callbacks, by length\<close>

definition edge_callback_chunk_1 ::
  "externals \<Rightarrow> features \<Rightarrow> edge_cb_data \<Rightarrow> u32 \<Rightarrow> world \<Rightarrow> world res" where
  "edge_callback_chunk_1 X C d v w =
     (if \<not> edge_fires (ecb_edge_type d) v then Inr w
      else
        and_then (or_abort X (call_sim_event_chunk X 1 (ecb_task_ids d) w)) (\<lambda>w1.
          if feat_merge_cb C then
            and_then (from_raw (ecb_handle d) w1) (\<lambda>c.
            and_then (dec_counts (cb_count c (ecb_edge_type d)) (ecb_task_ids d)) (\<lambda>(m, finished).
              if finished = []
              then Inr (keep_chunk d (set_chdl (ecb_handle d) (set_count (ecb_edge_type d) m c) w1))
              else remove_edge_cb (ecb_callback_id d) (forget_chunk d (set_chdl (ecb_handle d)
                     (set_count (ecb_edge_type d) (drop_counts finished m) c) w1))))
          else remove_edge_cb (ecb_callback_id d) w1))"

definition edge_callback_chunk_2 ::
  "externals \<Rightarrow> features \<Rightarrow> edge_cb_data \<Rightarrow> u32 \<Rightarrow> world \<Rightarrow> world res" where
  "edge_callback_chunk_2 X C d v w =
     (if \<not> edge_fires (ecb_edge_type d) v then Inr w
      else
        and_then (or_abort X (call_sim_event_chunk X 2 (ecb_task_ids d) w)) (\<lambda>w1.
          if feat_merge_cb C then
            and_then (from_raw (ecb_handle d) w1) (\<lambda>c.
            and_then (dec_counts (cb_count c (ecb_edge_type d)) (ecb_task_ids d)) (\<lambda>(m, finished).
              if finished = []
              then Inr (keep_chunk d (set_chdl (ecb_handle d) (set_count (ecb_edge_type d) m c) w1))
              else remove_edge_cb (ecb_callback_id d) (forget_chunk d (set_chdl (ecb_handle d)
                     (set_count (ecb_edge_type d) (drop_counts finished m) c) w1))))
          else remove_edge_cb (ecb_callback_id d) w1))"

definition edge_callback_chunk_3 ::
  "externals \<Rightarrow> features \<Rightarrow> edge_cb_data \<Rightarrow> u32 \<Rightarrow> world \<Rightarrow> world res" where
  "edge_callback_chunk_3 X C d v w =
     (if \<not> edge_fires (ecb_edge_type d) v then Inr w
      else
        and_then (or_abort X (call_sim_event_chunk X 3 (ecb_task_ids d) w)) (\<lambda>w1.
          if feat_merge_cb C then
            and_then (from_raw (ecb_handle d) w1) (\<lambda>c.
            and_then (dec_counts (cb_count c (ecb_edge_type d)) (ecb_task_ids d)) (\<lambda>(m, finished).
              if finished = []
              then Inr (keep_chunk d (set_chdl (ecb_handle d) (set_count (ecb_edge_type d) m c) w1))
              else remove_edge_cb (ecb_callback_id d) (forget_chunk d (set_chdl (ecb_handle d)
                     (set_count (ecb_edge_type d) (drop_counts finished m) c) w1))))
          else remove_edge_cb (ecb_callback_id d) w1))"

definition edge_callback_chunk_4 ::
  "externals \<Rightarrow> features \<Rightarrow> edge_cb_data \<Rightarrow> u32 \<Rightarrow> world \<Rightarrow> world res" where
  "edge_callback_chunk_4 X C d v w =
     (if \<not> edge_fires (ecb_edge_type d) v then Inr w
      else
        and_then (or_abort X (call_sim_event_chunk X 4 (ecb_task_ids d) w)) (\<lambda>w1.
          if feat_merge_cb C then
            and_then (from_raw (ecb_handle d) w1) (\<lambda>c.
            and_then (dec_counts (cb_count c (ecb_edge_type d)) (ecb_task_ids d)) (\<lambda>(m, finished).
              if finished = []
              then Inr (keep_chunk d (set_chdl (ecb_handle d) (set_count (ecb_edge_type d) m c) w1))
              else remove_edge_cb (ecb_callback_id d) (forget_chunk d (set_chdl (ecb_handle d)
                     (set_count (ecb_edge_type d) (drop_counts finished m) c) w1))))
          else remove_edge_cb (ecb_callback_id d) w1))"

definition edge_callback_chunk_5 ::
  "externals \<Rightarrow> features \<Rightarrow> edge_cb_data \<Rightarrow> u32 \<Rightarrow> world \<Rightarrow> world res" where
  "edge_callback_chunk_5 X C d v w =
     (if \<not> edge_fires (ecb_edge_type d) v then Inr w
      else
        and_then (or_abort X (call_sim_event_chunk X 5 (ecb_task_ids d) w)) (\<lambda>w1.
          if feat_merge_cb C then
            and_then (from_raw (ecb_handle d) w1) (\<lambda>c.
            and_then (dec_counts (cb_count c (ecb_edge_type d)) (ecb_task_ids d)) (\<lambda>(m, finished).
              if finished = []
              then Inr (keep_chunk d (set_chdl (ecb_handle d) (set_count (ecb_edge_type d) m c) w1))
              else remove_edge_cb (ecb_callback_id d) (forget_chunk d (set_chdl (ecb_handle d)
                     (set_count (ecb_edge_type d) (drop_counts finished m) c) w1))))
          else remove_edge_cb (ecb_callback_id d) w1))"

definition edge_callback_chunk_6 ::
  "externals \<Rightarrow> features \<Rightarrow> edge_cb_data \<Rightarrow> u32 \<Rightarrow> world \<Rightarrow> world res" where
  "edge_callback_chunk_6 X C d v w =
     (if \<not> edge_fires (ecb_edge_type d) v then Inr w
      else
        and_then (or_abort X (call_sim_event_chunk X 6 (ecb_task_ids d) w)) (\<lambda>w1.
          if feat_merge_cb C then
            and_then (from_raw (ecb_handle d) w1) (\<lambda>c.
            and_then (dec_counts (cb_count c (ecb_edge_type d)) (ecb_task_ids d)) (\<lambda>(m, finished).
              if finished = []
              then Inr (keep_chunk d (set_chdl (ecb_handle d) (set_count (ecb_edge_type d) m c) w1))
              else remove_edge_cb (ecb_callback_id d) (forget_chunk d (set_chdl (ecb_handle d)
                     (set_count (ecb_edge_type d) (drop_counts finished m) c) w1))))
          else remove_edge_cb (ecb_callback_id d) w1))"

definition edge_callback_chunk_7 ::
  "externals \<Rightarrow> features \<Rightarrow> edge_cb_data \<Rightarrow> u32 \<Rightarrow> world \<Rightarrow> world res" where
  "edge_callback_chunk_7 X C d v w =
     (if \<not> edge_fires (ecb_edge_type d) v then Inr w
      else
        and_then (or_abort X (call_sim_event_chunk X 7 (ecb_task_ids d) w)) (\<lambda>w1.
          if feat_merge_cb C then
            and_then (from_raw (ecb_handle d) w1) (\<lambda>c.
            and_then (dec_counts (cb_count c (ecb_edge_type d)) (ecb_task_ids d)) (\<lambda>(m, finished).
              if finished = []
              then Inr (keep_chunk d (set_chdl (ecb_handle d) (set_count (ecb_edge_type d) m c) w1))
              else remove_edge_cb (ecb_callback_id d) (forget_chunk d (set_chdl (ecb_handle d)
                     (set_count (ecb_edge_type d) (drop_counts finished m) c) w1))))
          else remove_edge_cb (ecb_callback_id d) w1))"

definition edge_callback_chunk_8 ::
  "externals \<Rightarrow> features \<Rightarrow> edge_cb_data \<Rightarrow> u32 \<Rightarrow> world \<Rightarrow> world res" where
  "edge_callback_chunk_8 X C d v w =
     (if \<not> edge_fires (ecb_edge_type d) v then Inr w
      else
        and_then (or_abort X (call_sim_event_chunk X 8 (ecb_task_ids d) w)) (\<lambda>w1.
          if feat_merge_cb C then
            and_then (from_raw (ecb_handle d) w1) (\<lambda>c.
            and_then (dec_counts (cb_count c (ecb_edge_type d)) (ecb_task_ids d)) (\<lambda>(m, finished).
              if finished = []
              then Inr (keep_chunk d (set_chdl (ecb_handle d) (set_count (ecb_edge_type d) m c) w1))
              else remove_edge_cb (ecb_callback_id d) (forget_chunk d (set_chdl (ecb_handle d)
                     (set_count (ecb_edge_type d) (drop_counts finished m) c) w1))))
          else remove_edge_cb (ecb_callback_id d) w1))"

definition edge_callback_chunk_9 ::
  "externals \<Rightarrow> features \<Rightarrow> edge_cb_data \<Rightarrow> u32 \<Rightarrow> world \<Rightarrow> world res" where
  "edge_callback_chunk_9 X C d v w =
     (if \<not> edge_fires (ecb_edge_type d) v then Inr w
      else
        and_then (or_abort X (call_sim_event_chunk X 9 (ecb_task_ids d) w)) (\<lambda>w1.
          if feat_merge_cb C then
            and_then (from_raw (ecb_handle d) w1) (\<lambda>c.
            and_then (dec_counts (cb_count c (ecb_edge_type d)) (ecb_task_ids d)) (\<lambda>(m, finished).
              if finished = []
              then Inr (keep_chunk d (set_chdl (ecb_handle d) (set_count (ecb_edge_type d) m c) w1))
              else remove_edge_cb (ecb_callback_id d) (forget_chunk d (set_chdl (ecb_handle d)
                     (set_count (ecb_edge_type d) (drop_counts finished m) c) w1))))
          else remove_edge_cb (ecb_callback_id d) w1))"

definition edge_callback_chunk_10 ::
  "externals \<Rightarrow> features \<Rightarrow> edge_cb_data \<Rightarrow> u32 \<Rightarrow> world \<Rightarrow> world res" where
  "edge_callback_chunk_10 X C d v w =
     (if \<not> edge_fires (ecb_edge_type d) v then Inr w
      else
        and_then (or_abort X (call_sim_event_chunk X 10 (ecb_task_ids d) w)) (\<lambda>w1.
          if feat_merge_cb C then
            and_then (from_raw (ecb_handle d) w1) (\<lambda>c.
            and_then (dec_counts (cb_count c (ecb_edge_type d)) (ecb_task_ids d)) (\<lambda>(m, finished).
              if finished = []
              then Inr (keep_chunk d (set_chdl (ecb_handle d) (set_count (ecb_edge_type d) m c) w1))
              else remove_edge_cb (ecb_callback_id d) (forget_chunk d (set_chdl (ecb_handle d)
                     (set_count (ecb_edge_type d) (drop_counts finished m) c) w1))))
          else remove_edge_cb (ecb_callback_id d) w1))"

definition edge_callback_chunk_11 ::
  "externals \<Rightarrow> features \<Rightarrow> edge_cb_data \<Rightarrow> u32 \<Rightarrow> world \<Rightarrow> world res" where
  "edge_callback_chunk_11 X C d v w =
     (if \<not> edge_fires (ecb_edge_type d) v then Inr w
      else
        and_then (or_abort X (call_sim_event_chunk X 11 (ecb_task_ids d) w)) (\<lambda>w1.
          if feat_merge_cb C then
            and_then (from_raw (ecb_handle d) w1) (\<lambda>c.
            and_then (dec_counts (cb_count c (ecb_edge_type d)) (ecb_task_ids d)) (\<lambda>(m, finished).
              if finished = []
              then Inr (keep_chunk d (set_chdl (ecb_handle d) (set_count (ecb_edge_type d) m c) w1))
              else remove_edge_cb (ecb_callback_id d) (forget_chunk d (set_chdl (ecb_handle d)
                     (set_count (ecb_edge_type d) (drop_counts finished m) c) w1))))
          else remove_edge_cb (ecb_callback_id d) w1))"

definition edge_callback_chunk_12 ::
  "externals \<Rightarrow> features \<Rightarrow> edge_cb_data \<Rightarrow> u32 \<Rightarrow> world \<Rightarrow> world res" where
  "edge_callback_chunk_12 X C d v w =
     (if \<not> edge_fires (ecb_edge_type d) v then Inr w
      else
        and_then (or_abort X (call_sim_event_chunk X 12 (ecb_task_ids d) w)) (\<lambda>w1.
          if feat_merge_cb C then
            and_then (from_raw (ecb_handle d) w1) (\<lambda>c.
            and_then (dec_counts (cb_count c (ecb_edge_type d)) (ecb_task_ids d)) (\<lambda>(m, finished).
              if finished = []
              then Inr (keep_chunk d (set_chdl (ecb_handle d) (set_count (ecb_edge_type d) m c) w1))
              else remove_edge_cb (ecb_callback_id d) (forget_chunk d (set_chdl (ecb_handle d)
                     (set_count (ecb_edge_type d) (drop_counts finished m) c) w1))))
          else remove_edge_cb (ecb_callback_id d) w1))"

definition edge_callback_chunk_13 ::
  "externals \<Rightarrow> features \<Rightarrow> edge_cb_data \<Rightarrow> u32 \<Rightarrow> world \<Rightarrow> world res" where
  "edge_callback_chunk_13 X C d v w =
     (if \<not> edge_fires (ecb_edge_type d) v then Inr w
      else
        and_then (or_abort X (call_sim_event_chunk X 13 (ecb_task_ids d) w)) (\<lambda>w1.
          if feat_merge_cb C then
            and_then (from_raw (ecb_handle d) w1) (\<lambda>c.
            and_then (dec_counts (cb_count c (ecb_edge_type d)) (ecb_task_ids d)) (\<lambda>(m, finished).
              if finished = []
              then Inr (keep_chunk d (set_chdl (ecb_handle d) (set_count (ecb_edge_type d) m c) w1))
              else remove_edge_cb (ecb_callback_id d) (forget_chunk d (set_chdl (ecb_handle d)
                     (set_count (ecb_edge_type d) (drop_counts finished m) c) w1))))
          else remove_edge_cb (ecb_callback_id d) w1))"

definition edge_callback_chunk_14 ::
  "externals \<Rightarrow> features \<Rightarrow> edge_cb_data \<Rightarrow> u32 \<Rightarrow> world \<Rightarrow> world res" where
  "edge_callback_chunk_14 X C d v w =
     (if \<not> edge_fires (ecb_edge_type d) v then Inr w
      else
        and_then (or_abort X (call_sim_event_chunk X 14 (ecb_task_ids d) w)) (\<lambda>w1.
          if feat_merge_cb C then
            and_then (from_raw (ecb_handle d) w1) (\<lambda>c.
            and_then (dec_counts (cb_count c (ecb_edge_type d)) (ecb_task_ids d)) (\<lambda>(m, finished).
              if finished = []
              then Inr (keep_chunk d (set_chdl (ecb_handle d) (set_count (ecb_edge_type d) m c) w1))
              else remove_edge_cb (ecb_callback_id d) (forget_chunk d (set_chdl (ecb_handle d)
                     (set_count (ecb_edge_type d) (drop_counts finished m) c) w1))))
          else remove_edge_cb (ecb_callback_id d) w1))"

definition edge_callback_chunk_15 ::
  "externals \<Rightarrow> features \<Rightarrow> edge_cb_data \<Rightarrow> u32 \<Rightarrow> world \<Rightarrow> world res" where
  "edge_callback_chunk_15 X C d v w =
     (if \<not> edge_fires (ecb_edge_type d) v then Inr w
      else
        and_then (or_abort X (call_sim_event_chunk X 15 (ecb_task_ids d) w)) (\<lambda>w1.
          if feat_merge_cb C then
            and_then (from_raw (ecb_handle d) w1) (\<lambda>c.
            and_then (dec_counts (cb_count c (ecb_edge_type d)) (ecb_task_ids d)) (\<lambda>(m, finished).
              if finished = []
              then Inr (keep_chunk d (set_chdl (ecb_handle d) (set_count (ecb_edge_type d) m c) w1))
              else remove_edge_cb (ecb_callback_id d) (forget_chunk d (set_chdl (ecb_handle d)
                     (set_count (ecb_edge_type d) (drop_counts finished m) c) w1))))
          else remove_edge_cb (ecb_callback_id d) w1))"

definition edge_callback_chunk_16 ::
  "externals \<Rightarrow> features \<Rightarrow> edge_cb_data \<Rightarrow> u32 \<Rightarrow> world \<Rightarrow> world res" where
  "edge_callback_chunk_16 X C d v w =
     (if \<not> edge_fires (ecb_edge_type d) v then Inr w
      else
        and_then (or_abort X (call_sim_event_chunk X 16 (ecb_task_ids d) w)) (\<lambda>w1.
          if feat_merge_cb C then
            and_then (from_raw (ecb_handle d) w1) (\<lambda>c.
            and_then (dec_counts (cb_count c (ecb_edge_type d)) (ecb_task_ids d)) (\<lambda>(m, finished).
              if finished = []
              then Inr (keep_chunk d (set_chdl (ecb_handle d) (set_count (ecb_edge_type d) m c) w1))
              else remove_edge_cb (ecb_callback_id d) (forget_chunk d (set_chdl (ecb_handle d)
                     (set_count (ecb_edge_type d) (drop_counts finished m) c) w1))))
          else remove_edge_cb (ecb_callback_id d) w1))"

lemmas chunk_callback_defs =
  edge_callback_chunk_1_def
  edge_callback_chunk_2_def
  edge_callback_chunk_3_def
  edge_callback_chunk_4_def
  edge_callback_chunk_5_def
  edge_callback_chunk_6_def
  edge_callback_chunk_7_def
  edge_callback_chunk_8_def
  edge_callback_chunk_9_def
  edge_callback_chunk_10_def
  edge_callback_chunk_11_def
  edge_callback_chunk_12_def
  edge_callback_chunk_13_def
  edge_callback_chunk_14_def
  edge_callback_chunk_15_def
  edge_callback_chunk_16_def

text \<open>The routine a registration names.\<close>

definition chunk_routine ::
  "nat \<Rightarrow> externals \<Rightarrow> features \<Rightarrow> edge_cb_data \<Rightarrow> u32 \<Rightarrow> world \<Rightarrow> world res" where
  "chunk_routine n = [edge_callback_chunk_1, edge_callback_chunk_2, edge_callback_chunk_3, edge_callback_chunk_4,
     edge_callback_chunk_5, edge_callback_chunk_6, edge_callback_chunk_7, edge_callback_chunk_8,
     edge_callback_chunk_9, edge_callback_chunk_10, edge_callback_chunk_11, edge_callback_chunk_12,
     edge_callback_chunk_13, edge_callback_chunk_14, edge_callback_chunk_15, edge_callback_chunk_16] ! (n - 1)"

subsection \<open>The generated code is the code on lists\<close>

lemma list_as_nths: "length c = n \<Longrightarrow> map ((!) c) [0..<n] = c"
  using map_nth [of c] by simp

lemma upt_numerals:
  "[0..<1] = [0]" "[0..<numeral k] = [0..<pred_numeral k] @ [pred_numeral k]"
  by (simp_all add: numeral_eq_Suc)

lemma upto_16: "list_all P [0..<17] \<Longrightarrow> n \<le> 16 \<Longrightarrow> P n"
  by (simp add: list_all_iff)

lemma register_chunk_match_eq:
  assumes "1 \<le> length chunk" and "length chunk \<le> 16"
  shows "register_chunk_match X r chunk et k w = do_register_edge_callback_chunk X r chunk et k w"
proof -
  have "list_all (\<lambda>n. length chunk = n \<and> 1 \<le> n \<longrightarrow>
      register_chunk_match X r chunk et k w = do_register_edge_callback_chunk X r chunk et k w) [0..<17]"
    using list_as_nths [OF refl, of chunk]
    by (auto simp: register_chunk_match_def chunk_register_defs do_register_edge_callback_chunk_def upt_numerals)
  from upto_16 [OF this assms(2)] assms(1) show ?thesis by blast
qed

lemma register_chunk_generated_eq:
  assumes "1 \<le> length c" and "length c \<le> 16"
  shows "register_chunk_generated X et r c = register_chunk X et r c"
proof -
  have "(\<lambda>k. register_chunk_match X r c et k) = (\<lambda>k. do_register_edge_callback_chunk X r c et k)"
    by (intro ext) (rule register_chunk_match_eq [OF assms])
  then show ?thesis by (intro ext) (simp add: register_chunk_generated_def register_chunk_def)
qed

lemma register_idx_eq: "register_idx X et r ts idx w = fold_res (register_chunk X et r) (chunks_of (drop idx ts)) w"
proof (induction X et r ts idx w rule: register_idx.induct)
  case (1 X et r ts idx w)
  show ?case
  proof (cases "idx < length ts")
    case True
    let ?e = "min (idx + 16) (length ts)"
    have chunk: "take (?e - idx) (drop idx ts) = take 16 (drop idx ts)" by (cases "idx + 16 \<le> length ts") auto
    have rest: "drop ?e ts = drop 16 (drop idx ts)" by (cases "idx + 16 \<le> length ts") (auto simp: add.commute)
    have "register_chunk_generated X et r (take 16 (drop idx ts)) = register_chunk X et r (take 16 (drop idx ts))"
      using True by (intro register_chunk_generated_eq) auto
    moreover have "chunks_of (drop idx ts) = take 16 (drop idx ts) # chunks_of (drop ?e ts)"
      using True unfolding rest by (subst chunks_of.simps) simp
    moreover have "register_idx X et r ts ?e = fold_res (register_chunk X et r) (chunks_of (drop ?e ts))"
      by (rule ext) (rule 1 [OF True refl refl])
    ultimately show ?thesis
      using True by (simp add: register_idx.simps [of X et r ts idx] Let_def chunk)
  next
    case False
    then show ?thesis by (simp add: register_idx.simps chunks_of.simps)
  qed
qed

lemma register_all_generated_eq: "register_all_generated X et m = register_all_chunks X et m"
proof -
  have "register_idx X et r ts 0 = fold_res (register_chunk X et r) (chunks_of ts)" for r ts
    by (intro ext) (simp add: register_idx_eq)
  then show ?thesis by (simp add: register_all_generated_def register_all_chunks_def)
qed

lemma chunk_routine_eq:
  assumes "1 \<le> n" and "n \<le> 16"
  shows "chunk_routine n X C d v w = edge_callback_chunk_n X C n d v w"
proof -
  have "list_all (\<lambda>n. 1 \<le> n \<longrightarrow> chunk_routine n X C d v w = edge_callback_chunk_n X C n d v w) [0..<17]"
    by (simp add: chunk_routine_def chunk_callback_defs edge_callback_chunk_n_def Let_def upt_numerals)
  from upto_16 [OF this assms(2)] assms(1) show ?thesis by blast
qed

subsection \<open>What the registrations leave in the simulator\<close>

text \<open>The call that registers chunk \<open>d\<close>: on its signal, with the routine of its length.\<close>

definition chunk_call :: "world \<Rightarrow> edge_cb_data \<Rightarrow> vpiHandle \<Rightarrow> vpi_call" where
  "chunk_call w d h = RegisterCb (cb_data cbValueChange (edge_callback_chunk (length (ecb_task_ids d)) d) 0
     (vpi_handle (the (chdls w (ecb_handle d))))) h"

text \<open>
  \<open>served w w' ds\<close>: from \<open>w\<close> to \<open>w'\<close> the chunks \<open>ds\<close> were registered one by one and nothing else happened;
  the slab holds the simulator's handle of each under a key that was free.
\<close>

definition served :: "world \<Rightarrow> world \<Rightarrow> edge_cb_data list \<Rightarrow> bool" where
  "served w w' ds \<longleftrightarrow> distinct (map ecb_callback_id ds)
     \<and> set (map ecb_callback_id ds) \<inter> dom (edge_cb_slab (env w)) = {}
     \<and> (\<exists>hs. length hs = length ds \<and>
          w' = w\<lparr>env := (env w)\<lparr>edge_cb_slab := edge_cb_slab (env w) ++ map_of (zip (map ecb_callback_id ds) hs)\<rparr>,
                 vpi_log := vpi_log w @ map2 (chunk_call w) ds hs\<rparr>)"

lemma served_refl: "served w w []"
  by (simp add: served_def)

lemma served_chdls: "served w w' ds \<Longrightarrow> chdls w' = chdls w"
  by (auto simp: served_def)

lemma served_slab: "served w w' ds \<Longrightarrow>
   dom (edge_cb_slab (env w')) = dom (edge_cb_slab (env w)) \<union> set (map ecb_callback_id ds)"
  unfolding served_def by (elim conjE exE) (simp add: dom_map_of_zip Un_commute)

lemma served_trans:
  assumes "served w w1 ds" "served w1 w2 es"
  shows "served w w2 (ds @ es)"
proof -
  obtain hs where hs: "length hs = length ds" and
    w1: "w1 = w\<lparr>env := (env w)\<lparr>edge_cb_slab := edge_cb_slab (env w) ++ map_of (zip (map ecb_callback_id ds) hs)\<rparr>,
                 vpi_log := vpi_log w @ map2 (chunk_call w) ds hs\<rparr>"
    using assms(1) unfolding served_def by blast
  obtain ks where ks: "length ks = length es" and
    w2: "w2 = w1\<lparr>env := (env w1)\<lparr>edge_cb_slab := edge_cb_slab (env w1) ++ map_of (zip (map ecb_callback_id es) ks)\<rparr>,
                 vpi_log := vpi_log w1 @ map2 (chunk_call w1) es ks\<rparr>"
    using assms(2) unfolding served_def by blast
  let ?a = "zip (map ecb_callback_id ds) hs" and ?b = "zip (map ecb_callback_id es) ks"
  have fresh: "set (map ecb_callback_id es) \<inter> (dom (edge_cb_slab (env w)) \<union> set (map ecb_callback_id ds)) = {}"
    using assms(2) served_slab [OF assms(1)] unfolding served_def by simp
  then have "dom (map_of ?a) \<inter> dom (map_of ?b) = {}"
    using hs ks by (auto simp: dom_map_of_zip)
  then have "edge_cb_slab (env w) ++ map_of ?a ++ map_of ?b
      = edge_cb_slab (env w) ++ map_of (zip (map ecb_callback_id (ds @ es)) (hs @ ks))"
    using hs map_add_comm [of "map_of ?a" "map_of ?b"] by (simp add: map_of_append flip: map_add_assoc)
  moreover have "chunk_call w1 = chunk_call w" by (simp add: w1 chunk_call_def fun_eq_iff)
  ultimately have "w2 = w\<lparr>env := (env w)\<lparr>edge_cb_slab := edge_cb_slab (env w)
        ++ map_of (zip (map ecb_callback_id (ds @ es)) (hs @ ks))\<rparr>,
      vpi_log := vpi_log w @ map2 (chunk_call w) (ds @ es) (hs @ ks)\<rparr>"
    unfolding w2 using hs by (simp add: w1)
  moreover have "length (hs @ ks) = length (ds @ es)" using hs ks by simp
  moreover have "distinct (map ecb_callback_id (ds @ es))"
    using assms fresh unfolding served_def by auto
  moreover have "set (map ecb_callback_id (ds @ es)) \<inter> dom (edge_cb_slab (env w)) = {}"
    using assms(1) fresh unfolding served_def by auto
  ultimately show ?thesis unfolding served_def by blast
qed

lemma served_finite: "served w w' ds \<Longrightarrow> finite (dom (edge_cb_slab (env w))) \<Longrightarrow> finite (dom (edge_cb_slab (env w')))"
  by (simp add: served_slab)

lemma register_chunk_served:
  assumes X: "slab_vacant_ok X" and fin: "finite (dom (edge_cb_slab (env w)))" and c: "chdls w r = Some c"
  shows "\<exists>w' d. register_chunk X et r ts w = Inr w' \<and> served w w' [d] \<and> chunk_of d = (r, ts) \<and> ecb_edge_type d = et"
proof -
  let ?k = "slab_vacant_key X (edge_cb_slab (env w))"
  let ?d = "edge_data ts r et ?k"
  let ?s = "cb_data cbValueChange (edge_callback_chunk (length ts) ?d) 0 (vpi_handle c)"
  let ?h = "register_result X ?s w"
  let ?w = "w\<lparr>env := (env w)\<lparr>edge_cb_slab := (edge_cb_slab (env w))(?k \<mapsto> ?h)\<rparr>, vpi_log := vpi_log w @ [RegisterCb ?s ?h]\<rparr>"
  have "register_chunk X et r ts w = Inr ?w"
    using c by (simp add: register_chunk_def with_vacant_entry_def do_register_edge_callback_chunk_def
        register_value_change_def from_raw_Some vpi_register_cb_def slab_insert_def log_call_def Let_def)
  moreover have "edge_cb_slab (env w) ?k = None" using X fin by (simp add: slab_vacant_ok_def)
  then have "served w ?w [?d]"
    unfolding served_def using c by (intro conjI exI [of _ "[?h]"]) (auto simp: chunk_call_def)
  ultimately show ?thesis by (intro exI [of _ ?w] exI [of _ ?d]) (simp add: chunk_of_def)
qed

lemma fold_chunks_served:
  assumes X: "slab_vacant_ok X"
  shows "finite (dom (edge_cb_slab (env w))) \<Longrightarrow> chdls w r \<noteq> None \<Longrightarrow>
    \<exists>w' ds. fold_res (register_chunk X et r) cs w = Inr w' \<and> served w w' ds
      \<and> map chunk_of ds = map (Pair r) cs \<and> (\<forall>d \<in> set ds. ecb_edge_type d = et)"
proof (induction cs arbitrary: w)
  case Nil
  then show ?case using served_refl by fastforce
next
  case (Cons c cs)
  obtain w1 d where w1: "register_chunk X et r c w = Inr w1" "served w w1 [d]" "chunk_of d = (r, c)" "ecb_edge_type d = et"
    using register_chunk_served [OF X Cons.prems(1)] Cons.prems(2) by blast
  have "finite (dom (edge_cb_slab (env w1)))" "chdls w1 r \<noteq> None"
    using served_finite [OF w1(2) Cons.prems(1)] served_chdls [OF w1(2)] Cons.prems(2) by simp_all
  from Cons.IH [OF this] obtain w' ds where ds: "fold_res (register_chunk X et r) cs w1 = Inr w'" "served w1 w' ds"
    "map chunk_of ds = map (Pair r) cs" "\<forall>d \<in> set ds. ecb_edge_type d = et" by blast
  have "served w w' (d # ds)" using served_trans [OF w1(2) ds(2)] by simp
  then show ?case using w1 ds by (intro exI [of _ w'] exI [of _ "d # ds"]) simp
qed

lemma all_chunks_served:
  assumes X: "slab_vacant_ok X"
  shows "finite (dom (edge_cb_slab (env w))) \<Longrightarrow> (\<forall>(r, ts) \<in> set m. chdls w r \<noteq> None) \<Longrightarrow>
    \<exists>w' ds. register_all_chunks X et m w = Inr w' \<and> served w w' ds
      \<and> map chunk_of ds = pending_chunks m \<and> (\<forall>d \<in> set ds. ecb_edge_type d = et)"
proof (induction m arbitrary: w)
  case Nil
  then show ?case using served_refl by (fastforce simp: register_all_chunks_def pending_chunks_def)
next
  case (Cons e m)
  obtain r ts where e: "e = (r, ts)" by (metis surj_pair)
  have "chdls w r \<noteq> None" using Cons.prems(2) by (simp add: e)
  from fold_chunks_served [OF X Cons.prems(1) this] obtain w1 ds where w1: "fold_res (register_chunk X et r) (chunks_of ts) w = Inr w1"
    "served w w1 ds" "map chunk_of ds = map (Pair r) (chunks_of ts)" "\<forall>d \<in> set ds. ecb_edge_type d = et" by blast
  have "finite (dom (edge_cb_slab (env w1)))" "\<forall>(r, ts) \<in> set m. chdls w1 r \<noteq> None"
    using served_finite [OF w1(2) Cons.prems(1)] served_chdls [OF w1(2)] Cons.prems(2) by simp_all
  from Cons.IH [OF this] obtain w' es where es: "register_all_chunks X et m w1 = Inr w'" "served w1 w' es"
    "map chunk_of es = pending_chunks m" "\<forall>d \<in> set es. ecb_edge_type d = et" by blast
  have "served w w' (ds @ es)" by (rule served_trans [OF w1(2) es(2)])
  moreover have "register_all_chunks X et (e # m) w = Inr w'"
    using w1(1) es(1) by (simp add: register_all_chunks_def e)
  ultimately show ?case using w1(3,4) es(3,4)
    by (intro exI [of _ w'] exI [of _ "ds @ es"]) (auto simp: pending_chunks_def e)
qed

text \<open>What the routine of a chunk does: nothing on another edge; else it resumes the tasks with one call.\<close>

lemma chunk_n_behaviour:
  assumes "n = length (ecb_task_ids d)"
  shows "\<not> edge_fires (ecb_edge_type d) v \<Longrightarrow> edge_callback_chunk_n X C n d v u = Inr u"
    and "edge_fires (ecb_edge_type d) v \<Longrightarrow> \<not> feat_merge_cb C \<Longrightarrow>
      lua_pcall X (Sim_event_chunk n) (ecb_task_ids d) (log_call (LuaCall (Sim_event_chunk n) (ecb_task_ids d)) u) = (None, u1) \<Longrightarrow>
      edge_cb_slab (env u1) (ecb_callback_id d) = Some h \<Longrightarrow>
      edge_callback_chunk_n X C n d v u =
        Inr (log_call (RemoveCb h) (u1\<lparr>env := (env u1)\<lparr>edge_cb_slab := (edge_cb_slab (env u1))(ecb_callback_id d := None)\<rparr>\<rparr>))"
  by (simp_all add: edge_callback_chunk_n_def call_sim_event_chunk_def call_lua_tasks_def or_abort_def
      remove_edge_cb_def vpi_remove_cb_def Let_def)

text \<open>C34. The generated loops serve every pending map of an edge, whatever its lengths: they never reach
  \<open>unreachable!\<close>, and they register exactly the waiting tasks of each signal, in order, in chunks of 1
  to 16, each on its signal with the routine of its length and under a fresh slab key that records the
  simulator's handle. The routine so registered ignores other edges; on its edge it resumes exactly the
  tasks of its chunk with one Lua call of that size and, in builds without \<open>merge_cb\<close>, takes its handle
  out of the slab and removes itself; with \<open>merge_cb\<close> it keeps the counts as \<open>run_edge_callback_chunk\<close> does.\<close>

theorem generated_chunks_serve_waits:
  assumes "slab_vacant_ok X" and "finite (dom (edge_cb_slab (env w)))" and "distinct (map fst m)"
    and "\<forall>(r, ts) \<in> set m. chdls w r \<noteq> None"
  shows "\<exists>w' ds. register_all_generated X et m w = Inr w' \<and> served w w' ds
    \<and> (\<forall>r. tasks_for ds r et = (case map_of m r of None \<Rightarrow> [] | Some ts \<Rightarrow> ts))
    \<and> (\<forall>d \<in> set ds. \<exists>n. n = length (ecb_task_ids d) \<and> 1 \<le> n \<and> n \<le> 16 \<and> ecb_edge_type d = et
        \<and> (\<forall>C v u. \<not> edge_fires et v \<longrightarrow> chunk_routine n X C d v u = Inr u)
        \<and> (\<forall>C v u u1 h. edge_fires et v \<longrightarrow> \<not> feat_merge_cb C \<longrightarrow>
             lua_pcall X (Sim_event_chunk n) (ecb_task_ids d)
               (log_call (LuaCall (Sim_event_chunk n) (ecb_task_ids d)) u) = (None, u1) \<longrightarrow>
             edge_cb_slab (env u1) (ecb_callback_id d) = Some h \<longrightarrow>
             chunk_routine n X C d v u = Inr (log_call (RemoveCb h)
               (u1\<lparr>env := (env u1)\<lparr>edge_cb_slab := (edge_cb_slab (env u1))(ecb_callback_id d := None)\<rparr>\<rparr>)))
        \<and> (\<forall>C v u. chunk_routine n X C d v u = run_edge_callback_chunk X C d v u))"
proof -
  obtain w' ds where run: "register_all_chunks X et m w = Inr w'" "served w w' ds"
    "map chunk_of ds = pending_chunks m" and et: "\<forall>d \<in> set ds. ecb_edge_type d = et"
    using all_chunks_served [OF assms(1,2,4)] by blast
  have len: "1 \<le> length (ecb_task_ids d) \<and> length (ecb_task_ids d) \<le> 16" if "d \<in> set ds" for d
  proof -
    have "chunk_of d \<in> set (pending_chunks m)" using that unfolding run(3) [symmetric] by simp
    then show ?thesis using chunks_of_length by (auto simp: pending_chunks_def chunk_of_def)
  qed
  have "tasks_for ds r et = (case map_of m r of None \<Rightarrow> [] | Some ts \<Rightarrow> ts)" for r
    using tasks_for_chunks [OF run(3) et] pending_chunks_tasks [OF assms(3)] by simp
  moreover have "register_all_generated X et m w = Inr w'" using run(1) by (simp add: register_all_generated_eq)
  moreover have "chunk_routine (length (ecb_task_ids d)) X C d v u = edge_callback_chunk_n X C (length (ecb_task_ids d)) d v u"
    if "d \<in> set ds" for d C v u using len [OF that] by (intro chunk_routine_eq) simp_all
  ultimately show ?thesis
    using run(2) et len chunk_n_behaviour [OF refl]
    by (intro exI [of _ w'] exI [of _ ds]) (simp add: run_edge_callback_chunk_def)
qed

text \<open>Eighteen tasks wait for one signal: a chunk of sixteen and one of two.\<close>

lemma generated_chunks_serve_waits_witness:
  "\<exists>w' ds. register_all_generated recording_sim Posedge [(1, [1..<19])] demo_world = Inr w'
     \<and> served demo_world w' ds \<and> tasks_for ds 1 Posedge = [1..<19]"
proof -
  have "finite (dom (edge_cb_slab (env demo_world)))" by (simp add: default_env_def)
  moreover have "\<forall>(r, ts) \<in> set [(1, [1..<19 :: task_id])]. chdls demo_world r \<noteq> None" by (simp add: demo_world_def)
  ultimately obtain w' ds where run: "register_all_generated recording_sim Posedge [(1, [1..<19])] demo_world = Inr w'"
    "served demo_world w' ds"
    and t: "\<forall>r. tasks_for ds r Posedge = (case map_of [(1, [1..<19])] r of None \<Rightarrow> [] | Some ts \<Rightarrow> ts)"
    using generated_chunks_serve_waits [OF slab_vacant_recording_sim, of demo_world "[(1, [1..<19])]" Posedge] by auto
  have "tasks_for ds 1 Posedge = [1..<19]" using spec [OF t, of 1] by simp
  then show ?thesis using run by blast
qed

end
