(* ===== verification/Callbacks.thy ===== *)
theory Callbacks
  imports EdgeCallbacks
begin

text \<open>
  The synchronisation and time callbacks of \<^verbatim>\<open>vpi_callback.rs\<close>: \<open>await_rd\<close>, \<open>await_rw\<close> with its
  flush-epoch deferral, \<open>await_nsim\<close>, timers, and the flush of the pending puts; with the bridge
  \<^verbatim>\<open>verilator_has_pending_put_values\<close> of \<^verbatim>\<open>verilator_helper.rs\<close>. A handler takes the \<open>user_data\<close> it
  was registered with.
\<close>

subsection \<open>Registration\<close>

definition vpiml_register_rd_synch_callback :: "externals \<Rightarrow> task_id \<Rightarrow> world \<Rightarrow> world" where
  "vpiml_register_rd_synch_callback X t w =
     snd (vpi_register_cb X (cb_data cbReadOnlySynch (rd_synch_callback t) 0 0) w)"

definition do_register_rw_synch_callback :: "externals \<Rightarrow> task_id \<Rightarrow> u64 \<Rightarrow> world \<Rightarrow> world" where
  "do_register_rw_synch_callback X t ep w =
     snd (vpi_register_cb X (cb_data cbReadWriteSynch (rw_synch_callback t ep) 0 0) w)"

definition vpiml_register_rw_synch_callback :: "externals \<Rightarrow> features \<Rightarrow> task_id \<Rightarrow> world \<Rightarrow> world" where
  "vpiml_register_rw_synch_callback X C t w =
     do_register_rw_synch_callback X t (if feat_inertial_put C then 0 else flush_epoch (env w)) w"

definition vpiml_register_next_sim_time_callback :: "externals \<Rightarrow> task_id \<Rightarrow> world \<Rightarrow> world" where
  "vpiml_register_next_sim_time_callback X t w =
     register_and_free X (cb_data cbNextSimTime (next_sim_time_callback t) 0 0) w"

text \<open>The delay travels as two 32-bit halves that the simulator joins.\<close>

definition vpiml_register_time_callback :: "externals \<Rightarrow> u64 \<Rightarrow> task_id \<Rightarrow> world \<Rightarrow> world" where
  "vpiml_register_time_callback X time t w =
     snd (vpi_register_cb X
           (cb_data cbAfterDelay (time_callback_handler t) (join_time (split_time time)) 0) w)"

subsection \<open>Handlers\<close>

definition set_rd_phase :: "bool \<Rightarrow> world \<Rightarrow> world" where
  "set_rd_phase b w = w\<lparr>env := (env w)\<lparr>rd_phase_active := b\<rparr>\<rparr>"

text \<open>\<open>ReadonlyPhaseGuard\<close> sets the flag and its destructor restores it, also on an error.\<close>

definition run_rd_synch_callback :: "externals \<Rightarrow> task_id \<Rightarrow> world \<Rightarrow> world res" where
  "run_rd_synch_callback X t w =
     (let previous = rd_phase_active (env w);
          (result, w1) = call_sim_event X t (set_rd_phase True w)
      in or_abort X (result, set_rd_phase previous w1))"

definition run_rw_synch_callback :: "externals \<Rightarrow> features \<Rightarrow> task_id \<Rightarrow> u64 \<Rightarrow> world \<Rightarrow> world res" where
  "run_rw_synch_callback X C t ep w =
     (if \<not> feat_inertial_put C then
        and_then (apply_pending_put_values X C w) (\<lambda>w1.
          if flush_epoch (env w1) \<noteq> ep
          then Inr (do_register_rw_synch_callback X t (flush_epoch (env w1)) w1)
          else or_abort X (call_sim_event X t w1))
      else or_abort X (call_sim_event X t w))"

definition run_next_sim_time_callback :: "externals \<Rightarrow> task_id \<Rightarrow> world \<Rightarrow> world res" where
  "run_next_sim_time_callback X t w = or_abort X (call_sim_event X t w)"

definition run_time_callback_handler :: "externals \<Rightarrow> task_id \<Rightarrow> world \<Rightarrow> world res" where
  "run_time_callback_handler X t w = or_abort X (call_sim_event X t w)"

definition run_flush_put_values :: "externals \<Rightarrow> features \<Rightarrow> world \<Rightarrow> world res" where
  "run_flush_put_values X C w =
     (if \<not> feat_inertial_put C then
        and_then (apply_pending_put_values X C w) (\<lambda>w1.
          let is_re_flush = rw_phase_passed (env w1);
              w2 = (if \<not> is_re_flush \<and> \<not> feat_inner_step C
                    then libverilua_do_register_next_sim_time_cb X w1 else w1)
          in Inr (w2\<lparr>env := (env w2)\<lparr>rw_phase_passed := True, rw_cb_re_registered := False\<rparr>\<rparr>))
      else if \<not> feat_inner_step C then Inr (libverilua_do_register_next_sim_time_cb X w)
      else Inr w)"

definition verilator_has_pending_put_values :: "features \<Rightarrow> world \<Rightarrow> bool" where
  "verilator_has_pending_put_values C w =
     (if feat_inertial_put C then False
      else rw_phase_passed (env w) \<and> hdl_put_value (env w) \<noteq> [])"

definition verilator_next_sim_time_callback :: "externals \<Rightarrow> features \<Rightarrow> world \<Rightarrow> world res" where
  "verilator_next_sim_time_callback X C w =
     (if feat_inner_step C then run_next_sim_time_cb X C w
      else Inl (Panic ''verilator_inner_step_callback is not enabled''))"

subsection \<open>Waking up after the design has settled\<close>

lemma of_nat_u64_eq_0: "k < 2 ^ 64 \<Longrightarrow> (of_nat k :: u64) = 0 \<longleftrightarrow> k = 0"
  by (cases "k = 0") (simp_all add: word_of_nat_eq_0_iff nat_dvd_not_less)

text \<open>From \<open>w\<close> to \<open>w'\<close> one read-write callback was registered, for the task \<open>t\<close> with the epoch \<open>ep\<close>.\<close>

definition awaits_rw :: "task_id \<Rightarrow> u64 \<Rightarrow> world \<Rightarrow> world \<Rightarrow> bool" where
  "awaits_rw t ep w w' \<longleftrightarrow> (\<exists>d h. w' = log_call (RegisterCb d h) w
     \<and> reason d = cbReadWriteSynch \<and> rtn d = rw_synch_callback t ep)"

lemma awaits_rw_register: "awaits_rw t ep w (do_register_rw_synch_callback X t ep w)"
  unfolding awaits_rw_def do_register_rw_synch_callback_def vpi_register_cb_def Let_def cb_data_def snd_conv
  by (intro exI conjI, rule refl) simp_all

text \<open>The registration determines the epoch.\<close>

lemma awaits_rw_unique: "awaits_rw t ep w w' \<Longrightarrow> awaits_rw t ep' w w' \<Longrightarrow> ep = ep'"
proof -
  have "c = c'" if "log_call c w = log_call c' w" for c c'
    using arg_cong [OF that, of vpi_log] by simp
  then show "awaits_rw t ep w w' \<Longrightarrow> awaits_rw t ep' w w' \<Longrightarrow> ep = ep'"
    unfolding awaits_rw_def by (metis cb_rtn.inject vpi_call.inject(2))
qed

text \<open>C8. The callback an \<open>await_rw\<close> registers carries the flush epoch of that moment. When it fires after
  \<open>k\<close> more flushes, on a simulator whose puts do not re-enter, what is pending is flushed first, and the
  task is resumed only if nothing was pending and \<open>k = 0\<close>; otherwise it is not run, and one callback is
  registered that waits with the epoch after that flush.\<close>

theorem await_rw_defers:
  assumes "quiet_put X" and "\<not> feat_inertial_put C" and "put_inv C w" and "puts_ok w"
    and "\<not> use_hdl_put_value_bak (env w)"
    and "flush_epoch (env w) = flush_epoch (env w0) + of_nat k" and "k + 1 < 2 ^ 64"
  shows "\<exists>ep. awaits_rw t ep w0 (vpiml_register_rw_synch_callback X C t w0)
    \<and> (if queued w = [] \<and> k = 0 then run_rw_synch_callback X C t ep w = or_abort X (call_sim_event X t w)
       else \<exists>w'. run_rw_synch_callback X C t ep w = Inr w'
          \<and> awaits_rw t (flush_epoch (env (flushed w))) (flushed w) w')"
proof (intro exI [of _ "flush_epoch (env w0)"] conjI)
  show "awaits_rw t (flush_epoch (env w0)) w0 (vpiml_register_rw_synch_callback X C t w0)"
    using awaits_rw_register assms(2) by (simp add: vpiml_register_rw_synch_callback_def)
  have ap: "apply_pending_put_values X C w = Inr (flushed w)"
    using apply_pending_quiet [OF assms(1,3,4)] assms(5) by simp
  have b: "hdl_put_value_bak (env w) = []" using assms(3,5) by (auto simp: put_inv_def)
  have fe: "flush_epoch (env (flushed w)) = flush_epoch (env w0) + of_nat (if queued w = [] then k else Suc k)"
    using b assms(6) by (simp add: flushed_def queued_def pending_puts_def)
  have z: "(of_nat (if queued w = [] then k else Suc k) :: u64) = 0 \<longleftrightarrow> queued w = [] \<and> k = 0"
    using assms(7) of_nat_u64_eq_0 [of k] of_nat_u64_eq_0 [of "Suc k"] by (auto simp del: of_nat_Suc)
  have run: "run_rw_synch_callback X C t (flush_epoch (env w0)) w =
      (if queued w = [] \<and> k = 0 then or_abort X (call_sim_event X t (flushed w))
       else Inr (do_register_rw_synch_callback X t (flush_epoch (env (flushed w))) (flushed w)))"
    using assms(2) ap fe z by (simp add: run_rw_synch_callback_def del: of_nat_Suc)
  have "flushed w = w" if "queued w = []" using that b by (simp add: flushed_def queued_def pending_puts_def)
  then show "if queued w = [] \<and> k = 0
      then run_rw_synch_callback X C t (flush_epoch (env w0)) w = or_abort X (call_sim_event X t w)
      else \<exists>w'. run_rw_synch_callback X C t (flush_epoch (env w0)) w = Inr w'
        \<and> awaits_rw t (flush_epoch (env (flushed w))) (flushed w) w'"
    using run awaits_rw_register by auto
qed

definition one_pending :: world where
  "one_pending = projr (deferred_op recording_sim vcs_build vpiNoDelay (OpValue 5) 1 demo_world)"

lemma one_pending_inv: "put_inv vcs_build one_pending"
proof -
  have "ok (deferred_op recording_sim vcs_build vpiNoDelay (OpValue 5) 1 demo_world)" by code_simp
  then have "deferred_op recording_sim vcs_build vpiNoDelay (OpValue 5) 1 demo_world = Inr one_pending"
    unfolding one_pending_def ok_iff by (elim exE) (simp only: sum.sel)
  moreover have "put_inv_at vcs_build 1 demo_world"
    unfolding put_inv_at_def signal_at_def by (intro conjI demo_world_inv) (simp add: demo_world_def)
  ultimately have "put_inv_at vcs_build 1 one_pending"
    using put_frame.deferred_op quiet_recording_sim by blast
  then show ?thesis by (simp add: put_inv_at_def)
qed

lemma await_rw_defers_witness:
  "\<exists>w'. run_rw_synch_callback recording_sim vcs_build 7 0 one_pending = Inr w'
     \<and> awaits_rw 7 1 (flushed one_pending) w'"
proof -
  have f: "\<not> feat_inertial_put vcs_build" "puts_ok one_pending"
    "\<not> use_hdl_put_value_bak (env one_pending)" by code_simp+
  have e: "flush_epoch (env one_pending) = flush_epoch (env demo_world) + of_nat 0" "queued one_pending = [1]"
    "flush_epoch (env (flushed one_pending)) = 1" "flush_epoch (env demo_world) = 0" by code_simp+
  obtain ep where ep: "awaits_rw 7 ep demo_world (vpiml_register_rw_synch_callback recording_sim vcs_build 7 demo_world)"
    and run: "\<exists>w'. run_rw_synch_callback recording_sim vcs_build 7 ep one_pending = Inr w'
      \<and> awaits_rw 7 1 (flushed one_pending) w'"
    using await_rw_defers [OF quiet_recording_sim f(1) one_pending_inv f(2,3) e(1), of 7] e(2,3) by auto
  have "awaits_rw 7 0 demo_world (vpiml_register_rw_synch_callback recording_sim vcs_build 7 demo_world)"
    using awaits_rw_register f(1) e(4) by (simp add: vpiml_register_rw_synch_callback_def)
  then have "ep = 0" using ep awaits_rw_unique by blast
  then show ?thesis using run by simp
qed

text \<open>C30. While an \<open>await_rd\<close> task runs, every write is refused with a panic; afterwards the
  phase flag is what it was, whatever the task did to it.\<close>

theorem await_rd_is_read_only:
  assumes "run_rd_synch_callback X t w = Inr w'"
  shows "\<exists>w1. lua_pcall X Sim_event [t] (log_call (LuaCall Sim_event [t]) (set_rd_phase True w)) = (None, w1)
    \<and> w' = set_rd_phase (rd_phase_active (env w)) w1
    \<and> (\<forall>q r. vpiml_write X C q r (log_call (LuaCall Sim_event [t]) (set_rd_phase True w)) \<notin> range Inr)"
proof -
  obtain res w1 where c: "lua_pcall X Sim_event [t] (log_call (LuaCall Sim_event [t]) (set_rd_phase True w)) = (res, w1)"
    by (metis surj_pair)
  then have "or_abort X (res, set_rd_phase (rd_phase_active (env w)) w1) = Inr w'"
    using assms by (simp add: run_rd_synch_callback_def call_sim_event_def call_lua_tasks_def Let_def)
  then have "res = None" "w' = set_rd_phase (rd_phase_active (env w)) w1"
    by (auto simp: or_abort_def and_then_eq_Inr split: option.splits)
  moreover have "vpiml_write X C q r v \<notin> range Inr" if "rd_phase_active (env v)" for q r v
    using that by (auto simp: vpiml_write_def and_then_def assert_not_rd_phase_active_def split: sum.splits)
  ultimately show ?thesis using c by (simp add: set_rd_phase_def)
qed

lemma await_rd_is_read_only_witness:
  "\<exists>w'. run_rd_synch_callback recording_sim 7 demo_world = Inr w' \<and> \<not> rd_phase_active (env w')"
proof -
  have "ok (run_rd_synch_callback recording_sim 7 demo_world)" by code_simp
  then obtain w' where w': "run_rd_synch_callback recording_sim 7 demo_world = Inr w'"
    by (auto simp: ok_iff)
  have "\<not> rd_phase_active (env demo_world)" by code_simp
  then show ?thesis
    using await_rd_is_read_only [OF w', of vcs_build] w' by (auto simp: set_rd_phase_def)
qed

end
