(* ===== verification/CallbackFrame.thy ===== *)
theory CallbackFrame
  imports Callbacks
begin

text \<open>
  What the edge tables and the callbacks are made of, as locales: a relation between worlds that every
  basic change of the tables satisfies, and that composes, holds of every registration and of the whole
  registration of a time step; one that Lua calls and flushes satisfy too holds of every callback.
\<close>

subsection \<open>The edge tables\<close>

locale table_frame =
  fixes R :: "world \<Rightarrow> world \<Rightarrow> bool"
  assumes refl: "R w w"
    and trans: "R w w1 \<Longrightarrow> R w1 w2 \<Longrightarrow> R w w2"
    and counts: "chdls w r = Some c \<Longrightarrow> R w (set_chdl r (set_count et m c) w)"
    and waits: "R w (w\<lparr>env := (env w)\<lparr>pending_cb_map := p\<rparr>\<rparr>)"
    and chunks: "R w (w\<lparr>env := (env w)\<lparr>pending_cb_chunk := ch\<rparr>\<rparr>)"
    and infos: "R w (w\<lparr>env := (env w)\<lparr>pending_cb_infos := i\<rparr>\<rparr>)"
    and slab: "R w (w\<lparr>env := (env w)\<lparr>edge_cb_slab := s\<rparr>\<rparr>)"
    and edge_reg: "R w (log_call (RegisterCb (cb_data cbValueChange (edge_callback e) 0 h) k) w)"
    and chunk_reg: "R w (log_call (RegisterCb (cb_data cbValueChange (edge_callback_chunk n e) 0 h) k) w)"
    and removed: "R w (log_call (RemoveCb h) w)"
begin

lemma slab_insert: "R w w1 \<Longrightarrow> R w (slab_insert k h w1)"
  unfolding slab_insert_def by (rule trans [OF _ slab])

lemma register_edge: "with_vacant_entry X (do_register_edge_callback X r t et) w = Inr w' \<Longrightarrow> R w w'"
  by (auto simp: with_vacant_entry_def do_register_edge_callback_def register_value_change_def
      and_then_eq_Inr vpi_register_cb_def Let_def simp del: One_nat_def intro: slab_insert edge_reg)

lemma register_chunk: "register_chunk X et r ts w = Inr w' \<Longrightarrow> R w w'"
  by (auto simp: register_chunk_def with_vacant_entry_def do_register_edge_callback_chunk_def
      register_value_change_def and_then_eq_Inr vpi_register_cb_def Let_def simp del: One_nat_def intro: slab_insert chunk_reg)

lemma remove_edge:
  assumes "remove_edge_cb k w = Inr w'"
  shows "R w w'"
proof -
  obtain h where "w' = vpi_remove_cb h (w\<lparr>env := (env w)\<lparr>edge_cb_slab := (edge_cb_slab (env w))(k := None)\<rparr>\<rparr>)"
    using assms by (auto simp: remove_edge_cb_def split: option.splits)
  then show ?thesis unfolding vpi_remove_cb_def by (simp only: trans [OF slab removed])
qed

lemma add_pending: "R w (add_pending et r t w)" "R w (add_pending_info et r t w)"
  unfolding add_pending_def add_pending_info_def Let_def by (rule waits infos)+

lemma wait:
  assumes "vpiml_register_edge_callback X C et r t w = Inr w'"
  shows "R w w'"
proof (cases "feat_opt_cb_task C")
  case True
  obtain c where c: "chdls w r = Some c"
    using assms by (auto simp: vpiml_register_edge_callback_def from_complex_handle_raw_def and_then_eq_Inr split: if_splits)
  define w1 where "w1 = (if feat_merge_cb C
    then set_chdl r (set_count et ((cb_count c et)(t \<mapsto> count_of c et t + 1)) c) w else w)"
  have "R w w1" using refl counts [OF c] by (simp add: w1_def)
  moreover have "w' \<in> {w1, add_pending et r t w1, add_pending_info et r t w1}"
    using assms True c by (auto simp: vpiml_register_edge_callback_def from_complex_handle_raw_def
        from_raw_Some and_then_eq_Inr Let_def w1_def split: if_splits)
  ultimately show ?thesis by (auto intro: trans [OF _ add_pending(1)] trans [OF _ add_pending(2)])
next
  case False
  then have "with_vacant_entry X (do_register_edge_callback X r t et) w = Inr w'"
    using assms by (auto simp: vpiml_register_edge_callback_def and_then_eq_Inr)
  then show ?thesis by (rule register_edge)
qed

lemma keep_chunk: "R w (keep_chunk d w)"
  by (simp add: keep_chunk_def Let_def refl chunks)

lemma forget_chunk: "R w (forget_chunk d w)"
  by (simp add: forget_chunk_def chunks)

text \<open>What is registered at a time step.\<close>

lemma fold_frame:
  assumes "fold_res f xs w = Inr w'" and "\<And>x v v'. f x v = Inr v' \<Longrightarrow> R v v'"
  shows "R w w'"
  using assms(1) refl by (rule fold_res_invariant [where P="R w"]) (blast intro: trans assms(2))

lemma register_all_chunks: "register_all_chunks X et m w = Inr w' \<Longrightarrow> R w w'"
  unfolding register_all_chunks_def
  by (rule fold_frame, assumption) (auto split: prod.splits intro: fold_frame register_chunk)

lemma register_all_infos: "register_all_infos X m w = Inr w' \<Longrightarrow> R w w'"
  unfolding register_all_infos_def
  by (rule fold_frame, assumption) (auto simp: and_then_eq_Inr split: prod.splits intro: fold_frame register_edge)

lemma register_pending: "register_pending X C w = Inr w' \<Longrightarrow> R w w'"
  by (cases "feat_chunk_task C")
    (auto simp: register_pending_def and_then_eq_Inr
      intro: trans [OF register_all_infos infos] trans [OF _ trans [OF register_all_chunks waits]]
        trans [OF register_all_chunks] register_all_chunks)

lemma merge_pending: "R w (merge_pending C w)"
  by (simp add: merge_pending_def refl waits)

end

subsection \<open>The callbacks\<close>

lemma or_abort_Inr: "or_abort X p = Inr w \<longleftrightarrow> p = (None, w)"
  by (cases p; cases "fst p") (auto simp: or_abort_def and_then_eq_Inr)

locale callback_frame = table_frame R for R :: "world \<Rightarrow> world \<Rightarrow> bool" +
  fixes X :: externals and C :: features
  assumes lua: "call_lua_tasks X fn ts w = (None, w') \<Longrightarrow> R w w'"
    and flush: "apply_pending_put_values X C w = Inr w' \<Longrightarrow> R w w'"
    and register_rw: "R w (do_register_rw_synch_callback X t ep w)"
    and rd_phase: "R w (set_rd_phase b w)"
begin

lemma sim_event: "or_abort X (call_sim_event X t w) = Inr w' \<Longrightarrow> R w w'"
  by (auto simp: or_abort_Inr call_sim_event_def intro: lua)

lemma sim_event_chunk: "or_abort X (call_sim_event_chunk X n ts w) = Inr w' \<Longrightarrow> R w w'"
  by (auto simp: or_abort_Inr call_sim_event_chunk_def intro: lua)

lemma time: "run_time_callback_handler X t w = Inr w' \<Longrightarrow> R w w'"
  unfolding run_time_callback_handler_def by (rule sim_event)

lemma next_sim_time: "run_next_sim_time_callback X t w = Inr w' \<Longrightarrow> R w w'"
  unfolding run_next_sim_time_callback_def by (rule sim_event)

lemma rw_synch: "run_rw_synch_callback X C t ep w = Inr w' \<Longrightarrow> R w w'"
  by (auto simp: run_rw_synch_callback_def and_then_eq_Inr split: if_splits
      intro: sim_event trans [OF flush register_rw] trans [OF flush sim_event])

lemma rd_synch:
  assumes "run_rd_synch_callback X t w = Inr w'"
  shows "R w w'"
proof -
  obtain w1 where "call_sim_event X t (set_rd_phase True w) = (None, w1)"
    "w' = set_rd_phase (rd_phase_active (env w)) w1"
    using assms by (cases "call_sim_event X t (set_rd_phase True w)")
      (auto simp: run_rd_synch_callback_def Let_def or_abort_Inr)
  then show ?thesis
    using trans [OF rd_phase trans [OF sim_event rd_phase]] by (auto simp: or_abort_Inr)
qed

lemma edge_always: "run_edge_callback_always X d v w = Inr w' \<Longrightarrow> R w w'"
  by (auto simp: run_edge_callback_always_def split: if_splits intro: refl sim_event)

lemma edge:
  assumes run: "run_edge_callback X C d v w = Inr w'"
  shows "R w w'"
proof (cases "edge_fires (ecb_edge_type d) v")
  case False
  then show ?thesis using run refl by (simp add: run_edge_callback_def Let_def)
next
  case True
  let ?r = "ecb_handle d" and ?et = "ecb_edge_type d" and ?t = "hd (ecb_task_ids d)"
  obtain w1 where w1: "or_abort X (call_sim_event X ?t w) = Inr w1"
    and rest: "(if feat_opt_cb_task C \<and> feat_merge_cb C then
       and_then (from_raw ?r w1) (\<lambda>c. case cb_count c ?et ?t of
           None \<Rightarrow> Inl (Undefined ''unwrap_unchecked on None'')
         | Some n \<Rightarrow> (let w2 = set_chdl ?r (set_count ?et ((cb_count c ?et)(?t \<mapsto> n - 1)) c) w1
                     in if n - 1 = 0 then remove_edge_cb (ecb_callback_id d) w2 else Inr w2))
     else remove_edge_cb (ecb_callback_id d) w1) = Inr w'"
    using run True unfolding run_edge_callback_def Let_def by (simp only: and_then_eq_Inr if_True not_True_eq_False if_False) blast
  have "R w1 w'"
    using rest
    by (auto simp: and_then_eq_Inr Let_def split: if_splits option.splits
        intro: remove_edge counts trans [OF counts remove_edge])
  then show ?thesis by (rule trans [OF sim_event [OF w1]])
qed

lemma edge_chunk:
  assumes run: "run_edge_callback_chunk X C d v w = Inr w'"
  shows "R w w'"
proof (cases "edge_fires (ecb_edge_type d) v")
  case False
  then show ?thesis using run refl by (simp add: run_edge_callback_chunk_eq Let_def)
next
  case True
  let ?r = "ecb_handle d" and ?et = "ecb_edge_type d" and ?k = "ecb_callback_id d"
  obtain w1 where w1: "or_abort X (call_sim_event_chunk X (length (ecb_task_ids d)) (ecb_task_ids d) w) = Inr w1"
    and rest: "remove_edge_cb ?k w1 = Inr w'
      \<or> (\<exists>c m. chdls w1 ?r = Some c \<and> (w' = keep_chunk d (set_chdl ?r (set_count ?et m c) w1)
           \<or> remove_edge_cb ?k (forget_chunk d (set_chdl ?r (set_count ?et m c) w1)) = Inr w'))"
    using run True
    by (auto simp: run_edge_callback_chunk_eq Let_def and_then_eq_Inr split: if_splits)
  then have "R w1 w'"
    using remove_edge trans [OF counts keep_chunk] trans [OF counts trans [OF forget_chunk remove_edge]] by blast
  then show ?thesis by (rule trans [OF sim_event_chunk [OF w1]])
qed

end

end
