(* ===== verification/Schedule.thy ===== *)
theory Schedule
  imports CallbackFrame
begin

text \<open>
  The life of a time slot as a state machine: the simulator fires the callbacks the library has
  registered, tasks post writes in between, and time advances only when no \<open>cbReadWriteSynch\<close>
  callback is outstanding. A state is the world with the numbers of outstanding flush and
  next-sim-time callbacks. The invariant: the machinery is always armed, and a write posted after
  the slot's flush has a flush callback that will commit it in the same slot.
\<close>

subsection \<open>What posting does\<close>

definition flush_regs :: "world \<Rightarrow> nat" where
  "flush_regs w = occurs (registers libverilua_flush_put_values) w"

definition time_regs :: "world \<Rightarrow> nat" where
  "time_regs w = occurs (registers libverilua_next_sim_time_cb) w"

text \<open>Between the two worlds, values were posted and callbacks registered, nothing was flushed away.\<close>

definition keeps_armed :: "world \<Rightarrow> world \<Rightarrow> bool" where
  "keeps_armed w w' \<longleftrightarrow>
     rw_phase_passed (env w') = rw_phase_passed (env w)
     \<and> (rw_cb_re_registered (env w) \<longrightarrow> rw_cb_re_registered (env w'))
     \<and> flush_regs w \<le> flush_regs w' \<and> time_regs w' = time_regs w
     \<and> (rw_cb_re_registered (env w') \<longrightarrow> rw_cb_re_registered (env w) \<or> flush_regs w < flush_regs w')"

definition posts :: "features \<Rightarrow> world \<Rightarrow> world \<Rightarrow> bool" where
  "posts C w w' \<longleftrightarrow>
     keeps_armed w w'
     \<and> (\<not> feat_inertial_put C \<longrightarrow> rw_phase_passed (env w) \<longrightarrow>
          (hdl_put_value (env w) \<noteq> [] \<longrightarrow> rw_cb_re_registered (env w)) \<longrightarrow>
          hdl_put_value (env w') \<noteq> [] \<longrightarrow> rw_cb_re_registered (env w'))"

lemma posts_refl: "posts C w w"
  by (simp add: posts_def keeps_armed_def)

lemma posts_trans: "posts C w w1 \<Longrightarrow> posts C w1 w2 \<Longrightarrow> posts C w w2"
  unfolding posts_def keeps_armed_def by auto

lemma occurs_set_chdl [simp]: "occurs P (set_chdl r c w) = occurs P w"
  by (simp add: occurs_def)

lemma posts_set_chdl: "posts C w (set_chdl r c w)"
  by (simp add: posts_def keeps_armed_def flush_regs_def time_regs_def)

lemma posts_log:
  "\<not> registers libverilua_flush_put_values l \<Longrightarrow> \<not> registers libverilua_next_sim_time_cb l \<Longrightarrow>
   posts C w (log_call l w)"
  by (simp add: posts_def keeps_armed_def flush_regs_def time_regs_def)

lemma posts_rand: "posts C w (w\<lparr>rand_calls := n\<rparr>)"
  by (simp add: posts_def keeps_armed_def flush_regs_def time_regs_def occurs_def)

lemma vec_remove_Nil: "vec_remove i xs \<noteq> [] \<Longrightarrow> xs \<noteq> []"
  by (auto simp: vec_remove_def)

lemma posts_remove_stale: "remove_stale C h w = Some w' \<Longrightarrow> posts C w w'"
  by (auto simp: remove_stale_def posts_def keeps_armed_def flush_regs_def time_regs_def dest: vec_remove_Nil
      split: option.splits if_splits)

lemma posts_push: "posts C w (do_push_hdl_put_value X C r w)"
  by (auto simp: do_push_hdl_put_value_def Let_def libverilua_register_rw_synch_cb_def
      register_and_free_eq posts_def keeps_armed_def flush_regs_def time_regs_def)

text \<open>
  What the simulator does inside a put (and Lua inside a call) is only to run tasks that post.
\<close>

definition only_posts :: "externals \<Rightarrow> features \<Rightarrow> bool" where
  "only_posts X C \<longleftrightarrow>
     (\<forall>h v f w w'. put_react X h v f w = Inr w' \<longrightarrow> posts C w w')
     \<and> (\<forall>fn ts w. posts C w (snd (lua_pcall X fn ts w)))"

lemma posts_put:
  assumes "only_posts X C" and "vpi_put_value X h v f w = Inr w'"
  shows "posts C w w'"
proof -
  have "posts C (log_call (PutValue h v f) w) w'"
    using assms unfolding only_posts_def vpi_put_value_def by blast
  moreover have "posts C w (log_call (PutValue h v f) w)" by (rule posts_log) simp_all
  ultimately show ?thesis by (rule posts_trans [rotated])
qed

lemma posts_lua:
  assumes "only_posts X C" and "call_lua_tasks X fn ts w = (e, w')"
  shows "posts C w w'"
proof -
  have "w' = snd (lua_pcall X fn ts (log_call (LuaCall fn ts) w))"
    using assms(2) by (simp add: call_lua_tasks_def)
  then have "posts C (log_call (LuaCall fn ts) w) w'" using assms(1) unfolding only_posts_def by blast
  moreover have "posts C w (log_call (LuaCall fn ts) w)" by (rule posts_log) simp_all
  ultimately show ?thesis by (rule posts_trans [rotated])
qed

interpretation post_frame: block_frame X C "\<lambda>w w'. only_posts X C \<longrightarrow> posts C w w'"
  for X C
  by unfold_locales
    (blast intro: posts_refl posts_trans posts_set_chdl posts_rand posts_put posts_remove_stale posts_push)+

subsection \<open>What flushing does\<close>

lemma keeps_armed_trans: "keeps_armed w w1 \<Longrightarrow> keeps_armed w1 w2 \<Longrightarrow> keeps_armed w w2"
  unfolding keeps_armed_def by auto

lemma apply_pending_keeps_armed:
  assumes X: "only_posts X C" and run: "apply_pending_put_values X C' w = Inr w'"
  shows "keeps_armed w w'"
proof (rule apply_pending_invariant [of "keeps_armed w", OF _ _ _ run])
  fix r v v' assume v: "keeps_armed w v" and a: "apply_one X r v = Inr v'"
  obtain c y f where "vpi_put_value X (vpi_handle c) y f (set_chdl r (c\<lparr>put_value_flag := None\<rparr>) v) = Inr v'"
    using a by (auto simp: apply_one_def and_then_eq_Inr split: option.splits if_splits)
  then have "posts C v v'" using posts_trans [OF posts_set_chdl posts_put [OF X]] by blast
  then show "keeps_armed w v'" using v keeps_armed_trans by (auto simp: posts_def)
next
  fix v q b u e assume "keeps_armed w v"
  then show "keeps_armed w (v\<lparr>env := (env v)\<lparr>hdl_put_value := q, hdl_put_value_bak := b,
       flush_epoch := e, use_hdl_put_value_bak := u\<rparr>\<rparr>)"
    by (simp add: keeps_armed_def flush_regs_def time_regs_def)
qed (simp add: keeps_armed_def)

lemma do_apply_empties: "do_apply_pending_put_values X w = Inr w' \<Longrightarrow> hdl_put_value (env w') = []"
  by (auto simp: do_apply_pending_put_values_def and_then_eq_Inr)

lemma flush_loop_empties:
  assumes "flush_loop X w = Some y" shows "y = Inr w' \<Longrightarrow> hdl_put_value (env w') = []"
proof -
  have "\<forall>w'. y = Inr w' \<longrightarrow> hdl_put_value (env w') = []"
  proof (rule flush_loop.raw_induct [of "\<lambda>X w y. \<forall>w'. y = Inr w' \<longrightarrow> hdl_put_value (env w') = []", OF _ assms])
    fix loop and X :: externals and w y
    assume IH: "\<And>X w y. loop X w = Some y \<Longrightarrow> \<forall>w'. y = Inr w' \<longrightarrow> hdl_put_value (env w') = []"
      and "(if hdl_put_value (env w) = [] then Some (Inr w)
        else case do_apply_pending_put_values X w of Inl e \<Rightarrow> Some (Inl e)
          | Inr w' \<Rightarrow> loop X (append_bak w')) = Some y"
    then show "\<forall>w'. y = Inr w' \<longrightarrow> hdl_put_value (env w') = []" by (auto split: if_splits sum.splits)
  qed
  then show "y = Inr w' \<Longrightarrow> hdl_put_value (env w') = []" by blast
qed

lemma apply_pending_empties:
  assumes "apply_pending_put_values X C w = Inr w'"
  shows "hdl_put_value (env w') = []"
proof (cases "hdl_put_value (env w) = []")
  case True
  then show ?thesis using assms by (simp add: apply_pending_put_values_def)
next
  case ne: False
  show ?thesis
  proof (cases "reentrant_build C")
    case True
    then show ?thesis
      using assms ne flush_loop_empties
      by (auto simp: apply_pending_put_values_def Let_def split: option.splits sum.splits)
  next
    case False
    then show ?thesis
      using assms ne do_apply_empties by (simp add: apply_pending_put_values_def Let_def)
  qed
qed

text \<open>Flushing is a form of posting: it leaves nothing queued.\<close>

lemma posts_apply_pending:
  "only_posts X C \<Longrightarrow> apply_pending_put_values X C' w = Inr w' \<Longrightarrow> posts C w w'"
  using apply_pending_keeps_armed apply_pending_empties by (fastforce simp: posts_def)

text \<open>Changes to the edge-callback tables do not touch the put queue.\<close>

definition same_slot :: "world \<Rightarrow> world \<Rightarrow> bool" where
  "same_slot w w' \<longleftrightarrow>
     hdl_put_value (env w') = hdl_put_value (env w)
     \<and> rw_phase_passed (env w') = rw_phase_passed (env w)
     \<and> rw_cb_re_registered (env w') = rw_cb_re_registered (env w)
     \<and> flush_regs w' = flush_regs w \<and> time_regs w' = time_regs w"

lemma same_slot_posts: "same_slot w w' \<Longrightarrow> posts C w w'"
  by (simp add: same_slot_def posts_def keeps_armed_def)

interpretation slot_tables: table_frame same_slot
  by unfold_locales (auto simp: same_slot_def flush_regs_def time_regs_def)

text \<open>Every callback posts, when what runs inside it does.\<close>

interpretation slot_posts: callback_frame "\<lambda>w w'. only_posts X C \<longrightarrow> posts C w w'" X C
  for X C
proof (unfold_locales; intro impI)
  show "posts C w w'" if "only_posts X C" "call_lua_tasks X fn ts w = (None, w')" for fn ts w w'
    using that by (rule posts_lua)
  show "posts C w w'" if "only_posts X C" "apply_pending_put_values X C w = Inr w'" for w w'
    using that by (rule posts_apply_pending)
  show "posts C w (do_register_rw_synch_callback X t ep w)" for t ep w
    by (simp add: do_register_rw_synch_callback_def vpi_register_cb_def Let_def posts_log)
  show "posts C w (set_rd_phase b w)" for b w
    by (rule same_slot_posts) (simp add: same_slot_def set_rd_phase_def flush_regs_def time_regs_def)
qed (blast intro: posts_refl posts_trans same_slot_posts slot_tables.counts slot_tables.waits
      slot_tables.chunks slot_tables.infos slot_tables.slab slot_tables.edge_reg slot_tables.chunk_reg
      slot_tables.removed)+

subsection \<open>The time-slot machine\<close>

type_synonym slot_state = "world \<times> nat \<times> nat"

text \<open>
  Account for the callbacks registered on the way from \<open>w\<close> to \<open>w'\<close>, given the numbers of those that
  are still outstanding of the earlier ones.
\<close>

definition slot_of :: "world \<Rightarrow> nat \<Rightarrow> nat \<Rightarrow> world \<Rightarrow> slot_state" where
  "slot_of w f n w' = (w', f + (flush_regs w' - flush_regs w), n + (time_regs w' - time_regs w))"

inductive slot_step :: "externals \<Rightarrow> features \<Rightarrow> slot_state \<Rightarrow> slot_state \<Rightarrow> bool" for X C where
  step_write: "vpiml_write X C q r w = Inr w' \<Longrightarrow> slot_step X C (w, f, n) (slot_of w f n w')"
| step_wait_edge: "vpiml_register_edge_callback X C et r t w = Inr w' \<Longrightarrow>
     slot_step X C (w, f, n) (slot_of w f n w')"
| step_wait_rw: "slot_step X C (w, f, n) (slot_of w f n (vpiml_register_rw_synch_callback X C t w))"
| step_edge: "run_edge_callback_chunk X C d v w = Inr w' \<Longrightarrow> slot_step X C (w, f, n) (slot_of w f n w')"
| step_edge_single: "run_edge_callback X C d v w = Inr w' \<Longrightarrow> slot_step X C (w, f, n) (slot_of w f n w')"
| step_edge_always: "run_edge_callback_always X d v w = Inr w' \<Longrightarrow> slot_step X C (w, f, n) (slot_of w f n w')"
| step_rd: "run_rd_synch_callback X t w = Inr w' \<Longrightarrow> slot_step X C (w, f, n) (slot_of w f n w')"
| step_nsim: "run_next_sim_time_callback X t w = Inr w' \<Longrightarrow> slot_step X C (w, f, n) (slot_of w f n w')"
| step_time: "run_time_callback_handler X t w = Inr w' \<Longrightarrow> slot_step X C (w, f, n) (slot_of w f n w')"
| step_rw: "run_rw_synch_callback X C t ep w = Inr w' \<Longrightarrow> slot_step X C (w, f, n) (slot_of w f n w')"
| step_flush: "run_flush_put_values X C w = Inr w' \<Longrightarrow> slot_step X C (w, Suc f, n) (slot_of w f n w')"
| step_next_time: "0 < n \<or> feat_inner_step C \<Longrightarrow> run_next_sim_time_cb X C w = Inr w' \<Longrightarrow>
     slot_step X C (w, 0, n) (slot_of w 0 (n - 1) w')"

inductive_cases slot_stepE: "slot_step X C s t"

text \<open>
  The invariant: a re-registered flush is outstanding; after the slot's flush, queued values imply a
  re-registered flush; the callback that starts the next slot, or the one that flushes this slot and
  registers it, is outstanding.
\<close>

definition slot_inv :: "features \<Rightarrow> slot_state \<Rightarrow> bool" where
  "slot_inv C s \<longleftrightarrow> (case s of (w, f, n) \<Rightarrow>
     (\<not> feat_inertial_put C \<longrightarrow> rw_cb_re_registered (env w) \<longrightarrow> 0 < f)
     \<and> (\<not> feat_inertial_put C \<longrightarrow> rw_phase_passed (env w) \<longrightarrow> hdl_put_value (env w) \<noteq> [] \<longrightarrow>
          rw_cb_re_registered (env w))
     \<and> (\<not> rw_phase_passed (env w) \<longrightarrow> 0 < f \<or> 0 < n \<or> feat_inner_step C)
     \<and> (rw_phase_passed (env w) \<longrightarrow> 0 < n \<or> feat_inner_step C))"

lemma slot_inv_posts:
  assumes "slot_inv C (w, f, n)" and "posts C w w'"
  shows "slot_inv C (slot_of w f n w')"
proof -
  have p: "rw_phase_passed (env w') = rw_phase_passed (env w)" "time_regs w' = time_regs w"
    "rw_cb_re_registered (env w') \<longrightarrow> rw_cb_re_registered (env w) \<or> flush_regs w < flush_regs w'"
    "\<not> feat_inertial_put C \<longrightarrow> rw_phase_passed (env w) \<longrightarrow>
          (hdl_put_value (env w) \<noteq> [] \<longrightarrow> rw_cb_re_registered (env w)) \<longrightarrow>
          hdl_put_value (env w') \<noteq> [] \<longrightarrow> rw_cb_re_registered (env w')"
    using assms(2) unfolding posts_def keeps_armed_def by blast+
  have i: "\<not> feat_inertial_put C \<longrightarrow> rw_cb_re_registered (env w) \<longrightarrow> 0 < f"
    "\<not> feat_inertial_put C \<longrightarrow> rw_phase_passed (env w) \<longrightarrow> hdl_put_value (env w) \<noteq> [] \<longrightarrow>
          rw_cb_re_registered (env w)"
    "\<not> rw_phase_passed (env w) \<longrightarrow> 0 < f \<or> 0 < n \<or> feat_inner_step C"
    "rw_phase_passed (env w) \<longrightarrow> 0 < n \<or> feat_inner_step C"
    using assms(1) unfolding slot_inv_def by simp_all
  have "\<not> feat_inertial_put C \<longrightarrow> rw_cb_re_registered (env w') \<longrightarrow> 0 < f + (flush_regs w' - flush_regs w)"
    using p(3) i(1) by (metis add_gr_0 zero_less_diff)
  moreover have "\<not> feat_inertial_put C \<longrightarrow> rw_phase_passed (env w') \<longrightarrow> hdl_put_value (env w') \<noteq> [] \<longrightarrow>
      rw_cb_re_registered (env w')"
    using p(1,4) i(2) by blast
  moreover have "\<not> rw_phase_passed (env w') \<longrightarrow> 0 < f + (flush_regs w' - flush_regs w) \<or> 0 < n \<or> feat_inner_step C"
    using p(1) i(3) by (metis add_gr_0)
  ultimately show ?thesis using p(1,2) i(4) unfolding slot_inv_def slot_of_def by simp
qed

lemma time_regs_next [simp]:
  "time_regs (libverilua_do_register_next_sim_time_cb X w) = Suc (time_regs w)"
  "flush_regs (libverilua_do_register_next_sim_time_cb X w) = flush_regs w"
  "time_regs (libverilua_register_rw_synch_cb X w) = time_regs w"
  "flush_regs (libverilua_register_rw_synch_cb X w) = Suc (flush_regs w)"
  by (simp_all add: time_regs_def flush_regs_def libverilua_do_register_next_sim_time_cb_def
      libverilua_register_rw_synch_cb_def register_and_free_eq)

lemma regs_env [simp]:
  "time_regs (w\<lparr>env := e\<rparr>) = time_regs w" "flush_regs (w\<lparr>env := e\<rparr>) = flush_regs w"
  by (simp_all add: time_regs_def flush_regs_def)

lemma env_next [simp]: "env (libverilua_do_register_next_sim_time_cb X w) = env w"
  "env (libverilua_register_rw_synch_cb X w) = env w"
  by (simp_all add: libverilua_do_register_next_sim_time_cb_def libverilua_register_rw_synch_cb_def
      register_and_free_eq)

lemma slot_inv_flush:
  assumes X: "only_posts X C" and inv: "slot_inv C (w, Suc f, n)"
    and w': "run_flush_put_values X C w = Inr w'"
  shows "slot_inv C (slot_of w f n w')"
proof (cases "feat_inertial_put C")
  case True
  then show ?thesis
    using inv w'
    by (cases "feat_inner_step C") (auto simp: run_flush_put_values_def slot_inv_def slot_of_def)
next
  case False
  then obtain w1 where w1: "apply_pending_put_values X C w = Inr w1"
    and w'': "w' = (let w2 = (if \<not> rw_phase_passed (env w1) \<and> \<not> feat_inner_step C
                    then libverilua_do_register_next_sim_time_cb X w1 else w1)
              in w2\<lparr>env := (env w2)\<lparr>rw_phase_passed := True, rw_cb_re_registered := False\<rparr>\<rparr>)"
    using w' by (auto simp: run_flush_put_values_def and_then_eq_Inr Let_def)
  have k: "keeps_armed w w1" by (rule apply_pending_keeps_armed [OF X w1])
  have e: "hdl_put_value (env w1) = []" by (rule apply_pending_empties [OF w1])
  show ?thesis
    using k e inv unfolding w''
    by (auto simp: slot_inv_def slot_of_def keeps_armed_def Let_def)
qed

lemma slot_inv_next_time:
  assumes inv: "slot_inv C (w, 0, n)" and w': "run_next_sim_time_cb X C w = Inr w'"
  shows "slot_inv C (slot_of w 0 (n - 1) w')"
proof -
  let ?w1 = "w\<lparr>env := (env w)\<lparr>rw_phase_passed := False, rw_cb_re_registered := False\<rparr>\<rparr>"
  obtain w2 where w2: "(if feat_opt_cb_task C then register_pending X C (merge_pending C ?w1) else Inr ?w1) = Inr w2"
    and w'': "w' = (if feat_wave_vpi C then libverilua_do_register_next_sim_time_cb X w2
                      else libverilua_register_rw_synch_cb X w2)"
    using w' by (auto simp: run_next_sim_time_cb_def and_then_eq_Inr Let_def)
  have "same_slot ?w1 w2"
    using w2 slot_tables.trans [OF slot_tables.merge_pending slot_tables.register_pending]
    by (auto simp: slot_tables.refl split: if_splits)
  then show ?thesis
    unfolding w'' by (auto simp: slot_inv_def slot_of_def same_slot_def)
qed

lemma slot_step_inv:
  assumes X: "only_posts X C" and st: "slot_step X C s t" and inv: "slot_inv C s"
  shows "slot_inv C t"
  using st
proof cases
  case (step_write q r w w' f n)
  then have "run_request X C q r w = Inr w'" by (auto simp: vpiml_write_def and_then_eq_Inr)
  then show ?thesis using step_write inv slot_inv_posts post_frame.writes.run_request X by blast
next
  case (step_wait_edge et r t w w' f n)
  then show ?thesis using inv slot_inv_posts same_slot_posts slot_tables.wait by blast
next
  case (step_wait_rw w f n t)
  have "posts C w (vpiml_register_rw_synch_callback X C t w)"
    using slot_posts.register_rw X by (simp add: vpiml_register_rw_synch_callback_def)
  then show ?thesis using step_wait_rw inv slot_inv_posts by simp
next
  case (step_edge d v w w' f n)
  then show ?thesis using inv slot_inv_posts slot_posts.edge_chunk X by blast
next
  case (step_edge_single d v w w' f n)
  then show ?thesis using inv slot_inv_posts slot_posts.edge X by blast
next
  case (step_edge_always d v w w' f n)
  then show ?thesis using inv slot_inv_posts slot_posts.edge_always X by blast
next
  case (step_rd t w w' f n)
  then show ?thesis using inv slot_inv_posts slot_posts.rd_synch X by blast
next
  case (step_nsim t w w' f n)
  then show ?thesis using inv slot_inv_posts slot_posts.next_sim_time X by blast
next
  case (step_time t w w' f n)
  then show ?thesis
    using inv slot_inv_posts slot_posts.time X by blast
next
  case (step_rw t ep w w' f n)
  then show ?thesis using inv slot_inv_posts slot_posts.rw_synch X by blast
next
  case (step_flush w w' f n)
  then show ?thesis using inv slot_inv_flush [OF X] by blast
next
  case (step_next_time n w w')
  then show ?thesis using inv slot_inv_next_time by blast
qed

text \<open>The machine starts with the callback of the first time slot registered and nothing posted.\<close>

definition slot_init :: "features \<Rightarrow> slot_state \<Rightarrow> bool" where
  "slot_init C s \<longleftrightarrow> (case s of (w, f, n) \<Rightarrow> \<not> rw_phase_passed (env w) \<and> \<not> rw_cb_re_registered (env w)
     \<and> (0 < n \<or> feat_inner_step C))"

lemma slot_reachable_inv:
  assumes X: "only_posts X C" and "slot_init C s" and "(slot_step X C)\<^sup>*\<^sup>* s t"
  shows "slot_inv C t"
  using assms(3)
proof (induction rule: rtranclp_induct)
  case base
  then show ?case using assms(2) by (auto simp: slot_init_def slot_inv_def)
next
  case (step t u)
  then show ?case using slot_step_inv [OF X] by blast
qed

text \<open>Starting a slot registers its flush and leaves the queue alone.\<close>

lemma next_time_effect:
  assumes "\<not> feat_wave_vpi C" and "run_next_sim_time_cb X C w = Inr w'"
  shows "hdl_put_value (env w') = hdl_put_value (env w)" "slot_of w 0 n w' = (w', 1, n)"
proof -
  let ?w1 = "w\<lparr>env := (env w)\<lparr>rw_phase_passed := False, rw_cb_re_registered := False\<rparr>\<rparr>"
  obtain w2 where w2: "(if feat_opt_cb_task C then register_pending X C (merge_pending C ?w1) else Inr ?w1) = Inr w2"
    and w': "w' = libverilua_register_rw_synch_cb X w2"
    using assms by (auto simp: run_next_sim_time_cb_def and_then_eq_Inr Let_def)
  have "same_slot ?w1 w2"
    using w2 slot_tables.trans [OF slot_tables.merge_pending slot_tables.register_pending]
    by (auto simp: slot_tables.refl split: if_splits)
  then show "hdl_put_value (env w') = hdl_put_value (env w)" "slot_of w 0 n w' = (w', 1, n)"
    unfolding w' by (simp_all add: slot_of_def same_slot_def)
qed

lemma flush_callback_empties:
  assumes "\<not> feat_inertial_put C" and "run_flush_put_values X C w = Inr w'"
  shows "hdl_put_value (env w') = []"
proof -
  obtain w1 where "apply_pending_put_values X C w = Inr w1" and "hdl_put_value (env w') = hdl_put_value (env w1)"
    using assms by (auto simp: run_flush_put_values_def and_then_eq_Inr Let_def split: if_splits)
  then show ?thesis using apply_pending_empties by simp
qed

text \<open>
  C2. No queued write is stranded, in any reachable state. After the slot's flush it has an outstanding
  flush callback, so when time can advance nothing is queued. Before the slot's flush, if no flush callback
  is outstanding, the callback that starts the next slot is: on every simulator but the waveform backend it
  keeps the write queued and registers the flush. The flush callback, when it returns, leaves nothing queued;
  and there is always a callback outstanding that keeps the machine going.
\<close>

theorem posted_writes_never_stranded:
  assumes "only_posts X C" and "slot_init C s" and "(slot_step X C)\<^sup>*\<^sup>* s (w, f, n)"
  shows "(verilator_has_pending_put_values C w \<longrightarrow> 0 < f)
    \<and> (\<not> feat_inertial_put C \<and> rw_phase_passed (env w) \<and> f = 0 \<longrightarrow> hdl_put_value (env w) = [])
    \<and> (\<not> feat_inertial_put C \<and> hdl_put_value (env w) \<noteq> [] \<and> f = 0 \<longrightarrow>
         \<not> rw_phase_passed (env w) \<and> (0 < n \<or> feat_inner_step C)
         \<and> (\<forall>w'. \<not> feat_wave_vpi C \<and> run_next_sim_time_cb X C w = Inr w' \<longrightarrow>
              slot_step X C (w, f, n) (w', 1, n - 1) \<and> hdl_put_value (env w') = hdl_put_value (env w)))
    \<and> (\<forall>w'. \<not> feat_inertial_put C \<and> run_flush_put_values X C w = Inr w' \<longrightarrow> hdl_put_value (env w') = [])
    \<and> (0 < f \<or> 0 < n \<or> feat_inner_step C)"
proof -
  have inv: "slot_inv C (w, f, n)" by (rule slot_reachable_inv [OF assms])
  then have armed: "0 < f \<or> 0 < n \<or> feat_inner_step C"
    and late: "\<not> feat_inertial_put C \<and> rw_phase_passed (env w) \<and> hdl_put_value (env w) \<noteq> [] \<longrightarrow> 0 < f"
    by (auto simp: slot_inv_def)
  have "slot_step X C (w, f, n) (w', 1, n - 1) \<and> hdl_put_value (env w') = hdl_put_value (env w)"
    if "f = 0" "\<not> feat_wave_vpi C" "run_next_sim_time_cb X C w = Inr w'" for w'
    using slot_step.step_next_time [of n C X w w'] armed that next_time_effect [OF that(2,3)] by simp
  then show ?thesis
    using armed late flush_callback_empties by (auto simp: verilator_has_pending_put_values_def split: if_splits)
qed

lemma only_posts_recording: "only_posts recording_sim C"
  by (simp add: only_posts_def recording_sim_def posts_refl)

text \<open>A write before the first slot is still queued when the slot's flush is registered.\<close>

lemma early_write_run:
  obtains w w' where "vpiml_write recording_sim vcs_build (Deferred ActSet (OpValue 5)) 1 demo_world = Inr w"
    "run_next_sim_time_cb recording_sim vcs_build w = Inr w'" "hdl_put_value (env w) = [1]"
    "slot_of demo_world 0 1 w = (w, 0, 1)"
proof -
  let ?w = "vpiml_write recording_sim vcs_build (Deferred ActSet (OpValue 5)) 1 demo_world"
  have "case ?w of Inl e \<Rightarrow> False | Inr w \<Rightarrow> hdl_put_value (env w) = [1] \<and> vpi_log w = []
      \<and> ok (run_next_sim_time_cb recording_sim vcs_build w)" by code_simp
  then obtain w w' where w: "?w = Inr w" "run_next_sim_time_cb recording_sim vcs_build w = Inr w'"
    "hdl_put_value (env w) = [1]" "vpi_log w = []"
    by (auto simp: ok_iff simp del: vpiml_write_def split: sum.splits)
  then have "slot_of demo_world 0 1 w = (w, 0, 1)"
    by (simp add: slot_of_def flush_regs_def time_regs_def occurs_def)
  then show thesis using that w(1-3) by blast
qed

lemma posted_writes_never_stranded_witness:
  "(\<exists>w w'. (slot_step recording_sim vcs_build)\<^sup>*\<^sup>* (demo_world, 0, 1) (w, 0, 1) \<and> hdl_put_value (env w) = [1]
     \<and> slot_step recording_sim vcs_build (w, 0, 1) (w', 1, 0) \<and> hdl_put_value (env w') = [1])
   \<and> (\<exists>w f n. (slot_step recording_sim vcs_build)\<^sup>*\<^sup>* (demo_world, 0, 1) (w, f, n)
     \<and> hdl_put_value (env w) = [1] \<and> 0 < f)"
proof
  let ?X = recording_sim and ?C = vcs_build
  have init: "slot_init ?C (demo_world, 0, 1)" by (simp add: slot_init_def default_env_def)
  obtain w w' where w: "vpiml_write ?X ?C (Deferred ActSet (OpValue 5)) 1 demo_world = Inr w"
    "run_next_sim_time_cb ?X ?C w = Inr w'" "hdl_put_value (env w) = [1]" "slot_of demo_world 0 1 w = (w, 0, 1)"
    by (rule early_write_run)
  have run: "(slot_step ?X ?C)\<^sup>*\<^sup>* (demo_world, 0, 1) (w, 0, 1)"
    using slot_step.step_write [OF w(1), of 0 1] w(4) by auto
  have "\<not> feat_inertial_put ?C" "\<not> feat_wave_vpi ?C" by code_simp+
  then have "slot_step ?X ?C (w, 0, 1) (w', 1, 0) \<and> hdl_put_value (env w') = [1]"
    using posted_writes_never_stranded [OF only_posts_recording init run] w(2,3) by auto
  then show "\<exists>w w'. (slot_step ?X ?C)\<^sup>*\<^sup>* (demo_world, 0, 1) (w, 0, 1) \<and> hdl_put_value (env w) = [1]
      \<and> slot_step ?X ?C (w, 0, 1) (w', 1, 0) \<and> hdl_put_value (env w') = [1]"
    using run w(3) by blast
next
  let ?X = recording_sim and ?C = vcs_build
  let ?n = "run_next_sim_time_cb ?X ?C demo_world"
  define w1 where "w1 = projr ?n"
  define w2 where "w2 = projr (run_flush_put_values ?X ?C w1)"
  define w3 where "w3 = projr (vpiml_write ?X ?C (Deferred ActSet (OpValue 5)) 1 w2)"
  have oks: "ok ?n" "ok (run_flush_put_values ?X ?C w1)"
    "ok (vpiml_write ?X ?C (Deferred ActSet (OpValue 5)) 1 w2)"
    and q: "hdl_put_value (env w3) = [1]" and p: "rw_phase_passed (env w3)"
    and d: "flush_regs w1 - flush_regs demo_world = 1"
    unfolding w1_def w2_def w3_def by code_simp+
  have r: "?n = Inr w1" "run_flush_put_values ?X ?C w1 = Inr w2"
    "vpiml_write ?X ?C (Deferred ActSet (OpValue 5)) 1 w2 = Inr w3"
    using oks by (auto simp: ok_iff w1_def w2_def w3_def simp del: vpiml_write_def)
  obtain n1 where s1: "slot_step ?X ?C (demo_world, 0, 1) (w1, 1, n1)"
    using slot_step.step_next_time [OF _ r(1), of 1] d by (auto simp: slot_of_def)
  obtain f2 n2 where s2: "slot_step ?X ?C (w1, Suc 0, n1) (w2, f2, n2)"
    using slot_step.step_flush [OF r(2), of 0 n1] by (auto simp: slot_of_def)
  obtain f3 n3 where s3: "slot_step ?X ?C (w2, f2, n2) (w3, f3, n3)"
    using slot_step.step_write [OF r(3), of f2 n2] by (auto simp: slot_of_def)
  have run: "(slot_step ?X ?C)\<^sup>*\<^sup>* (demo_world, 0, 1) (w3, f3, n3)"
    using s1 s2 s3 by (auto intro: rtranclp.rtrancl_into_rtrancl)
  have init: "slot_init ?C (demo_world, 0, 1)" by (simp add: slot_init_def default_env_def)
  have "verilator_has_pending_put_values ?C w3"
    using p q by (simp add: verilator_has_pending_put_values_def vcs_build_def)
  then have "0 < f3" using posted_writes_never_stranded [OF only_posts_recording init run] by blast
  then show "\<exists>w f n. (slot_step ?X ?C)\<^sup>*\<^sup>* (demo_world, 0, 1) (w, f, n) \<and> hdl_put_value (env w) = [1] \<and> 0 < f"
    using run q by blast
qed

end
