(* ===== verification/NativeClock.thy ===== *)
theory NativeClock
  imports WriteApi
begin

text \<open>
  The native clock driver (\<^verbatim>\<open>native_clock.rs\<close>): a boxed object that toggles a signal from
  \<open>cbAfterDelay\<close> callbacks, with a global registry of driven signals. A \<open>NativeClockHandle\<close> is the
  address of the box, 0 for NULL.
\<close>

subsection \<open>Operations\<close>

abbreviation (input) EIO :: int where "EIO \<equiv> 5"
abbreviation (input) EBUSY :: int where "EBUSY \<equiv> 16"
abbreviation (input) EEXIST :: int where "EEXIST \<equiv> 17"
abbreviation (input) EINVAL :: int where "EINVAL \<equiv> 22"

definition get_clock :: "nat \<Rightarrow> world \<Rightarrow> native_clock res" where
  "get_clock h w = (case clocks w h of
     None \<Rightarrow> Inl (Undefined ''dangling NativeClock'') | Some k \<Rightarrow> Inr k)"

definition set_clock :: "nat \<Rightarrow> native_clock \<Rightarrow> world \<Rightarrow> world" where
  "set_clock h k w = w\<lparr>clocks := (clocks w)(h \<mapsto> k)\<rparr>"

definition native_clock_new :: "raw \<Rightarrow> world \<Rightarrow> (nat \<times> world) res" where
  "native_clock_new r w =
     and_then (from_raw r w) (\<lambda>c.
       if \<not> ch_env c then Inl (Panic ''ComplexHandle.env is null'')
       else
         let h = next_raw w;
             k = \<lparr>complex_handle_raw = r, signal_hdl = vpi_handle c, period_steps = 0, high_steps = 0,
                  current_val = 0, cb_handle = None, in_callback = False, destroy_pending = False\<rparr>
         in Inr (h, set_clock h k (w\<lparr>next_raw := next_raw w + 1\<rparr>)))"

definition unregister_signal :: "vpiHandle \<Rightarrow> world \<Rightarrow> world" where
  "unregister_signal s w = w\<lparr>active_signals := active_signals w - {s}\<rparr>"

definition toggle :: "externals \<Rightarrow> features \<Rightarrow> bool \<Rightarrow> nat \<Rightarrow> world \<Rightarrow> (int \<times> world) res" where
  "toggle X C first_call h w =
     and_then (get_clock h w) (\<lambda>k.
     and_then (action_value X C vpiNoDelay (complex_handle_raw k) (ucast (current_val k)) w) (\<lambda>w1.
     and_then (get_clock h w1) (\<lambda>k1.
       let delay = (if current_val k1 = 1 then high_steps k1 else period_steps k1 - high_steps k1);
           k2 = k1\<lparr>current_val := current_val k1 XOR 1\<rparr>;
           (new_hdl, w2) = vpi_register_cb X
             (cb_data cbAfterDelay (native_clock_toggle_callback h) (join_time (split_time delay)) 0)
             (set_clock h k2 w1)
       in if new_hdl = 0 then
            Inr (EIO, if first_call then unregister_signal (signal_hdl k2) w2 else w2)
          else Inr (0, set_clock h (k2\<lparr>cb_handle := Some new_hdl\<rparr>) w2))))"

definition clock_start ::
  "externals \<Rightarrow> features \<Rightarrow> nat \<Rightarrow> u64 \<Rightarrow> u64 \<Rightarrow> bool \<Rightarrow> world \<Rightarrow> (int \<times> world) res" where
  "clock_start X C h period high start_high w =
     and_then (get_clock h w) (\<lambda>k.
       if cb_handle k \<noteq> None then Inr (EBUSY, w)
       else if signal_hdl k \<in> active_signals w then Inr (EEXIST, w)
       else if period < 2 \<or> high < 1 \<or> high \<ge> period then Inr (EINVAL, w)
       else toggle X C True h
              (set_clock h (k\<lparr>period_steps := period, high_steps := high,
                              current_val := (if start_high then 1 else 0)\<rparr>)
                (w\<lparr>active_signals := insert (signal_hdl k) (active_signals w)\<rparr>)))"

definition clock_stop :: "nat \<Rightarrow> world \<Rightarrow> world res" where
  "clock_stop h w =
     and_then (get_clock h w) (\<lambda>k.
       let w1 = unregister_signal (signal_hdl k) w
       in case cb_handle k of
            None \<Rightarrow> Inr w1
          | Some hdl \<Rightarrow> Inr (vpi_remove_cb hdl (set_clock h (k\<lparr>cb_handle := None\<rparr>) w1)))"

text \<open>\<open>Box::from_raw\<close> and its drop: \<open>Drop\<close> stops the clock, then the memory is freed.\<close>

definition clock_drop :: "nat \<Rightarrow> world \<Rightarrow> world res" where
  "clock_drop h w = and_then (clock_stop h w) (\<lambda>w1. Inr (w1\<lparr>clocks := (clocks w1)(h := None)\<rparr>))"

definition run_toggle_callback :: "externals \<Rightarrow> features \<Rightarrow> nat \<Rightarrow> world \<Rightarrow> world res" where
  "run_toggle_callback X C h w =
     and_then (get_clock h w) (\<lambda>k.
       let w1 = set_clock h (k\<lparr>cb_handle := None\<rparr>) w
       in if destroy_pending k then clock_drop h w1
          else
            and_then (toggle X C False h (set_clock h (k\<lparr>cb_handle := None, in_callback := True\<rparr>) w1)) (\<lambda>(_, w2).
            and_then (get_clock h w2) (\<lambda>k2.
              let w3 = set_clock h (k2\<lparr>in_callback := False\<rparr>) w2
              in if destroy_pending k2 then and_then (clock_stop h w3) (clock_drop h) else Inr w3)))"

definition vpiml_native_clock_start ::
  "externals \<Rightarrow> features \<Rightarrow> nat \<Rightarrow> u64 \<Rightarrow> u64 \<Rightarrow> u8 \<Rightarrow> world \<Rightarrow> (int \<times> world) res" where
  "vpiml_native_clock_start X C h period high start_high w =
     (if h = 0 then Inr (EINVAL, w) else clock_start X C h period high (start_high \<noteq> 0) w)"

definition vpiml_native_clock_stop :: "nat \<Rightarrow> world \<Rightarrow> world res" where
  "vpiml_native_clock_stop h w = (if h \<noteq> 0 then clock_stop h w else Inr w)"

definition vpiml_native_clock_is_running :: "nat \<Rightarrow> world \<Rightarrow> bool res" where
  "vpiml_native_clock_is_running h w =
     (if h = 0 then Inr False else and_then (get_clock h w) (\<lambda>k. Inr (cb_handle k \<noteq> None)))"

definition vpiml_native_clock_destroy :: "nat \<Rightarrow> world \<Rightarrow> world res" where
  "vpiml_native_clock_destroy h w =
     (if h = 0 then Inr w
      else and_then (get_clock h w) (\<lambda>k.
        if in_callback k then clock_stop h (set_clock h (k\<lparr>destroy_pending := True\<rparr>) w)
        else clock_drop h w))"

subsection \<open>Frame\<close>

lemma set_clock_sel [simp]:
  "clocks (set_clock h k w) = (clocks w)(h \<mapsto> k)" "active_signals (set_clock h k w) = active_signals w"
  "vpi_log (set_clock h k w) = vpi_log w" "env (set_clock h k w) = env w"
  "chdls (set_clock h k w) = chdls w" "next_raw (set_clock h k w) = next_raw w"
  by (simp_all add: set_clock_def)

lemma unregister_sel [simp]:
  "clocks (unregister_signal s w) = clocks w" "active_signals (unregister_signal s w) = active_signals w - {s}"
  "vpi_log (unregister_signal s w) = vpi_log w" "next_raw (unregister_signal s w) = next_raw w"
  by (simp_all add: unregister_signal_def)

lemma get_clock_Inr [simp]: "get_clock h w = Inr k \<longleftrightarrow> clocks w h = Some k"
  by (auto simp: get_clock_def split: option.splits)

lemma get_clock_Some: "clocks w h = Some k \<Longrightarrow> get_clock h w = Inr k"
  by simp

text \<open>The calls that concern toggle callbacks: their registrations, and all removals.\<close>

fun clock_calls :: "vpi_call list \<Rightarrow> vpi_call list" where
  "clock_calls [] = []"
| "clock_calls (RegisterCb d hdl # cs) =
     (case rtn d of native_clock_toggle_callback h \<Rightarrow> RegisterCb d hdl # clock_calls cs | _ \<Rightarrow> clock_calls cs)"
| "clock_calls (RemoveCb hdl # cs) = RemoveCb hdl # clock_calls cs"
| "clock_calls (_ # cs) = clock_calls cs"

lemma clock_calls_append [simp]: "clock_calls (xs @ ys) = clock_calls xs @ clock_calls ys"
  by (induction xs rule: clock_calls.induct) (auto split: cb_rtn.splits)

definition clock_frame :: "world \<Rightarrow> world \<Rightarrow> bool" where
  "clock_frame w w' \<longleftrightarrow> clocks w' = clocks w \<and> active_signals w' = active_signals w
     \<and> next_raw w' = next_raw w \<and> clock_calls (vpi_log w') = clock_calls (vpi_log w)"

lemma clock_frame_push: "clock_frame w (do_push_hdl_put_value X C r w)"
  by (simp add: do_push_hdl_put_value_def Let_def libverilua_register_rw_synch_cb_def
      register_and_free_eq clock_frame_def)

lemma clock_frame_remove_stale: "remove_stale C h w = Some w' \<Longrightarrow> clock_frame w w'"
  by (auto simp: remove_stale_def clock_frame_def split: option.splits if_splits)

interpretation clock_writes: block_frame X C "\<lambda>w w'. quiet_put X \<longrightarrow> clock_frame w w'"
  for X C
  by unfold_locales
    (auto simp: clock_frame_def quiet_put_value,
     (use clock_frame_remove_stale clock_frame_push in \<open>auto simp: clock_frame_def\<close>)+)

lemma clock_frame_action_value:
  "quiet_put X \<Longrightarrow> action_value X C f r v w = Inr w' \<Longrightarrow> clock_frame w w'"
  using clock_writes.writes.deferred_op [of X C f "OpValue v" r w w'] by simp

end
