(* ===== verification/ClockSpec.thy ===== *)
theory ClockSpec
  imports NativeClock
begin

text \<open>
  What the native clock promises: the edges it schedules alternate between the high and the low
  part of the period; a callback the simulator holds always belongs to a live clock, and to one
  only; a signal has one driver as long as clients stop only clocks that drive it.
\<close>

subsection \<open>One toggle\<close>

definition toggle_data :: "nat \<Rightarrow> native_clock \<Rightarrow> s_cb_data" where
  "toggle_data h k = cb_data cbAfterDelay (native_clock_toggle_callback h)
     (if current_val k = 1 then high_steps k else period_steps k - high_steps k) 0"

definition toggled :: "native_clock \<Rightarrow> native_clock" where
  "toggled k = k\<lparr>current_val := current_val k XOR 1\<rparr>"

lemma toggled_sel [simp]:
  "signal_hdl (toggled k) = signal_hdl k" "cb_handle (toggled k) = cb_handle k"
  "in_callback (toggled k) = in_callback k" "destroy_pending (toggled k) = destroy_pending k"
  "period_steps (toggled k) = period_steps k" "high_steps (toggled k) = high_steps k"
  by (simp_all add: toggled_def)

lemma toggle_quiet:
  assumes X: "quiet_put X" and k: "clocks w h = Some k" and t: "toggle X C b h w = Inr (rc, w')"
  obtains hdl where
    "clock_calls (vpi_log w') = clock_calls (vpi_log w) @ [RegisterCb (toggle_data h k) hdl]"
    "next_raw w' = next_raw w"
    "hdl = 0 \<Longrightarrow> rc = EIO \<and> clocks w' = (clocks w)(h \<mapsto> toggled k)
       \<and> active_signals w' = (if b then active_signals w - {signal_hdl k} else active_signals w)"
    "hdl \<noteq> 0 \<Longrightarrow> rc = 0 \<and> clocks w' = (clocks w)(h \<mapsto> (toggled k)\<lparr>cb_handle := Some hdl\<rparr>)
       \<and> active_signals w' = active_signals w"
proof -
  obtain w1 where w1: "action_value X C vpiNoDelay (complex_handle_raw k) (ucast (current_val k)) w = Inr w1"
    using t k by (auto simp: toggle_def and_then_eq_Inr get_clock_Some)
  have f: "clock_frame w w1" by (rule clock_frame_action_value [OF X w1])
  then have k1: "clocks w1 h = Some k" using k by (simp add: clock_frame_def)
  define w2 where "w2 = set_clock h (toggled k) w1"
  define hdl where "hdl = register_result X (toggle_data h k) w2"
  have eq: "(rc, w') = (let w3 = log_call (RegisterCb (toggle_data h k) hdl) w2 in
     if hdl = 0 then (EIO, if b then unregister_signal (signal_hdl k) w3 else w3)
     else (0, set_clock h ((toggled k)\<lparr>cb_handle := Some hdl\<rparr>) w3))"
    using t w1 k1 k
    by (simp add: toggle_def get_clock_Some vpi_register_cb_def Let_def w2_def toggled_def
        toggle_data_def hdl_def split: if_splits)
  show thesis
    by (rule that [of hdl])
      (use eq f in \<open>auto simp: Let_def clock_frame_def w2_def toggle_data_def split: if_splits\<close>)
qed

subsection \<open>The waveform\<close>

fun fire_n :: "externals \<Rightarrow> features \<Rightarrow> nat \<Rightarrow> nat \<Rightarrow> world \<Rightarrow> world res" where
  "fire_n X C h 0 w = Inr w"
| "fire_n X C h (Suc n) w =
     and_then (get_clock h w) (\<lambda>k.
       if cb_handle k = None then Inl (Panic ''no callback scheduled'')
       else and_then (run_toggle_callback X C h w) (fire_n X C h n))"

text \<open>The delays of the toggle callbacks of one clock, in registration order.\<close>

fun delays_of :: "nat \<Rightarrow> vpi_call list \<Rightarrow> u64 list" where
  "delays_of h [] = []"
| "delays_of h (RegisterCb d hdl # cs) =
     (if rtn d = native_clock_toggle_callback h then time_delay d # delays_of h cs else delays_of h cs)"
| "delays_of h (_ # cs) = delays_of h cs"

lemma delays_of_append [simp]: "delays_of h (xs @ ys) = delays_of h xs @ delays_of h ys"
  by (induction xs rule: delays_of.induct) auto

lemma delays_of_clock_calls: "delays_of h (clock_calls l) = delays_of h l"
  by (induction l rule: clock_calls.induct) (auto split: cb_rtn.splits)

definition step_delay :: "u64 \<Rightarrow> u64 \<Rightarrow> bool \<Rightarrow> u64" where
  "step_delay p hi b = (if b then hi else p - hi)"

definition bit_of :: "bool \<Rightarrow> u8" where
  "bit_of b = (if b then 1 else 0)"

lemma bit_of_xor: "bit_of b XOR 1 = bit_of (\<not> b)"
  by (simp add: bit_of_def)

lemma bit_of_eq_1 [simp]: "bit_of b = 1 \<longleftrightarrow> b"
  by (simp add: bit_of_def)

text \<open>A clock between two edges: its next edge will put \<open>b\<close>.\<close>

definition ticking :: "u64 \<Rightarrow> u64 \<Rightarrow> bool \<Rightarrow> native_clock \<Rightarrow> bool" where
  "ticking p hi b k \<longleftrightarrow> period_steps k = p \<and> high_steps k = hi \<and> current_val k = bit_of b
     \<and> \<not> destroy_pending k"

lemma toggle_ticking:
  assumes X: "quiet_put X" and k: "clocks w h = Some k" and tk: "ticking p hi b k"
    and t: "toggle X C first h w = Inr (rc, w')"
  shows "delays_of h (vpi_log w') = delays_of h (vpi_log w) @ [step_delay p hi b]"
    and "\<exists>k'. clocks w' h = Some k' \<and> ticking p hi (\<not> b) k'"
proof -
  obtain hdl where l: "clock_calls (vpi_log w') = clock_calls (vpi_log w) @ [RegisterCb (toggle_data h k) hdl]"
    and c0: "hdl = 0 \<Longrightarrow> clocks w' = (clocks w)(h \<mapsto> toggled k)"
    and c1: "hdl \<noteq> 0 \<Longrightarrow> clocks w' = (clocks w)(h \<mapsto> (toggled k)\<lparr>cb_handle := Some hdl\<rparr>)"
    using toggle_quiet [OF X k t] by metis
  have "delays_of h (clock_calls (vpi_log w')) =
      delays_of h (clock_calls (vpi_log w)) @ [step_delay p hi b]"
    using tk unfolding l by (simp add: toggle_data_def step_delay_def ticking_def)
  then show "delays_of h (vpi_log w') = delays_of h (vpi_log w) @ [step_delay p hi b]"
    by (simp only: delays_of_clock_calls)
  show "\<exists>k'. clocks w' h = Some k' \<and> ticking p hi (\<not> b) k'"
    using c0 c1 tk by (cases "hdl = 0") (simp_all add: ticking_def toggled_def bit_of_xor)
qed

lemma fire_ticking:
  assumes X: "quiet_put X" and k: "clocks w h = Some k" and tk: "ticking p hi b k"
    and w': "run_toggle_callback X C h w = Inr w'"
  shows "delays_of h (vpi_log w') = delays_of h (vpi_log w) @ [step_delay p hi b]"
    and "\<exists>k'. clocks w' h = Some k' \<and> ticking p hi (\<not> b) k'"
proof -
  let ?k = "k\<lparr>cb_handle := None, in_callback := True\<rparr>"
  let ?w = "set_clock h ?k (set_clock h (k\<lparr>cb_handle := None\<rparr>) w)"
  obtain rc w2 where t: "toggle X C False h ?w = Inr (rc, w2)"
    using w' k tk by (auto simp: run_toggle_callback_def get_clock_Some ticking_def and_then_eq_Inr Let_def)
  have tk': "ticking p hi b ?k" using tk by (simp add: ticking_def)
  have kk: "clocks ?w h = Some ?k" by simp
  obtain k2 where k2: "clocks w2 h = Some k2" "ticking p hi (\<not> b) k2"
    using toggle_ticking(2) [OF X kk tk' t] by blast
  have "w' = set_clock h (k2\<lparr>in_callback := False\<rparr>) w2"
    using w' k tk t k2 by (simp add: run_toggle_callback_def get_clock_Some ticking_def Let_def)
  then show "delays_of h (vpi_log w') = delays_of h (vpi_log w) @ [step_delay p hi b]"
    "\<exists>k'. clocks w' h = Some k' \<and> ticking p hi (\<not> b) k'"
    using toggle_ticking(1) [OF X kk tk' t] k2(2) by (simp_all add: ticking_def)
qed

lemma fire_n_ticking:
  assumes X: "quiet_put X"
  shows "clocks w h = Some k \<Longrightarrow> ticking p hi b k \<Longrightarrow> fire_n X C h n w = Inr w' \<Longrightarrow>
    delays_of h (vpi_log w') =
      delays_of h (vpi_log w) @ map (\<lambda>i. step_delay p hi (even i = b)) [0..<n]"
proof (induction n arbitrary: w k b)
  case 0
  then show ?case by simp
next
  case (Suc n)
  obtain w1 where w1: "run_toggle_callback X C h w = Inr w1" and rest: "fire_n X C h n w1 = Inr w'"
    using Suc.prems by (auto simp: get_clock_Some and_then_eq_Inr split: if_splits)
  obtain k1 where k1: "clocks w1 h = Some k1" "ticking p hi (\<not> b) k1"
    using fire_ticking(2) [OF X Suc.prems(1,2) w1] by blast
  have "map (\<lambda>i. step_delay p hi (even i = b)) [0..<Suc n] =
      step_delay p hi b # map (\<lambda>i. step_delay p hi (even i = (\<not> b))) [0..<n]"
    by (simp add: upt_conv_Cons map_Suc_upt [symmetric] del: upt_Suc) (auto intro: arg_cong)
  then show ?case
    using Suc.IH [OF k1 rest] fire_ticking(1) [OF X Suc.prems(1,2) w1] by simp
qed

lemma step_delays_sum:
  "sum_list (map (\<lambda>i. step_delay p hi (even i = b)) [0..<2 * m]) = of_nat m * p"
  by (induction m) (auto simp: step_delay_def algebra_simps)

text \<open>C13. Starting a clock and letting its callback fire \<open>n\<close> times schedules \<open>n + 1\<close> edges whose
  delays alternate between the high and the low part of the period, beginning with the requested
  level; every two edges take exactly one period.\<close>

theorem clock_waveform:
  assumes "quiet_put X" and "clocks w h = Some k" and "\<not> destroy_pending k"
    and "clock_start X C h p hi start_high w = Inr (0, w0)"
    and "fire_n X C h n w0 = Inr w'"
  shows "delays_of h (vpi_log w') = delays_of h (vpi_log w)
      @ map (\<lambda>i. step_delay p hi (even i = start_high)) [0..<Suc n]
    \<and> sum_list (map (\<lambda>i. step_delay p hi (even i = start_high)) [0..<2 * m]) = of_nat m * p"
proof -
  let ?k = "k\<lparr>period_steps := p, high_steps := hi, current_val := (if start_high then 1 else 0)\<rparr>"
  let ?w = "set_clock h ?k (w\<lparr>active_signals := insert (signal_hdl k) (active_signals w)\<rparr>)"
  have t: "toggle X C True h ?w = Inr (0, w0)"
    using assms(2,4) by (auto simp: clock_start_def get_clock_Some split: if_splits)
  have tk: "ticking p hi start_high ?k" using assms(3) by (simp add: ticking_def bit_of_def)
  have kk: "clocks ?w h = Some ?k" by simp
  obtain k0 where k0: "clocks w0 h = Some k0" "ticking p hi (\<not> start_high) k0"
    using toggle_ticking(2) [OF assms(1) kk tk t] by blast
  have "map (\<lambda>i. step_delay p hi (even i = start_high)) [0..<Suc n] =
      step_delay p hi start_high # map (\<lambda>i. step_delay p hi (even i = (\<not> start_high))) [0..<n]"
    by (simp add: upt_conv_Cons map_Suc_upt [symmetric] del: upt_Suc) (auto intro: arg_cong)
  then show ?thesis
    using toggle_ticking(1) [OF assms(1) kk tk t] fire_n_ticking [OF assms(1) k0 assms(5)]
    by (simp add: step_delays_sum)
qed

definition demo_clock :: "nat \<times> world" where
  "demo_clock = projr (native_clock_new 1 demo_world)"

lemma clock_waveform_witness:
  "\<exists>w' w0. clock_start recording_sim verilator_build 1 10 3 True (snd demo_clock) = Inr (0, w0)
     \<and> fire_n recording_sim verilator_build 1 1 w0 = Inr w'
     \<and> delays_of 1 (vpi_log w') = [3, 7]"
proof -
  let ?s = "clock_start recording_sim verilator_build 1 10 3 True (snd demo_clock)"
  define w0 where "w0 = snd (projr ?s)"
  have "case ?s of Inl e \<Rightarrow> False | Inr (rc, w) \<Rightarrow> rc = 0" by code_simp
  then have s: "?s = Inr (0, w0)" by (auto simp: w0_def split: sum.splits)
  have "ok (fire_n recording_sim verilator_build 1 1 w0)" unfolding w0_def by code_simp
  then obtain w' where f: "fire_n recording_sim verilator_build 1 1 w0 = Inr w'"
    unfolding ok_iff by (elim exE)
  have "case clocks (snd demo_clock) 1 of None \<Rightarrow> False | Some k \<Rightarrow> \<not> destroy_pending k" by code_simp
  then obtain k where k: "clocks (snd demo_clock) 1 = Some k" "\<not> destroy_pending k"
    by (auto split: option.splits)
  have "delays_of 1 (vpi_log (snd demo_clock)) = []" by code_simp
  moreover have "map (\<lambda>i. step_delay 10 3 (even i = True)) [0..<Suc 1] = [3, 7]" by code_simp
  ultimately have "delays_of 1 (vpi_log w') = [3, 7]"
    using clock_waveform(1) [OF quiet_recording_sim k s f] by simp
  then show ?thesis using s f by blast
qed

subsection \<open>Callbacks and clocks\<close>

text \<open>The toggle callbacks a simulator holds, followed through a list of calls.\<close>

fun track :: "vpi_call list \<Rightarrow> (vpiHandle \<times> nat) list \<Rightarrow> (vpiHandle \<times> nat) list" where
  "track [] cbs = cbs"
| "track (RegisterCb d hdl # cs) cbs =
     track cs (case rtn d of native_clock_toggle_callback h \<Rightarrow> (if hdl = 0 then cbs else (hdl, h) # cbs) | _ \<Rightarrow> cbs)"
| "track (RemoveCb hdl # cs) cbs = track cs (filter (\<lambda>p. fst p \<noteq> hdl) cbs)"
| "track (_ # cs) cbs = track cs cbs"

definition new_calls :: "world \<Rightarrow> world \<Rightarrow> vpi_call list" where
  "new_calls w w' = drop (length (clock_calls (vpi_log w))) (clock_calls (vpi_log w'))"

text \<open>The simulator hands out callback handles that are not in use.\<close>

definition fresh_in :: "(vpiHandle \<times> nat) list \<Rightarrow> vpi_call list \<Rightarrow> bool" where
  "fresh_in cbs cs \<longleftrightarrow> (\<forall>d hdl. RegisterCb d hdl \<in> set cs \<longrightarrow> hdl \<notin> fst ` set cbs)"

type_synonym clock_state = "world \<times> (vpiHandle \<times> nat) list"

definition may_stop :: "nat \<Rightarrow> world \<Rightarrow> bool" where
  "may_stop h w \<longleftrightarrow> (\<forall>k h' k'. clocks w h = Some k \<longrightarrow> clocks w h' = Some k' \<longrightarrow> h' \<noteq> h \<longrightarrow>
     cb_handle k = None \<longrightarrow> cb_handle k' \<noteq> None \<longrightarrow> signal_hdl k' \<noteq> signal_hdl k)"

inductive clock_step :: "externals \<Rightarrow> features \<Rightarrow> bool \<Rightarrow> clock_state \<Rightarrow> clock_state \<Rightarrow> bool" for X C strict where
  cs_new: "native_clock_new r w = Inr (h, w') \<Longrightarrow> clock_step X C strict (w, cbs) (w', cbs)"
| cs_start: "vpiml_native_clock_start X C h p hi sh w = Inr (rc, w') \<Longrightarrow> fresh_in cbs (new_calls w w') \<Longrightarrow>
     clock_step X C strict (w, cbs) (w', track (new_calls w w') cbs)"
| cs_stop: "vpiml_native_clock_stop h w = Inr w' \<Longrightarrow> (strict \<longrightarrow> may_stop h w) \<Longrightarrow>
     clock_step X C strict (w, cbs) (w', track (new_calls w w') cbs)"
| cs_destroy: "vpiml_native_clock_destroy h w = Inr w' \<Longrightarrow> (strict \<longrightarrow> may_stop h w) \<Longrightarrow>
     clock_step X C strict (w, cbs) (w', track (new_calls w w') cbs)"
| cs_fire: "(hdl, h) \<in> set cbs \<Longrightarrow> run_toggle_callback X C h w = Inr w' \<Longrightarrow>
     fresh_in (remove1 (hdl, h) cbs) (new_calls w w') \<Longrightarrow>
     clock_step X C strict (w, cbs) (w', track (new_calls w w') (remove1 (hdl, h) cbs))"

text \<open>The callbacks held are exactly the ones the clocks know, one per running clock.\<close>

definition cbs_match :: "clock_state \<Rightarrow> bool" where
  "cbs_match s \<longleftrightarrow> (case s of (w, cbs) \<Rightarrow>
     distinct (map fst cbs)
     \<and> (\<forall>hdl h. (hdl, h) \<in> set cbs \<longleftrightarrow> (\<exists>k. clocks w h = Some k \<and> cb_handle k = Some hdl))
     \<and> 0 < next_raw w
     \<and> (\<forall>h k. clocks w h = Some k \<longrightarrow> h < next_raw w \<and> \<not> in_callback k \<and> \<not> destroy_pending k))"

lemma cbs_matchD:
  assumes "cbs_match (w, cbs)"
  shows "distinct (map fst cbs)"
    and "(hdl, h) \<in> set cbs \<longleftrightarrow> (\<exists>k. clocks w h = Some k \<and> cb_handle k = Some hdl)"
    and "0 < next_raw w"
    and "clocks w h = Some k \<Longrightarrow> h < next_raw w \<and> \<not> in_callback k \<and> \<not> destroy_pending k"
  using assms unfolding cbs_match_def by auto

lemma cbs_match_unique:
  assumes "cbs_match (w, cbs)" and "(hdl, h) \<in> set cbs" and "(hdl, h') \<in> set cbs"
  shows "h = h'"
  using cbs_matchD(1) [OF assms(1)] assms(2,3) eq_key_imp_eq_value by metis

text \<open>Replacing a clock that has no callback by one with the callback \<open>hdl\<close>, or none.\<close>

lemma cbs_match_arm:
  assumes m: "cbs_match (w, cbs)" and k: "clocks w h = Some k" and none: "cb_handle k = None"
    and w': "clocks w' = (clocks w)(h \<mapsto> k')" "next_raw w' = next_raw w"
    and k': "\<not> in_callback k'" "\<not> destroy_pending k'"
    and cbs': "cbs' = (case cb_handle k' of None \<Rightarrow> cbs | Some hdl \<Rightarrow> (hdl, h) # cbs)"
    and fresh: "\<And>hdl. cb_handle k' = Some hdl \<Longrightarrow> hdl \<notin> fst ` set cbs"
  shows "cbs_match (w', cbs')"
proof -
  note d = cbs_matchD [OF m]
  have no: "(x, h) \<notin> set cbs" for x using d(2) [of x h] k none by auto
  have mem: "(x, g) \<in> set cbs' \<longleftrightarrow> (\<exists>j. clocks w' g = Some j \<and> cb_handle j = Some x)" for x g
    using d(2) [of x g] no [of x] w'(1) unfolding cbs' by (cases "cb_handle k'"; cases "g = h") auto
  have dist: "distinct (map fst cbs')"
    using d(1) fresh unfolding cbs' by (cases "cb_handle k'") auto
  have "g < next_raw w' \<and> \<not> in_callback j \<and> \<not> destroy_pending j" if "clocks w' g = Some j" for g j
    using that d(4) [OF k] d(4) [of g j] w' k' by (cases "g = h") auto
  then show ?thesis using mem dist d(3) w'(2) unfolding cbs_match_def by auto
qed

text \<open>Removing the callback of a clock, and the clock itself or not.\<close>

lemma cbs_match_disarm:
  assumes m: "cbs_match (w, cbs)" and k: "clocks w h = Some k"
    and w': "\<And>g. g \<noteq> h \<Longrightarrow> clocks w' g = clocks w g" "next_raw w' = next_raw w"
    and h': "\<And>j. clocks w' h = Some j \<Longrightarrow> cb_handle j = None \<and> \<not> in_callback j \<and> \<not> destroy_pending j"
    and cbs': "cbs' = (case cb_handle k of None \<Rightarrow> cbs | Some hdl \<Rightarrow> filter (\<lambda>p. fst p \<noteq> hdl) cbs)"
  shows "cbs_match (w', cbs')"
proof -
  note d = cbs_matchD [OF m]
  have mem: "(x, g) \<in> set cbs' \<longleftrightarrow> (\<exists>j. clocks w' g = Some j \<and> cb_handle j = Some x)" for x g
  proof (cases "g = h")
    case True
    have "(x, h) \<notin> set cbs'" using d(2) [of x h] k unfolding cbs' by (auto split: option.splits)
    then show ?thesis using True h' by auto
  next
    case False
    have "(x, g) \<in> set cbs' \<longleftrightarrow> (x, g) \<in> set cbs"
      using cbs_match_unique [OF m, of x g h] d(2) [of x h] k False unfolding cbs'
      by (auto split: option.splits)
    then show ?thesis using d(2) [of x g] w'(1) [OF False] by simp
  qed
  have "distinct (map fst cbs')"
    using d(1) unfolding cbs' by (auto simp: distinct_map_filter split: option.splits)
  moreover have "g < next_raw w' \<and> \<not> in_callback j \<and> \<not> destroy_pending j" if "clocks w' g = Some j" for g j
    using that d(4) [OF k] d(4) [of g j] w' h' [of j] by (cases "g = h") auto
  ultimately show ?thesis using mem d(3) w'(2) unfolding cbs_match_def by auto
qed

lemma new_calls_same [simp]: "new_calls w w = []"
  by (simp add: new_calls_def)

lemma new_calls_append:
  "clock_calls (vpi_log w') = clock_calls (vpi_log w) @ cs \<Longrightarrow> new_calls w w' = cs"
  by (simp add: new_calls_def)

text \<open>A toggle of a clock without a callback arms it; the flag \<open>in_callback\<close> comes and goes.\<close>

lemma cbs_match_toggle:
  assumes X: "quiet_put X" and m: "cbs_match (w, cbs)" and k: "clocks w h = Some k"
    and none: "cb_handle k = None" and v: "clocks v = (clocks w)(h \<mapsto> k1)" "next_raw v = next_raw w"
      "clock_calls (vpi_log v) = clock_calls (vpi_log w)" "cb_handle k1 = None"
    and t: "toggle X C b h v = Inr (rc, v')"
    and w': "\<not> in_callback k1 \<longrightarrow> w' = v'"
      "in_callback k1 \<longrightarrow> (\<exists>k2. clocks v' h = Some k2 \<and> w' = set_clock h (k2\<lparr>in_callback := False\<rparr>) v')"
    and flags: "\<not> destroy_pending k1"
    and fresh: "fresh_in cbs (new_calls w w')"
  shows "cbs_match (w', track (new_calls w w') cbs)"
proof -
  have kv: "clocks v h = Some k1" using v(1) by simp
  obtain hdl where l: "clock_calls (vpi_log v') = clock_calls (vpi_log v) @ [RegisterCb (toggle_data h k1) hdl]"
    and nr: "next_raw v' = next_raw v"
    and c0: "hdl = 0 \<Longrightarrow> clocks v' = (clocks v)(h \<mapsto> toggled k1)"
    and c1: "hdl \<noteq> 0 \<Longrightarrow> clocks v' = (clocks v)(h \<mapsto> (toggled k1)\<lparr>cb_handle := Some hdl\<rparr>)"
    using toggle_quiet [OF X kv t] by metis
  define k' where "k' = (if hdl = 0 then toggled k1 else (toggled k1)\<lparr>cb_handle := Some hdl\<rparr>)\<lparr>in_callback := False\<rparr>"
  have cv': "clocks v' = (clocks w)(h \<mapsto> (if hdl = 0 then toggled k1 else (toggled k1)\<lparr>cb_handle := Some hdl\<rparr>))"
    using c0 c1 v(1) by (cases "hdl = 0") simp_all
  have nc: "new_calls w w' = [RegisterCb (toggle_data h k1) hdl]"
    using w' l v(3) by (cases "in_callback k1") (auto intro!: new_calls_append)
  have "clocks w' = (clocks w)(h \<mapsto> k')"
  proof (cases "in_callback k1")
    case nc: False
    then have True: "w' = v'" using w'(1) by blast
    have "k' = (if hdl = 0 then toggled k1 else (toggled k1)\<lparr>cb_handle := Some hdl\<rparr>)"
      using nc by (simp add: k'_def)
    then show ?thesis using cv' True by simp
  next
    case True
    then obtain k2 where "clocks v' h = Some k2" "w' = set_clock h (k2\<lparr>in_callback := False\<rparr>) v'"
      using w'(2) by blast
    then show ?thesis using cv' by (simp add: k'_def)
  qed
  moreover have "next_raw w' = next_raw w" using w' nr v(2) by (cases "in_callback k1") auto
  moreover have "\<not> in_callback k'" "\<not> destroy_pending k'" using flags by (simp_all add: k'_def)
  moreover have "track (new_calls w w') cbs = (case cb_handle k' of None \<Rightarrow> cbs | Some x \<Rightarrow> (x, h) # cbs)"
    using v(4) by (simp add: nc toggle_data_def k'_def)
  moreover have "x \<notin> fst ` set cbs" if "cb_handle k' = Some x" for x
    using fresh that v(4) unfolding nc by (auto simp: fresh_in_def k'_def split: if_splits)
  ultimately show ?thesis by (rule cbs_match_arm [OF m k none])
qed

lemma cbs_match_start:
  assumes X: "quiet_put X" and m: "cbs_match (w, cbs)"
    and s: "vpiml_native_clock_start X C h p hi sh w = Inr (rc, w')"
    and fresh: "fresh_in cbs (new_calls w w')"
  shows "cbs_match (w', track (new_calls w w') cbs)"
proof (cases "w' = w")
  case True
  then show ?thesis using m by simp
next
  case False
  then obtain k where k: "clocks w h = Some k" and none: "cb_handle k = None"
    and t: "toggle X C True h (set_clock h (k\<lparr>period_steps := p, high_steps := hi,
                              current_val := (if sh \<noteq> 0 then 1 else 0)\<rparr>)
                (w\<lparr>active_signals := insert (signal_hdl k) (active_signals w)\<rparr>)) = Inr (rc, w')"
    using s by (auto simp: vpiml_native_clock_start_def clock_start_def and_then_eq_Inr split: if_splits)
  have flags: "\<not> in_callback k" "\<not> destroy_pending k" using cbs_matchD(4) [OF m k] by simp_all
  show ?thesis
    by (rule cbs_match_toggle [OF X m k none _ _ _ _ t,
          where ?k1.0="k\<lparr>period_steps := p, high_steps := hi, current_val := (if sh \<noteq> 0 then 1 else 0)\<rparr>"])
      (use none flags fresh in simp_all)
qed

lemma clock_stop_eq:
  assumes "clocks w h = Some k"
  shows "\<exists>w'. clock_stop h w = Inr w' \<and> clocks w' = (clocks w)(h \<mapsto> k\<lparr>cb_handle := None\<rparr>)
    \<and> next_raw w' = next_raw w \<and> active_signals w' = active_signals w - {signal_hdl k}
    \<and> clock_calls (vpi_log w') = clock_calls (vpi_log w)
         @ (case cb_handle k of None \<Rightarrow> [] | Some hdl \<Rightarrow> [RemoveCb hdl])"
  using assms
  by (cases "cb_handle k")
    (auto simp: clock_stop_def get_clock_Some Let_def vpi_remove_cb_def fun_eq_iff)

lemma track_stop:
  "track (case x of None \<Rightarrow> [] | Some hdl \<Rightarrow> [RemoveCb hdl]) cbs =
   (case x of None \<Rightarrow> cbs | Some hdl \<Rightarrow> filter (\<lambda>p. fst p \<noteq> hdl) cbs)"
  by (cases x) simp_all

lemma cbs_match_stop:
  assumes m: "cbs_match (w, cbs)" and s: "clock_stop h w = Inr w'"
  shows "cbs_match (w', track (new_calls w w') cbs)"
proof -
  obtain k where k: "clocks w h = Some k" using s by (auto simp: clock_stop_def and_then_eq_Inr)
  have w': "clocks w' = (clocks w)(h \<mapsto> k\<lparr>cb_handle := None\<rparr>)" "next_raw w' = next_raw w"
    "new_calls w w' = (case cb_handle k of None \<Rightarrow> [] | Some hdl \<Rightarrow> [RemoveCb hdl])"
    using clock_stop_eq [OF k] s by (auto intro!: new_calls_append)
  show ?thesis
    by (rule cbs_match_disarm [OF m k]) (use w' cbs_matchD(4) [OF m k] in \<open>auto simp: track_stop\<close>)
qed

lemma cbs_match_drop:
  assumes m: "cbs_match (w, cbs)" and s: "clock_drop h w = Inr w'"
  shows "cbs_match (w', track (new_calls w w') cbs)"
proof -
  obtain w1 where w1: "clock_stop h w = Inr w1" and w'': "w' = w1\<lparr>clocks := (clocks w1)(h := None)\<rparr>"
    using s by (auto simp: clock_drop_def and_then_eq_Inr)
  obtain k where k: "clocks w h = Some k" using w1 by (auto simp: clock_stop_def and_then_eq_Inr)
  obtain w2 where "clock_stop h w = Inr w2" and w2: "clocks w2 = (clocks w)(h \<mapsto> k\<lparr>cb_handle := None\<rparr>)"
      "next_raw w2 = next_raw w" "clock_calls (vpi_log w2) = clock_calls (vpi_log w)
         @ (case cb_handle k of None \<Rightarrow> [] | Some hdl \<Rightarrow> [RemoveCb hdl])"
    using clock_stop_eq [OF k] by blast
  then have "w2 = w1" using w1 by simp
  then have c: "clocks w' = (clocks w)(h := None)" "next_raw w' = next_raw w"
    using w2 by (simp_all add: w'')
  have "new_calls w w' = (case cb_handle k of None \<Rightarrow> [] | Some hdl \<Rightarrow> [RemoveCb hdl])"
    using w2(3) \<open>w2 = w1\<close> by (intro new_calls_append) (simp add: w'')
  then have "track (new_calls w w') cbs =
      (case cb_handle k of None \<Rightarrow> cbs | Some hdl \<Rightarrow> filter (\<lambda>p. fst p \<noteq> hdl) cbs)"
    by (simp add: track_stop)
  then show ?thesis by (intro cbs_match_disarm [OF m k]) (simp_all add: c)
qed

lemma remove1_filter_fst:
  "distinct (map fst cbs) \<Longrightarrow> (hdl, h) \<in> set cbs \<Longrightarrow>
   remove1 (hdl, h) cbs = filter (\<lambda>p. fst p \<noteq> hdl) cbs"
proof (induction cbs)
  case Nil
  then show ?case by simp
next
  case (Cons p cbs)
  show ?case
  proof (cases "p = (hdl, h)")
    case True
    then have "hdl \<notin> fst ` set cbs" using Cons.prems by simp
    then have "filter (\<lambda>p. fst p \<noteq> hdl) cbs = cbs" by (intro filter_True) force
    then show ?thesis using True by simp
  next
    case False
    then have "(hdl, h) \<in> set cbs" using Cons.prems by auto
    then have "hdl \<in> fst ` set cbs" by force
    then have "fst p \<noteq> hdl" using Cons.prems(1) by auto
    then show ?thesis using False Cons \<open>(hdl, h) \<in> set cbs\<close> by simp
  qed
qed

lemma cbs_match_fire:
  assumes X: "quiet_put X" and m: "cbs_match (w, cbs)" and cb: "(hdl, h) \<in> set cbs"
    and run: "run_toggle_callback X C h w = Inr w'"
    and fresh: "fresh_in (remove1 (hdl, h) cbs) (new_calls w w')"
  shows "cbs_match (w', track (new_calls w w') (remove1 (hdl, h) cbs))"
proof -
  obtain k where k: "clocks w h = Some k" and armed: "cb_handle k = Some hdl"
    using cbs_matchD(2) [OF m] cb by blast
  have flags: "\<not> in_callback k" "\<not> destroy_pending k" using cbs_matchD(4) [OF m k] by simp_all
  let ?k0 = "k\<lparr>cb_handle := None\<rparr>"
  let ?w0 = "set_clock h ?k0 w" and ?cbs0 = "remove1 (hdl, h) cbs"
  have m0: "cbs_match (?w0, ?cbs0)"
    by (rule cbs_match_disarm [OF m k])
      (use armed flags remove1_filter_fst [OF cbs_matchD(1) [OF m] cb] in auto)
  let ?k1 = "k\<lparr>cb_handle := None, in_callback := True\<rparr>"
  let ?v = "set_clock h ?k1 ?w0"
  obtain rc v' k2 where t: "toggle X C False h ?v = Inr (rc, v')" and k2: "clocks v' h = Some k2"
    and w': "(let w3 = set_clock h (k2\<lparr>in_callback := False\<rparr>) v'
       in if destroy_pending k2 then and_then (clock_stop h w3) (clock_drop h) else Inr w3) = Inr w'"
    using run k flags by (auto simp: run_toggle_callback_def get_clock_Some and_then_eq_Inr Let_def)
  have "clocks ?v h = Some ?k1" by simp
  then obtain x where c0: "x = 0 \<Longrightarrow> clocks v' = (clocks ?v)(h \<mapsto> toggled ?k1)"
    and c1: "x \<noteq> 0 \<Longrightarrow> clocks v' = (clocks ?v)(h \<mapsto> (toggled ?k1)\<lparr>cb_handle := Some x\<rparr>)"
    using toggle_quiet [OF X _ t] by metis
  then have "\<not> destroy_pending k2" using k2 flags by (cases "x = 0") auto
  then have w'': "w' = set_clock h (k2\<lparr>in_callback := False\<rparr>) v'" using w' by (simp add: Let_def)
  have nc: "new_calls ?w0 w' = new_calls w w'" by (simp add: new_calls_def)
  have "cbs_match (w', track (new_calls ?w0 w') ?cbs0)"
    by (rule cbs_match_toggle [OF X m0 _ _ _ _ _ _ t, where ?k1.0="?k1" and k="?k0"])
      (use flags fresh nc w'' k2 in simp_all)
  then show ?thesis by (simp add: nc)
qed

lemma cbs_match_new:
  assumes m: "cbs_match (w, cbs)" and n: "native_clock_new r w = Inr (h, w')"
  shows "cbs_match (w', cbs)"
proof -
  obtain k where h: "h = next_raw w" and w': "clocks w' = (clocks w)(h \<mapsto> k)" "next_raw w' = next_raw w + 1"
    and k: "cb_handle k = None" "\<not> in_callback k" "\<not> destroy_pending k"
    using n by (auto simp: native_clock_new_def and_then_eq_Inr Let_def split: if_splits)
  note d = cbs_matchD [OF m]
  have none: "clocks w h = None" using d(4) [of h] h by (cases "clocks w h") auto
  have "(x, g) \<in> set cbs \<longleftrightarrow> (\<exists>j. clocks w' g = Some j \<and> cb_handle j = Some x)" for x g
    using d(2) [of x g] w'(1) k(1) none by (cases "g = h") auto
  moreover have "g < next_raw w' \<and> \<not> in_callback j \<and> \<not> destroy_pending j" if "clocks w' g = Some j" for g j
    using that d(4) [of g j] w' k h by (cases "g = h") auto
  ultimately show ?thesis using d(1,3) w'(2) unfolding cbs_match_def by auto
qed

lemma clock_step_match:
  assumes X: "quiet_put X" and st: "clock_step X C strict s t" and m: "cbs_match s"
  shows "cbs_match t"
  using st
proof cases
  case (cs_new r w h w' cbs)
  then show ?thesis using cbs_match_new m by blast
next
  case (cs_start h p hi sh w rc w' cbs)
  then show ?thesis using cbs_match_start [OF X] m by blast
next
  case (cs_stop h w w' cbs)
  then show ?thesis
    using cbs_match_stop m by (cases "h = 0") (auto simp: vpiml_native_clock_stop_def)
next
  case (cs_destroy h w w' cbs)
  show ?thesis
  proof (cases "h = 0")
    case True
    then show ?thesis using cs_destroy m by (simp add: vpiml_native_clock_destroy_def)
  next
    case False
    then obtain k where k: "clocks w h = Some k"
      using cs_destroy by (auto simp: vpiml_native_clock_destroy_def and_then_eq_Inr)
    then have "\<not> in_callback k" using cbs_matchD(4) m cs_destroy(1) by blast
    then have "clock_drop h w = Inr w'"
      using cs_destroy k False by (simp add: vpiml_native_clock_destroy_def get_clock_Some)
    then show ?thesis using cbs_match_drop m cs_destroy(1,2) by blast
  qed
next
  case (cs_fire hdl h cbs w w')
  then show ?thesis using cbs_match_fire [OF X] m by blast
qed

definition clock_init :: "clock_state \<Rightarrow> bool" where
  "clock_init s \<longleftrightarrow> (case s of (w, cbs) \<Rightarrow>
     clocks w = Map.empty \<and> active_signals w = {} \<and> cbs = [] \<and> 0 < next_raw w)"

lemma clock_reachable_match:
  assumes X: "quiet_put X" and i: "clock_init s" and r: "(clock_step X C strict)\<^sup>*\<^sup>* s t"
  shows "cbs_match t"
  using r
proof (induction rule: rtranclp_induct)
  case base
  show ?case using i by (cases s) (auto simp: clock_init_def cbs_match_def)
next
  case (step t u)
  then show ?case using clock_step_match [OF X] by blast
qed

text \<open>C12. Whatever clients do with native clocks, the toggle callbacks the simulator holds are exactly
  those of the running clocks: none belongs to a destroyed clock, no clock has two.\<close>

theorem toggle_callbacks_live:
  assumes "quiet_put X" and "clock_init s" and "(clock_step X C strict)\<^sup>*\<^sup>* s (w, cbs)"
  shows "(\<forall>hdl h. (hdl, h) \<in> set cbs \<longleftrightarrow> (\<exists>k. clocks w h = Some k \<and> cb_handle k = Some hdl))
    \<and> distinct (map fst cbs) \<and> distinct (map snd cbs)"
proof -
  have m: "cbs_match (w, cbs)" by (rule clock_reachable_match [OF assms])
  have mem: "(hdl, h) \<in> set cbs \<longleftrightarrow> (\<exists>k. clocks w h = Some k \<and> cb_handle k = Some hdl)" for hdl h
    by (rule cbs_matchD(2) [OF m])
  have d: "distinct (map fst cbs)" by (rule cbs_matchD(1) [OF m])
  have "inj_on snd (set cbs)"
  proof (rule inj_onI)
    fix p q assume "p \<in> set cbs" "q \<in> set cbs" "snd p = snd q"
    then show "p = q" using mem [of "fst p" "snd p"] mem [of "fst q" "snd q"] by (cases p; cases q) auto
  qed
  then show ?thesis using d mem by (auto simp: distinct_map)
qed

subsection \<open>One driver per signal\<close>

definition running :: "nat \<Rightarrow> world \<Rightarrow> vpiHandle \<Rightarrow> bool" where
  "running h w sg \<longleftrightarrow> (\<exists>k. clocks w h = Some k \<and> cb_handle k \<noteq> None \<and> signal_hdl k = sg)"

definition single_driver :: "world \<Rightarrow> bool" where
  "single_driver w \<longleftrightarrow>
     (\<forall>h sg. running h w sg \<longrightarrow> sg \<in> active_signals w)
     \<and> (\<forall>h h' sg. running h w sg \<longrightarrow> running h' w sg \<longrightarrow> h = h')"

lemma single_driver_cong:
  assumes "single_driver w" and "\<And>g sg. running g w' sg \<Longrightarrow> running g w sg"
    and "active_signals w \<subseteq> active_signals w'"
  shows "single_driver w'"
  using assms unfolding single_driver_def by blast

lemma single_driver_stop:
  assumes sd: "single_driver w" and k: "clocks w h = Some k" and may: "may_stop h w"
    and run: "\<And>g sg. running g w' sg \<Longrightarrow> running g w sg \<and> g \<noteq> h"
    and act: "active_signals w' = active_signals w - {signal_hdl k}"
  shows "single_driver w'"
proof -
  have "sg \<noteq> signal_hdl k" if "running g w sg" "g \<noteq> h" for g sg
  proof (cases "cb_handle k")
    case None
    then show ?thesis using may k that unfolding may_stop_def running_def by blast
  next
    case (Some x)
    then have "running h w (signal_hdl k)" using k by (simp add: running_def)
    then show ?thesis using sd that unfolding single_driver_def by blast
  qed
  then show ?thesis using sd run act unfolding single_driver_def by blast
qed

lemma single_driver_fire:
  assumes X: "quiet_put X" and sd: "single_driver w" and k: "clocks w h = Some k"
    and armed: "cb_handle k \<noteq> None" and flags: "\<not> destroy_pending k"
    and run: "run_toggle_callback X C h w = Inr w'"
  shows "single_driver w'"
proof -
  let ?k1 = "k\<lparr>cb_handle := None, in_callback := True\<rparr>"
  let ?v = "set_clock h ?k1 (set_clock h (k\<lparr>cb_handle := None\<rparr>) w)"
  obtain rc v' k2 where t: "toggle X C False h ?v = Inr (rc, v')" and k2: "clocks v' h = Some k2"
    and w': "(let w3 = set_clock h (k2\<lparr>in_callback := False\<rparr>) v'
       in if destroy_pending k2 then and_then (clock_stop h w3) (clock_drop h) else Inr w3) = Inr w'"
    using run k flags by (auto simp: run_toggle_callback_def get_clock_Some and_then_eq_Inr Let_def)
  have "clocks ?v h = Some ?k1" by simp
  then obtain x where c0: "x = 0 \<Longrightarrow> clocks v' = (clocks ?v)(h \<mapsto> toggled ?k1) \<and> active_signals v' = active_signals ?v"
    and c1: "x \<noteq> 0 \<Longrightarrow> clocks v' = (clocks ?v)(h \<mapsto> (toggled ?k1)\<lparr>cb_handle := Some x\<rparr>)
        \<and> active_signals v' = active_signals ?v"
    using toggle_quiet [OF X _ t] by metis
  then have "\<not> destroy_pending k2" using k2 flags by (cases "x = 0") auto
  then have w'': "w' = set_clock h (k2\<lparr>in_callback := False\<rparr>) v'" using w' by (simp add: Let_def)
  have "signal_hdl k2 = signal_hdl k" using c0 c1 k2 by (cases "x = 0") auto
  then have "running g w' sg \<Longrightarrow> running g w sg" for g sg
    using c0 c1 k armed by (cases "g = h"; cases "x = 0") (auto simp: running_def w'')
  moreover have "active_signals w' = active_signals w" using c0 c1 by (cases "x = 0") (auto simp: w'')
  ultimately show ?thesis using single_driver_cong [OF sd] by blast
qed

lemma single_driver_start:
  assumes X: "quiet_put X" and sd: "single_driver w"
    and s: "vpiml_native_clock_start X C h p hi sh w = Inr (rc, w')"
  shows "single_driver w'"
proof (cases "w' = w")
  case True
  then show ?thesis using sd by simp
next
  case False
  then obtain k where k: "clocks w h = Some k" and none: "cb_handle k = None"
    and free: "signal_hdl k \<notin> active_signals w"
    and t: "toggle X C True h (set_clock h (k\<lparr>period_steps := p, high_steps := hi,
                              current_val := (if sh \<noteq> 0 then 1 else 0)\<rparr>)
                (w\<lparr>active_signals := insert (signal_hdl k) (active_signals w)\<rparr>)) = Inr (rc, w')"
    (is "toggle X C True h (set_clock h ?k1 ?w) = _")
    using s by (auto simp: vpiml_native_clock_start_def clock_start_def and_then_eq_Inr split: if_splits)
  have kv: "clocks (set_clock h ?k1 ?w) h = Some ?k1" by simp
  obtain x where "x = 0 \<Longrightarrow> rc = EIO \<and> clocks w' = (clocks (set_clock h ?k1 ?w))(h \<mapsto> toggled ?k1)
        \<and> active_signals w' = (if True then active_signals (set_clock h ?k1 ?w) - {signal_hdl ?k1}
            else active_signals (set_clock h ?k1 ?w))"
    and "x \<noteq> 0 \<Longrightarrow> rc = 0 \<and> clocks w' = (clocks (set_clock h ?k1 ?w))(h \<mapsto> (toggled ?k1)\<lparr>cb_handle := Some x\<rparr>)
        \<and> active_signals w' = active_signals (set_clock h ?k1 ?w)"
    by (rule toggle_quiet [OF X kv t]) (rule that, assumption+)
  then have c0: "x = 0 \<Longrightarrow> clocks w' = (clocks w)(h \<mapsto> toggled ?k1)
        \<and> active_signals w' = active_signals ?w - {signal_hdl k}"
    and c1: "x \<noteq> 0 \<Longrightarrow> clocks w' = (clocks w)(h \<mapsto> (toggled ?k1)\<lparr>cb_handle := Some x\<rparr>)
        \<and> active_signals w' = active_signals ?w"
    by simp_all
  have other: "running g w' sg \<longleftrightarrow> running g w sg" if "g \<noteq> h" for g sg
    using c0 c1 that by (cases "x = 0") (auto simp: running_def)
  have ns: "sg \<noteq> signal_hdl k" if "running g w sg" for g sg
    using sd free that unfolding single_driver_def by blast
  show ?thesis
  proof (cases "x = 0")
    case True
    then have "\<not> running h w' sg" for sg using c0 none by (auto simp: running_def)
    moreover have "active_signals w' = active_signals w" using c0 True free by auto
    ultimately show ?thesis using sd other unfolding single_driver_def by metis
  next
    case False
    then have "running h w' sg \<longleftrightarrow> sg = signal_hdl k" for sg using c1 by (auto simp: running_def)
    moreover have "active_signals w' = insert (signal_hdl k) (active_signals w)" using c1 False by auto
    ultimately show ?thesis using sd other ns unfolding single_driver_def by (metis insertCI)
  qed
qed

lemma clock_step_single_driver:
  assumes X: "quiet_put X" and st: "clock_step X C True s t" and m: "cbs_match s"
    and sd: "single_driver (fst s)"
  shows "single_driver (fst t)"
  using st
proof cases
  case (cs_new r w h w' cbs)
  then obtain k where w': "clocks w' = (clocks w)(h \<mapsto> k)" "cb_handle k = None"
      "active_signals w' = active_signals w"
    by (auto simp: native_clock_new_def and_then_eq_Inr Let_def split: if_splits)
  have "running g w' sg \<Longrightarrow> running g w sg" for g sg
    using w' by (cases "g = h") (auto simp: running_def)
  then show ?thesis using single_driver_cong [of w w'] sd cs_new(1,2) w'(3) by simp
next
  case (cs_start h p hi sh w rc w' cbs)
  then show ?thesis using single_driver_start [OF X] sd by simp
next
  case (cs_stop h w w' cbs)
  show ?thesis
  proof (cases "h = 0")
    case True
    then show ?thesis using cs_stop sd by (simp add: vpiml_native_clock_stop_def)
  next
    case False
    then have s: "clock_stop h w = Inr w'" using cs_stop by (simp add: vpiml_native_clock_stop_def)
    then obtain k where k: "clocks w h = Some k" by (auto simp: clock_stop_def and_then_eq_Inr)
    have w': "clocks w' = (clocks w)(h \<mapsto> k\<lparr>cb_handle := None\<rparr>)"
      "active_signals w' = active_signals w - {signal_hdl k}" using clock_stop_eq [OF k] s by auto
    have "running g w' sg \<Longrightarrow> running g w sg \<and> g \<noteq> h" for g sg
      using w'(1) by (cases "g = h") (auto simp: running_def)
    then show ?thesis using single_driver_stop [OF _ k _ _ w'(2)] sd cs_stop by simp
  qed
next
  case (cs_destroy h w w' cbs)
  show ?thesis
  proof (cases "h = 0")
    case True
    then show ?thesis using cs_destroy sd by (simp add: vpiml_native_clock_destroy_def)
  next
    case False
    then obtain k where k: "clocks w h = Some k"
      using cs_destroy by (auto simp: vpiml_native_clock_destroy_def and_then_eq_Inr)
    then have "\<not> in_callback k" using cbs_matchD(4) m cs_destroy(1) by blast
    then have "clock_drop h w = Inr w'"
      using cs_destroy k False by (simp add: vpiml_native_clock_destroy_def get_clock_Some)
    then obtain w1 where "clock_stop h w = Inr w1" "w' = w1\<lparr>clocks := (clocks w1)(h := None)\<rparr>"
      by (auto simp: clock_drop_def and_then_eq_Inr)
    then have w': "clocks w' = (clocks w)(h := None)" "active_signals w' = active_signals w - {signal_hdl k}"
      using clock_stop_eq [OF k] by auto
    have "running g w' sg \<Longrightarrow> running g w sg \<and> g \<noteq> h" for g sg
      using w'(1) by (cases "g = h") (auto simp: running_def)
    then show ?thesis using single_driver_stop [OF _ k _ _ w'(2)] sd cs_destroy by simp
  qed
next
  case (cs_fire hdl h cbs w w')
  then obtain k where k: "clocks w h = Some k" "cb_handle k \<noteq> None" "\<not> destroy_pending k"
    using cbs_matchD(2,4) m by blast
  then show ?thesis using single_driver_fire [OF X _ k] sd cs_fire by simp
qed

text \<open>C11. As long as clients stop or destroy a clock only when it drives its signal itself or nobody
  does, two running clocks never drive the same signal, and every driven signal is registered.\<close>

theorem one_driver_per_signal:
  assumes "quiet_put X" and "clock_init s" and "(clock_step X C True)\<^sup>*\<^sup>* s (w, cbs)"
    and "running h w sg" and "running h' w sg"
  shows "h = h' \<and> sg \<in> active_signals w"
proof -
  have "cbs_match t \<and> single_driver (fst t)" if "(clock_step X C True)\<^sup>*\<^sup>* s t" for t
    using that
  proof (induction rule: rtranclp_induct)
    case base
    have "single_driver (fst s)"
      using assms(2) by (cases s) (simp add: clock_init_def single_driver_def running_def)
    then show ?case using clock_reachable_match [OF assms(1,2)] by blast
  next
    case (step t u)
    then show ?case using clock_step_match [OF assms(1)] clock_step_single_driver [OF assms(1)] by blast
  qed
  from this [OF assms(3)] have "single_driver w" by simp
  then show ?thesis using assms(4,5) unfolding single_driver_def by blast
qed

subsection \<open>Concrete clients\<close>

text \<open>Two clocks on the signal at address 1; the first is running.\<close>

definition two_clocks :: world where
  "two_clocks = (case demo_clock of (a, w) \<Rightarrow> snd (projr (native_clock_new 1 w)))"

definition one_running :: world where
  "one_running = snd (projr (vpiml_native_clock_start recording_sim verilator_build 1 10 5 1 two_clocks))"

lemma demo_clock_steps:
  "(clock_step recording_sim verilator_build True)\<^sup>*\<^sup>* (demo_world, []) (two_clocks, [])"
  "vpiml_native_clock_start recording_sim verilator_build 1 10 5 1 two_clocks = Inr (0, one_running)"
  "clock_init (demo_world, [])"
proof -
  let ?m = "native_clock_new 1 demo_world"
  have "case ?m of Inl e \<Rightarrow> False | Inr p \<Rightarrow> ok (native_clock_new 1 (snd p))" by code_simp
  then obtain h w g v where a: "?m = Inr (h, w)" and b: "native_clock_new 1 w = Inr (g, v)"
    by (auto simp: ok_iff split: sum.splits)
  have v: "v = two_clocks" using a b by (simp add: two_clocks_def demo_clock_def)
  show "(clock_step recording_sim verilator_build True)\<^sup>*\<^sup>* (demo_world, []) (two_clocks, [])"
    using clock_step.cs_new [OF a] clock_step.cs_new [OF b] unfolding v
    by (meson rtranclp.rtrancl_into_rtrancl rtranclp.rtrancl_refl)
  have "case vpiml_native_clock_start recording_sim verilator_build 1 10 5 1 two_clocks of
      Inl e \<Rightarrow> False | Inr (rc, w) \<Rightarrow> rc = 0" by code_simp
  then show "vpiml_native_clock_start recording_sim verilator_build 1 10 5 1 two_clocks = Inr (0, one_running)"
    by (auto simp: one_running_def split: sum.splits)
  show "clock_init (demo_world, [])" by (simp add: clock_init_def demo_world_def empty_world_def)
qed

lemma one_running_reachable:
  "\<exists>cbs. (clock_step recording_sim verilator_build True)\<^sup>*\<^sup>* (demo_world, []) (one_running, cbs)"
proof -
  have "clock_step recording_sim verilator_build True (two_clocks, [])
      (one_running, track (new_calls two_clocks one_running) [])"
    by (rule clock_step.cs_start [OF demo_clock_steps(2)]) (simp add: fresh_in_def)
  then show ?thesis using demo_clock_steps(1) by (meson rtranclp.rtrancl_into_rtrancl)
qed

lemma one_running_runs: "running 1 one_running 100"
proof -
  have "case clocks one_running 1 of None \<Rightarrow> False | Some k \<Rightarrow> cb_handle k \<noteq> None \<and> signal_hdl k = 100"
    by code_simp
  then show ?thesis by (auto simp: running_def split: option.splits)
qed

lemma toggle_callbacks_live_witness:
  "\<exists>cbs. (clock_step recording_sim verilator_build True)\<^sup>*\<^sup>* (demo_world, []) (one_running, cbs)
     \<and> distinct (map snd cbs) \<and> cbs \<noteq> []"
proof -
  obtain cbs where r: "(clock_step recording_sim verilator_build True)\<^sup>*\<^sup>* (demo_world, []) (one_running, cbs)"
    using one_running_reachable by blast
  note t = toggle_callbacks_live [OF quiet_recording_sim demo_clock_steps(3) r]
  obtain k hdl where "clocks one_running 1 = Some k" "cb_handle k = Some hdl"
    using one_running_runs by (auto simp: running_def)
  then have "(hdl, 1) \<in> set cbs" using t by blast
  then have "cbs \<noteq> []" by auto
  then show ?thesis using r t by blast
qed

lemma one_driver_per_signal_witness:
  "100 \<in> active_signals one_running"
proof -
  obtain cbs where r: "(clock_step recording_sim verilator_build True)\<^sup>*\<^sup>* (demo_world, []) (one_running, cbs)"
    using one_running_reachable by blast
  show ?thesis
    using one_driver_per_signal [OF quiet_recording_sim demo_clock_steps(3) r one_running_runs one_running_runs]
    by blast
qed

definition second_driver :: "(int \<times> world) res" where
  "second_driver =
     and_then (vpiml_native_clock_start recording_sim verilator_build 2 10 5 1 one_running) (\<lambda>(rc, w1).
       if rc \<noteq> EEXIST then Inl (Panic ''not refused'')
       else
         and_then (vpiml_native_clock_destroy 2 w1) (\<lambda>w2.
         and_then (native_clock_new 1 w2) (\<lambda>(h, w3).
           vpiml_native_clock_start recording_sim verilator_build h 10 5 1 w3)))"

text \<open>Without that discipline the registry is defeated: destroying an idle clock on the signal
  unregisters the running one, and a third clock starts on the same signal.\<close>

theorem idle_destroy_admits_second_driver:
  "\<exists>w h. second_driver = Inr (0, w) \<and> h \<noteq> 1 \<and> running 1 w 100 \<and> running h w 100"
proof -
  define w where "w = snd (projr second_driver)"
  have "ok second_driver" and z: "fst (projr second_driver) = 0" by code_simp+
  have r: "case clocks w 1 of None \<Rightarrow> False | Some k \<Rightarrow> cb_handle k \<noteq> None \<and> signal_hdl k = 100"
    "case clocks w 3 of None \<Rightarrow> False | Some k \<Rightarrow> cb_handle k \<noteq> None \<and> signal_hdl k = 100"
    unfolding w_def by code_simp+
  obtain p where p: "second_driver = Inr p" using \<open>ok second_driver\<close> unfolding ok_iff by (elim exE)
  have "second_driver = Inr (0, w)" using p z unfolding w_def by (metis prod.collapse sum.sel(2))
  moreover have "running 1 w 100" "running 3 w 100"
    using r by (auto simp: running_def split: option.splits)
  ultimately show ?thesis by (intro exI [of _ w] exI [of _ 3]) simp
qed

end
