(* ===== verification/HierCache.thy ===== *)
theory HierCache
  imports Prelude
begin

text \<open>
  The hierarchy cache of \<^verbatim>\<open>vpi_access/hierarchy_collect.rs\<close>: the binary format \<open>save_cache\<close> writes,
  the reader \<open>try_load_cache\<close> with its checks, and \<open>get_or_init_hierarchy_cache\<close>. A codec locale
  states what one field promises (what was written is read back, a truncated field is rejected);
  the format is built from interpretations of it. File bytes are a \<open>u8 list\<close>; reading, mapping and
  writing the file do not fail in the model.
\<close>

record hierarchy_entry =
  full_path :: string
  def_name :: "string option"
  sig_type :: "string option"
  level :: u32
  bitwidth :: u32

subsection \<open>Writing\<close>

text \<open>
  A writer state: the bytes written and whether all writes so far succeeded. After an error nothing
  more is written; what was written stays in the file.
\<close>

type_synonym writer = "u8 list \<times> bool"

definition write_all :: "u8 list \<Rightarrow> writer \<Rightarrow> writer" where
  "write_all bs w = (if snd w then (fst w @ bs, True) else w)"

definition str_bytes :: "string \<Rightarrow> u8 list" where
  "str_bytes s = map (\<lambda>c. of_nat (of_char c)) s"

definition write_len_prefixed_str :: "string \<Rightarrow> writer \<Rightarrow> writer" where
  "write_len_prefixed_str s w =
     (if length s > 65535 then (fst w, False)
      else write_all (str_bytes s) (write_all (le_bytes 2 (length s)) w))"

definition write_len_prefixed_opt_str :: "string option \<Rightarrow> writer \<Rightarrow> writer" where
  "write_len_prefixed_opt_str s w =
     (case s of Some v \<Rightarrow> write_len_prefixed_str v w | None \<Rightarrow> write_all (le_bytes 2 0) w)"

definition write_entry :: "hierarchy_entry \<Rightarrow> writer \<Rightarrow> writer" where
  "write_entry e w =
     (if \<not> snd w then w
      else
        let w1 = write_len_prefixed_str (full_path e) w in if \<not> snd w1 then w1 else
        let w2 = write_len_prefixed_opt_str (def_name e) w1 in if \<not> snd w2 then w2 else
        let w3 = write_len_prefixed_opt_str (sig_type e) w2 in if \<not> snd w3 then w3 else
        write_all (le_bytes 4 (unat (bitwidth e))) (write_all (le_bytes 4 (unat (level e))) w3))"

definition HIERARCHY_CACHE_MAGIC :: nat where
  "HIERARCHY_CACHE_MAGIC = 0x56484932"

definition u64_max :: nat where
  "u64_max = 2 ^ 64 - 1"

definition the_mtime :: "u64 option \<Rightarrow> nat" where
  "the_mtime m = (case m of None \<Rightarrow> u64_max | Some t \<Rightarrow> unat t)"

definition the_source :: "string option \<Rightarrow> string" where
  "the_source s = (case s of None \<Rightarrow> [] | Some p \<Rightarrow> p)"

definition save_cache :: "hierarchy_entry list \<Rightarrow> u64 option \<Rightarrow> string option \<Rightarrow> writer" where
  "save_cache entries source_mtime source_path =
     (let w = write_all (le_bytes 4 HIERARCHY_CACHE_MAGIC) ([], True);
          w = write_all (le_bytes 8 (the_mtime source_mtime)) w;
          w = write_all (le_bytes 4 (length entries mod 2 ^ 32)) w;
          w = write_len_prefixed_str (the_source source_path) w
      in fold write_entry entries w)"

subsection \<open>Reading\<close>

definition read_le :: "nat \<Rightarrow> u8 list \<Rightarrow> nat \<Rightarrow> (nat \<times> nat) option" where
  "read_le n data pos =
     (if pos + n \<le> length data then Some (from_le (take n (drop pos data)), pos + n) else None)"

definition read_u16_le :: "u8 list \<Rightarrow> nat \<Rightarrow> (nat \<times> nat) option" where
  "read_u16_le data pos = read_le 2 data pos"

definition read_i32_le :: "u8 list \<Rightarrow> nat \<Rightarrow> (u32 \<times> nat) option" where
  "read_i32_le data pos = map_option (\<lambda>(v, p). (of_nat v, p)) (read_le 4 data pos)"

definition bytes_str :: "u8 list \<Rightarrow> string" where
  "bytes_str bs = map (\<lambda>b. char_of (unat b)) bs"

definition read_string_at :: "u8 list \<Rightarrow> nat \<Rightarrow> nat \<Rightarrow> (string \<times> nat) option" where
  "read_string_at data pos len =
     (if pos + len \<le> length data then
        let s = bytes_str (take len (drop pos data))
        in if utf8_valid s then Some (s, pos + len) else None
      else None)"

definition read_len_prefixed_string :: "u8 list \<Rightarrow> nat \<Rightarrow> (string \<times> nat) option" where
  "read_len_prefixed_string data pos =
     Option.bind (read_u16_le data pos) (\<lambda>(len, pos). read_string_at data pos len)"

definition read_opt_string :: "u8 list \<Rightarrow> nat \<Rightarrow> (string option \<times> nat) option" where
  "read_opt_string data pos =
     Option.bind (read_u16_le data pos) (\<lambda>(len, pos).
       if len > 0 then map_option (\<lambda>(s, p). (Some s, p)) (read_string_at data pos len)
       else Some (None, pos))"

definition read_entry :: "u8 list \<Rightarrow> nat \<Rightarrow> (hierarchy_entry \<times> nat) option" where
  "read_entry data pos =
     Option.bind (read_len_prefixed_string data pos) (\<lambda>(p, pos).
     Option.bind (read_opt_string data pos) (\<lambda>(m, pos).
     Option.bind (read_opt_string data pos) (\<lambda>(t, pos).
     Option.bind (read_i32_le data pos) (\<lambda>(l, pos).
     Option.bind (read_i32_le data pos) (\<lambda>(b, pos).
       Some (\<lparr>full_path = p, def_name = m, sig_type = t, level = l, bitwidth = b\<rparr>, pos))))))"

fun read_n :: "(u8 list \<Rightarrow> nat \<Rightarrow> ('a \<times> nat) option) \<Rightarrow> nat \<Rightarrow> u8 list \<Rightarrow> nat \<Rightarrow> ('a list \<times> nat) option" where
  "read_n rd 0 data pos = Some ([], pos)"
| "read_n rd (Suc n) data pos =
     Option.bind (rd data pos) (\<lambda>(x, pos).
     Option.bind (read_n rd n data pos) (\<lambda>(xs, pos). Some (x # xs, pos)))"

definition source_mismatch :: "string \<Rightarrow> string option \<Rightarrow> bool" where
  "source_mismatch cached current \<longleftrightarrow>
     cached \<noteq> [] \<and> (case current of None \<Rightarrow> False | Some c \<Rightarrow> c \<noteq> [] \<and> cached \<noteq> c)"

definition cache_stale :: "nat \<Rightarrow> u64 option \<Rightarrow> bool" where
  "cache_stale cached current \<longleftrightarrow>
     cached \<noteq> u64_max \<and> (case current of None \<Rightarrow> False | Some c \<Rightarrow> cached \<noteq> unat c)"

definition try_load_cache ::
  "u8 list \<Rightarrow> u64 option \<Rightarrow> string option \<Rightarrow> hierarchy_entry list option" where
  "try_load_cache data current_mtime current_source_path =
     (if length data < 16 then None
      else if from_le (take 4 data) \<noteq> HIERARCHY_CACHE_MAGIC then None
      else
        let cached_mtime = from_le (take 8 (drop 4 data));
            entry_count = from_le (take 4 (drop 12 data))
        in Option.bind (read_len_prefixed_string data 16) (\<lambda>(cached_source_path, pos).
             if source_mismatch cached_source_path current_source_path then None
             else if cache_stale cached_mtime current_mtime then None
             else
               let remaining = length data - pos;
                   max_entries = remaining div 14
               in if entry_count > max_entries then None
                  else map_option fst (read_n read_entry entry_count data pos)))"

subsection \<open>The cache\<close>

text \<open>
  \<open>HIERARCHY_CACHE\<close> and the cache file, read through the current modification time and path of the
  source; \<open>collected\<close> is what a traversal of the design
  returns (\<open>None\<close>: it does not return).
\<close>

record cache_state =
  cache_mem :: "hierarchy_entry list option"
  cache_file :: "u8 list option"

definition load_file :: "cache_state \<Rightarrow> u64 option \<Rightarrow> string option \<Rightarrow> hierarchy_entry list option" where
  "load_file s mt src = Option.bind (cache_file s) (\<lambda>data. try_load_cache data mt src)"

definition get_or_init_hierarchy_cache ::
  "u64 option \<Rightarrow> string option \<Rightarrow> hierarchy_entry list option \<Rightarrow> cache_state \<Rightarrow>
   (hierarchy_entry list \<times> cache_state) option" where
  "get_or_init_hierarchy_cache mt src collected s =
     (case cache_mem s of
        Some entries \<Rightarrow> Some (entries, s)
      | None \<Rightarrow>
          (case load_file s mt src of
             Some entries \<Rightarrow> Some (entries, s\<lparr>cache_mem := Some entries\<rparr>)
           | None \<Rightarrow>
               map_option (\<lambda>es. (es, \<lparr>cache_mem = Some es,
                            cache_file = Some (fst (save_cache es mt src))\<rparr>)) collected))"

subsection \<open>Codecs\<close>

text \<open>
  A field codec: a value that can be encoded is read back from wherever it is in the data, and a
  proper prefix of its encoding at the end of the data is rejected.
\<close>

locale codec =
  fixes enc :: "'a \<Rightarrow> u8 list" and dec :: "u8 list \<Rightarrow> nat \<Rightarrow> ('a \<times> nat) option"
    and valid :: "'a \<Rightarrow> bool"
  assumes round_trip: "valid x \<Longrightarrow> pos = length pre \<Longrightarrow>
      dec (pre @ enc x @ post) pos = Some (x, pos + length (enc x))"
    and truncated: "valid x \<Longrightarrow> pos = length pre \<Longrightarrow> n < length (enc x) \<Longrightarrow>
      dec (pre @ take n (enc x)) pos = None"
begin

lemma read_n_round_trip:
  "list_all valid xs \<Longrightarrow> pos = length pre \<Longrightarrow>
   read_n dec (length xs) (pre @ concat (map enc xs) @ post) pos
     = Some (xs, pos + length (concat (map enc xs)))"
proof (induction xs arbitrary: pre pos)
  case Nil
  then show ?case by simp
next
  case (Cons x xs)
  have "dec (pre @ enc x @ concat (map enc xs) @ post) pos = Some (x, pos + length (enc x))"
    using Cons.prems by (intro round_trip) simp_all
  moreover have "read_n dec (length xs) ((pre @ enc x) @ concat (map enc xs) @ post) (pos + length (enc x))
      = Some (xs, pos + length (enc x) + length (concat (map enc xs)))"
    using Cons.prems by (intro Cons.IH) simp_all
  ultimately show ?case by simp
qed

lemma read_n_truncated:
  "list_all valid xs \<Longrightarrow> pos = length pre \<Longrightarrow> n < length (concat (map enc xs)) \<Longrightarrow>
   read_n dec (length xs) (pre @ take n (concat (map enc xs))) pos = None"
proof (induction xs arbitrary: pre pos n)
  case Nil
  then show ?case by simp
next
  case (Cons x xs)
  show ?case
  proof (cases "n < length (enc x)")
    case True
    then show ?thesis using Cons.prems truncated [of x pos pre n] by simp
  next
    case False
    let ?t = "take (n - length (enc x)) (concat (map enc xs))"
    have "dec (pre @ enc x @ ?t) pos = Some (x, pos + length (enc x))"
      using Cons.prems by (intro round_trip) simp_all
    moreover have "read_n dec (length xs) ((pre @ enc x) @ ?t) (pos + length (enc x)) = None"
      using Cons.prems False by (intro Cons.IH) simp_all
    ultimately show ?thesis using False by simp
  qed
qed

end

text \<open>Two fields one after the other form a codec.\<close>

definition then_read ::
  "(u8 list \<Rightarrow> nat \<Rightarrow> ('a \<times> nat) option) \<Rightarrow> (u8 list \<Rightarrow> nat \<Rightarrow> ('b \<times> nat) option) \<Rightarrow>
   u8 list \<Rightarrow> nat \<Rightarrow> (('a \<times> 'b) \<times> nat) option" where
  "then_read d1 d2 data pos =
     Option.bind (d1 data pos) (\<lambda>(x, p). Option.bind (d2 data p) (\<lambda>(y, q). Some ((x, y), q)))"

locale codec_pair = c1: codec enc1 dec1 valid1 + c2: codec enc2 dec2 valid2
  for enc1 :: "'a \<Rightarrow> u8 list" and dec1 valid1 and enc2 :: "'b \<Rightarrow> u8 list" and dec2 valid2

sublocale codec_pair \<subseteq> seq: codec "\<lambda>p. enc1 (fst p) @ enc2 (snd p)" "then_read dec1 dec2"
  "\<lambda>p. valid1 (fst p) \<and> valid2 (snd p)"
proof unfold_locales
  fix p :: "'a \<times> 'b" and pos and pre post :: "u8 list"
  assume v: "valid1 (fst p) \<and> valid2 (snd p)" and pos: "pos = length pre"
  have "dec1 (pre @ enc1 (fst p) @ enc2 (snd p) @ post) pos = Some (fst p, pos + length (enc1 (fst p)))"
    using v pos by (intro c1.round_trip) simp_all
  moreover have "dec2 ((pre @ enc1 (fst p)) @ enc2 (snd p) @ post) (pos + length (enc1 (fst p)))
      = Some (snd p, pos + length (enc1 (fst p)) + length (enc2 (snd p)))"
    using v pos by (intro c2.round_trip) simp_all
  ultimately show "then_read dec1 dec2 (pre @ (enc1 (fst p) @ enc2 (snd p)) @ post) pos
      = Some (p, pos + length (enc1 (fst p) @ enc2 (snd p)))"
    by (simp add: then_read_def)
next
  fix p :: "'a \<times> 'b" and pos n and pre :: "u8 list"
  assume v: "valid1 (fst p) \<and> valid2 (snd p)" and pos: "pos = length pre"
    and n: "n < length (enc1 (fst p) @ enc2 (snd p))"
  show "then_read dec1 dec2 (pre @ take n (enc1 (fst p) @ enc2 (snd p))) pos = None"
  proof (cases "n < length (enc1 (fst p))")
    case True
    then show ?thesis using c1.truncated [of "fst p" pos pre n] v pos by (simp add: then_read_def)
  next
    case False
    let ?t = "take (n - length (enc1 (fst p))) (enc2 (snd p))"
    have "dec1 (pre @ enc1 (fst p) @ ?t) pos = Some (fst p, pos + length (enc1 (fst p)))"
      using v pos by (intro c1.round_trip) simp_all
    moreover have "dec2 ((pre @ enc1 (fst p)) @ ?t) (pos + length (enc1 (fst p))) = None"
      using v pos n False by (intro c2.truncated) simp_all
    ultimately show ?thesis using False by (simp add: then_read_def)
  qed
qed

subsection \<open>The fields of the format\<close>

lemma read_le_round_trip:
  "v < 256 ^ n \<Longrightarrow> pos = length pre \<Longrightarrow> read_le n (pre @ le_bytes n v @ post) pos = Some (v, pos + n)"
  by (simp add: read_le_def from_le_le_bytes)

lemma read_le_truncated: "length data < pos + n \<Longrightarrow> read_le n data pos = None"
  by (simp add: read_le_def)

interpretation u16: codec "le_bytes 2" read_u16_le "\<lambda>v. v < 65536"
  by unfold_locales (simp_all add: read_u16_le_def read_le_round_trip read_le_truncated)

interpretation i32: codec "\<lambda>v. le_bytes 4 (unat v)" read_i32_le "\<lambda>v. True"
proof unfold_locales
  fix x :: u32 and pos and pre post :: "u8 list" assume "pos = length pre"
  moreover have "unat x < 256 ^ 4" using unsigned_less [of x, where ?'a=nat] by simp
  ultimately show "read_i32_le (pre @ le_bytes 4 (unat x) @ post) pos = Some (x, pos + length (le_bytes 4 (unat x)))"
    by (simp add: read_i32_le_def read_le_round_trip)
next
  fix x :: u32 and pos n and pre :: "u8 list"
  assume "pos = length pre" "n < length (le_bytes 4 (unat x))"
  then show "read_i32_le (pre @ take n (le_bytes 4 (unat x))) pos = None"
    by (simp add: read_i32_le_def read_le_truncated)
qed

definition enc_str :: "string \<Rightarrow> u8 list" where
  "enc_str s = le_bytes 2 (length s) @ str_bytes s"

definition enc_opt_str :: "string option \<Rightarrow> u8 list" where
  "enc_opt_str s = enc_str (case s of None \<Rightarrow> [] | Some v \<Rightarrow> v)"

definition storable :: "string \<Rightarrow> bool" where
  "storable s \<longleftrightarrow> utf8_valid s \<and> length s \<le> 65535"

definition storable_opt :: "string option \<Rightarrow> bool" where
  "storable_opt s = (case s of None \<Rightarrow> True | Some v \<Rightarrow> v \<noteq> [] \<and> storable v)"

lemma bytes_str_bytes [simp]: "bytes_str (str_bytes s) = s"
proof -
  have "unat (of_nat (of_char c) :: u8) = of_char c" for c :: char
    by (rule unat_of_nat_u8) (rule nat_of_char_less_256)
  then show ?thesis by (simp add: bytes_str_def str_bytes_def o_def)
qed

lemma length_str_bytes [simp]: "length (str_bytes s) = length s"
  by (simp add: str_bytes_def)

lemma length_enc_str [simp]: "length (enc_str s) = 2 + length s"
  by (simp add: enc_str_def)

lemma read_string_at_bytes:
  "utf8_valid s \<Longrightarrow> pos = length pre \<Longrightarrow>
   read_string_at (pre @ str_bytes s @ post) pos (length s) = Some (s, pos + length s)"
  by (simp add: read_string_at_def)

lemma read_string_at_truncated: "length data < pos + n \<Longrightarrow> read_string_at data pos n = None"
  by (simp add: read_string_at_def)

text \<open>The length prefix of a string and, where it is complete, the cut of its payload.\<close>

lemma read_prefix:
  assumes "length s \<le> 65535" and "pos = length pre"
  shows "read_u16_le (pre @ le_bytes 2 (length s) @ post) pos = Some (length s, pos + 2)"
  using u16.round_trip [of "length s" pos pre post] assms by simp

lemma take_enc_str: "\<not> n < 2 \<Longrightarrow> take n (enc_str s) = le_bytes 2 (length s) @ take (n - 2) (str_bytes s)"
  by (simp add: enc_str_def)

lemma take_enc_str_short: "n < 2 \<Longrightarrow> length (take n (enc_str s)) < 2"
  by simp

interpretation str: codec enc_str read_len_prefixed_string storable
proof unfold_locales
  fix s pos and pre post :: "u8 list" assume s: "storable s" and pos: "pos = length pre"
  have "read_string_at ((pre @ le_bytes 2 (length s)) @ str_bytes s @ post) (pos + 2) (length s)
      = Some (s, pos + 2 + length s)"
    using s pos by (intro read_string_at_bytes) (simp_all add: storable_def)
  then show "read_len_prefixed_string (pre @ enc_str s @ post) pos = Some (s, pos + length (enc_str s))"
    using s pos by (simp add: read_len_prefixed_string_def enc_str_def read_prefix storable_def)
next
  fix s pos n and pre :: "u8 list"
  assume s: "storable s" and pos: "pos = length pre" and n: "n < length (enc_str s)"
  show "read_len_prefixed_string (pre @ take n (enc_str s)) pos = None"
  proof (cases "n < 2")
    case True
    then show ?thesis
      using pos by (simp add: read_len_prefixed_string_def read_u16_le_def read_le_truncated)
  next
    case False
    then show ?thesis using s pos n
      by (simp add: read_len_prefixed_string_def take_enc_str read_prefix storable_def
          read_string_at_truncated)
  qed
qed

interpretation opt_str: codec enc_opt_str read_opt_string storable_opt
proof unfold_locales
  fix s pos and pre post :: "u8 list" assume s: "storable_opt s" and pos: "pos = length pre"
  show "read_opt_string (pre @ enc_opt_str s @ post) pos = Some (s, pos + length (enc_opt_str s))"
  proof (cases s)
    case None
    then show ?thesis using pos read_prefix [of "[]" pos pre post]
      by (simp add: enc_opt_str_def enc_str_def read_opt_string_def str_bytes_def)
  next
    case (Some v)
    have "read_string_at ((pre @ le_bytes 2 (length v)) @ str_bytes v @ post) (pos + 2) (length v)
        = Some (v, pos + 2 + length v)"
      using s Some pos by (intro read_string_at_bytes) (simp_all add: storable_opt_def storable_def)
    then show ?thesis using s Some pos
      by (simp add: read_opt_string_def enc_opt_str_def enc_str_def read_prefix storable_def storable_opt_def)
  qed
next
  fix s pos n and pre :: "u8 list"
  assume s: "storable_opt s" and pos: "pos = length pre" and n: "n < length (enc_opt_str s)"
  show "read_opt_string (pre @ take n (enc_opt_str s)) pos = None"
  proof (cases "n < 2")
    case True
    then show ?thesis
      using pos by (simp add: read_opt_string_def enc_opt_str_def read_u16_le_def read_le_truncated)
  next
    case False
    then obtain v where "s = Some v" using n by (cases s) (simp_all add: enc_opt_str_def)
    then show ?thesis using s pos n False
      by (simp add: read_opt_string_def enc_opt_str_def take_enc_str read_prefix storable_def
          storable_opt_def read_string_at_truncated)
  qed
qed

text \<open>An entry is the sequence of its five fields.\<close>

interpretation p1: codec_pair "\<lambda>v :: u32. le_bytes 4 (unat v)" read_i32_le "\<lambda>v. True"
  "\<lambda>v :: u32. le_bytes 4 (unat v)" read_i32_le "\<lambda>v. True"
  by unfold_locales

interpretation p2: codec_pair enc_opt_str read_opt_string storable_opt
  "\<lambda>p :: u32 \<times> u32. le_bytes 4 (unat (fst p)) @ le_bytes 4 (unat (snd p))"
  "then_read read_i32_le read_i32_le" "\<lambda>p. True \<and> True"
  by unfold_locales

interpretation p3: codec_pair enc_opt_str read_opt_string storable_opt
  "\<lambda>p :: string option \<times> u32 \<times> u32. enc_opt_str (fst p) @ le_bytes 4 (unat (fst (snd p))) @ le_bytes 4 (unat (snd (snd p)))"
  "then_read read_opt_string (then_read read_i32_le read_i32_le)"
  "\<lambda>p. storable_opt (fst p) \<and> True \<and> True"
  by unfold_locales

interpretation p4: codec_pair enc_str read_len_prefixed_string storable
  "\<lambda>p :: string option \<times> string option \<times> u32 \<times> u32. enc_opt_str (fst p) @ enc_opt_str (fst (snd p))
     @ le_bytes 4 (unat (fst (snd (snd p)))) @ le_bytes 4 (unat (snd (snd (snd p))))"
  "then_read read_opt_string (then_read read_opt_string (then_read read_i32_le read_i32_le))"
  "\<lambda>p. storable_opt (fst p) \<and> storable_opt (fst (snd p)) \<and> True \<and> True"
  by unfold_locales

definition enc_entry :: "hierarchy_entry \<Rightarrow> u8 list" where
  "enc_entry e = enc_str (full_path e) @ enc_opt_str (def_name e) @ enc_opt_str (sig_type e)
     @ le_bytes 4 (unat (level e)) @ le_bytes 4 (unat (bitwidth e))"

definition storable_entry :: "hierarchy_entry \<Rightarrow> bool" where
  "storable_entry e \<longleftrightarrow> storable (full_path e) \<and> storable_opt (def_name e) \<and> storable_opt (sig_type e)"

definition tuple_of :: "hierarchy_entry \<Rightarrow> string \<times> string option \<times> string option \<times> u32 \<times> u32" where
  "tuple_of e = (full_path e, def_name e, sig_type e, level e, bitwidth e)"

definition of_tuple :: "string \<times> string option \<times> string option \<times> u32 \<times> u32 \<Rightarrow> hierarchy_entry" where
  "of_tuple t = (case t of (p, m, s, l, b) \<Rightarrow>
     \<lparr>full_path = p, def_name = m, sig_type = s, level = l, bitwidth = b\<rparr>)"

lemma of_tuple_of [simp]: "of_tuple (tuple_of e) = e"
  by (simp add: of_tuple_def tuple_of_def)

lemma read_entry_tuple: "read_entry data pos = map_option (\<lambda>(t, p). (of_tuple t, p))
    (then_read read_len_prefixed_string (then_read read_opt_string
       (then_read read_opt_string (then_read read_i32_le read_i32_le))) data pos)"
  unfolding read_entry_def then_read_def of_tuple_def
  by (simp split: bind_split prod.splits)

lemma enc_entry_tuple: "enc_entry e = (\<lambda>p. enc_str (fst p) @ enc_opt_str (fst (snd p)) @ enc_opt_str (fst (snd (snd p)))
     @ le_bytes 4 (unat (fst (snd (snd (snd p))))) @ le_bytes 4 (unat (snd (snd (snd (snd p)))))) (tuple_of e)"
  by (simp add: enc_entry_def tuple_of_def)

interpretation entry: codec enc_entry read_entry storable_entry
proof unfold_locales
  fix e pos and pre post :: "u8 list" assume "storable_entry e" "pos = length pre"
  then show "read_entry (pre @ enc_entry e @ post) pos = Some (e, pos + length (enc_entry e))"
    using p4.seq.round_trip [of "tuple_of e" pos pre post]
    by (simp add: read_entry_tuple enc_entry_tuple storable_entry_def tuple_of_def)
       (simp add: of_tuple_def)
next
  fix e pos n and pre :: "u8 list"
  assume "storable_entry e" "pos = length pre" "n < length (enc_entry e)"
  then show "read_entry (pre @ take n (enc_entry e)) pos = None"
    using p4.seq.truncated [of "tuple_of e" pos pre n]
    by (simp add: read_entry_tuple enc_entry_tuple storable_entry_def tuple_of_def)
qed

subsection \<open>What a save leaves in the file\<close>

definition utf8_opt :: "string option \<Rightarrow> bool" where
  "utf8_opt s = (case s of None \<Rightarrow> True | Some v \<Rightarrow> utf8_valid v)"

definition utf8_entry :: "hierarchy_entry \<Rightarrow> bool" where
  "utf8_entry e \<longleftrightarrow> utf8_valid (full_path e) \<and> utf8_opt (def_name e) \<and> utf8_opt (sig_type e)"

definition fits :: "string \<Rightarrow> bool" where
  "fits s \<longleftrightarrow> length s \<le> 65535"

definition fits_entry :: "hierarchy_entry \<Rightarrow> bool" where
  "fits_entry e \<longleftrightarrow> fits (full_path e) \<and> fits (the_source (def_name e)) \<and> fits (the_source (sig_type e))"

text \<open>An absent and an empty optional string have the same encoding; the reader returns the former.\<close>

definition norm_opt :: "string option \<Rightarrow> string option" where
  "norm_opt s = (if s = Some [] then None else s)"

definition norm_entry :: "hierarchy_entry \<Rightarrow> hierarchy_entry" where
  "norm_entry e = e\<lparr>def_name := norm_opt (def_name e), sig_type := norm_opt (sig_type e)\<rparr>"

text \<open>An entry whose over-long strings are replaced by the empty string.\<close>

definition clip :: "string \<Rightarrow> string" where
  "clip s = (if fits s then s else [])"

definition clip_entry :: "hierarchy_entry \<Rightarrow> hierarchy_entry" where
  "clip_entry e = e\<lparr>full_path := clip (full_path e), def_name := map_option clip (def_name e),
     sig_type := map_option clip (sig_type e)\<rparr>"

definition file_bytes :: "nat \<Rightarrow> string \<Rightarrow> hierarchy_entry list \<Rightarrow> u8 list" where
  "file_bytes mt src es = le_bytes 4 HIERARCHY_CACHE_MAGIC @ le_bytes 8 mt
     @ le_bytes 4 (length es mod 2 ^ 32) @ enc_str src @ concat (map enc_entry es)"

lemma enc_norm_opt [simp]: "enc_opt_str (norm_opt s) = enc_opt_str s"
  by (auto simp: enc_opt_str_def norm_opt_def)

lemma enc_norm_entry [simp]: "enc_entry (norm_entry e) = enc_entry e"
  by (simp add: enc_entry_def norm_entry_def)

lemma file_bytes_norm: "file_bytes mt src (map norm_entry es) = file_bytes mt src es"
  by (simp add: file_bytes_def o_def)

lemma storable_norm_opt: "utf8_opt s \<Longrightarrow> fits (the_source s) \<Longrightarrow> storable_opt (norm_opt s)"
  by (auto simp: utf8_opt_def fits_def the_source_def storable_opt_def norm_opt_def storable_def
      split: option.splits)

lemma storable_norm_entry: "utf8_entry e \<Longrightarrow> fits_entry e \<Longrightarrow> storable_entry (norm_entry e)"
  by (simp add: utf8_entry_def fits_entry_def storable_entry_def norm_entry_def storable_norm_opt
      storable_def fits_def)

lemma storable_clip: "utf8_valid s \<Longrightarrow> storable (clip s)"
  by (simp add: clip_def storable_def fits_def utf8_valid_def)

lemma clip_entry_ok: "utf8_entry e \<Longrightarrow> utf8_entry (clip_entry e) \<and> fits_entry (clip_entry e)"
  by (auto simp: utf8_entry_def clip_entry_def fits_entry_def clip_def utf8_valid_def utf8_opt_def
      fits_def the_source_def split: option.splits)

lemma clip_fits: "fits_entry e \<Longrightarrow> enc_entry (clip_entry e) = enc_entry e"
  by (cases "def_name e"; cases "sig_type e")
     (simp_all add: fits_entry_def clip_entry_def clip_def the_source_def enc_entry_def)

text \<open>The writers.\<close>

lemma write_all_True [simp]: "write_all bs (x, True) = (x @ bs, True)"
  and write_all_False [simp]: "write_all bs (x, False) = (x, False)"
  by (simp_all add: write_all_def)

lemma write_str: "write_len_prefixed_str s (x, True) = (if fits s then (x @ enc_str s, True) else (x, False))"
  by (simp add: write_len_prefixed_str_def fits_def enc_str_def)

lemma write_str_False: "write_len_prefixed_str s (x, False) = (x, False)"
  by (simp add: write_len_prefixed_str_def)

lemma write_opt_str: "write_len_prefixed_opt_str s (x, True)
    = (if fits (the_source s) then (x @ enc_opt_str s, True) else (x, False))"
  by (cases s) (simp_all add: write_len_prefixed_opt_str_def the_source_def write_str enc_opt_str_def
      enc_str_def str_bytes_def fits_def)

lemma write_entry_False [simp]: "write_entry e (x, False) = (x, False)"
  by (simp add: write_entry_def)

lemma fold_write_False [simp]: "fold write_entry es (x, False) = (x, False)"
  by (induction es) simp_all

lemma write_entry_ok: "fits_entry e \<Longrightarrow> write_entry e (x, True) = (x @ enc_entry e, True)"
  by (simp add: write_entry_def fits_entry_def write_str write_opt_str enc_entry_def)

lemma write_entry_fail:
  assumes "\<not> fits_entry e"
  shows "\<exists>k < length (enc_entry (clip_entry e)).
    write_entry e (x, True) = (x @ take k (enc_entry (clip_entry e)), False)"
proof -
  let ?p = "enc_str (clip (full_path e))" and ?m = "enc_opt_str (def_name (clip_entry e))"
  let ?c = "enc_entry (clip_entry e)"
  have c: "?c = ?p @ ?m @ enc_opt_str (sig_type (clip_entry e)) @ le_bytes 4 (unat (level e))
      @ le_bytes 4 (unat (bitwidth e))"
    by (simp add: enc_entry_def clip_entry_def)
  have opt: "enc_opt_str (map_option clip s) = enc_opt_str s" if "fits (the_source s)" for s
    using that by (cases s) (simp_all add: the_source_def clip_def)
  consider (path) "\<not> fits (full_path e)" | (mod) "fits (full_path e)" "\<not> fits (the_source (def_name e))"
    | (sig) "fits (full_path e)" "fits (the_source (def_name e))" "\<not> fits (the_source (sig_type e))"
    using assms by (auto simp: fits_entry_def)
  then show ?thesis
  proof cases
    case path
    then show ?thesis
      by (intro exI [of _ 0]) (simp add: write_entry_def write_str c)
  next
    case mod
    then have "write_entry e (x, True) = (x @ ?p, False)"
      by (simp add: write_entry_def write_str write_opt_str clip_def)
    then show ?thesis by (intro exI [of _ "length ?p"]) (simp add: c del: length_enc_str)
  next
    case sig
    then have "write_entry e (x, True) = (x @ ?p @ ?m, False)"
      by (simp add: write_entry_def write_str write_opt_str clip_def clip_entry_def opt)
    then show ?thesis by (intro exI [of _ "length (?p @ ?m)"]) (simp add: c del: length_enc_str)
  qed
qed

lemma fold_write_ok:
  "list_all fits_entry es \<Longrightarrow> fold write_entry es (x, True) = (x @ concat (map enc_entry es), True)"
  by (induction es arbitrary: x) (simp_all add: write_entry_ok)

lemma fold_write_fail:
  "\<not> list_all fits_entry es \<Longrightarrow> \<exists>k < length (concat (map enc_entry (map clip_entry es))).
     fold write_entry es (x, True) = (x @ take k (concat (map enc_entry (map clip_entry es))), False)"
proof (induction es arbitrary: x)
  case Nil
  then show ?case by simp
next
  case (Cons e es)
  show ?case
  proof (cases "fits_entry e")
    case True
    then obtain k where "k < length (concat (map enc_entry (map clip_entry es)))"
      and "fold write_entry es (x @ enc_entry e, True)
        = ((x @ enc_entry e) @ take k (concat (map enc_entry (map clip_entry es))), False)"
      using Cons.IH [of "x @ enc_entry e"] Cons.prems by auto
    then show ?thesis using True
      by (intro exI [of _ "length (enc_entry e) + k"]) (simp add: write_entry_ok clip_fits)
  next
    case False
    then obtain k where "k < length (enc_entry (clip_entry e))"
      and "write_entry e (x, True) = (x @ take k (enc_entry (clip_entry e)), False)"
      using write_entry_fail by blast
    then show ?thesis by (intro exI [of _ k]) simp
  qed
qed

definition save_fits :: "hierarchy_entry list \<Rightarrow> string option \<Rightarrow> bool" where
  "save_fits es src \<longleftrightarrow> fits (the_source src) \<and> list_all fits_entry es"

lemma save_cache_header: "save_cache es mt src = fold write_entry es
    (write_len_prefixed_str (the_source src) (le_bytes 4 HIERARCHY_CACHE_MAGIC
       @ le_bytes 8 (the_mtime mt) @ le_bytes 4 (length es mod 2 ^ 32), True))"
  by (simp add: save_cache_def Let_def)

lemma save_cache_ok:
  "save_fits es src \<Longrightarrow> save_cache es mt src = (file_bytes (the_mtime mt) (the_source src) es, True)"
  by (simp add: save_cache_header save_fits_def write_str fold_write_ok file_bytes_def)

lemma save_cache_fail:
  assumes "\<not> save_fits es src"
  shows "\<exists>k < length (file_bytes (the_mtime mt) (clip (the_source src)) (map clip_entry es)).
    save_cache es mt src = (take k (file_bytes (the_mtime mt) (clip (the_source src)) (map clip_entry es)), False)"
proof (cases "fits (the_source src)")
  case True
  then obtain k where "k < length (concat (map enc_entry (map clip_entry es)))"
    and "fold write_entry es (le_bytes 4 HIERARCHY_CACHE_MAGIC @ le_bytes 8 (the_mtime mt)
          @ le_bytes 4 (length es mod 2 ^ 32) @ enc_str (the_source src), True)
      = ((le_bytes 4 HIERARCHY_CACHE_MAGIC @ le_bytes 8 (the_mtime mt) @ le_bytes 4 (length es mod 2 ^ 32)
          @ enc_str (the_source src)) @ take k (concat (map enc_entry (map clip_entry es))), False)"
    using fold_write_fail assms unfolding save_fits_def by blast
  then show ?thesis using True
    by (intro exI [of _ "18 + length (the_source src) + k"])
       (simp add: save_cache_header write_str file_bytes_def clip_def)
next
  case False
  then show ?thesis
    by (intro exI [of _ 16]) (simp add: save_cache_header write_str file_bytes_def clip_def)
qed

lemma save_cache_result: "snd (save_cache es mt src) = save_fits es src"
  using save_cache_ok save_cache_fail by (metis snd_conv)

subsection \<open>Loading what was saved\<close>

definition rejected :: "u64 option \<Rightarrow> string option \<Rightarrow> u64 option \<Rightarrow> string option \<Rightarrow> bool" where
  "rejected mt src mt' src' \<longleftrightarrow> source_mismatch (the_source src) src' \<or> cache_stale (the_mtime mt) mt'"

lemma the_mtime_bound: "the_mtime m < 256 ^ 8"
  using unsigned_less [of "the m", where ?'a=nat]
  by (cases m) (simp_all add: the_mtime_def u64_max_def)

lemma length_enc_entry: "14 \<le> length (enc_entry e)"
  by (simp add: enc_entry_def enc_opt_str_def)

lemma length_entries: "14 * length es \<le> length (concat (map enc_entry es))"
proof (induction es)
  case Nil
  show ?case by simp
next
  case (Cons e es)
  then show ?case using length_enc_entry [of e] by simp
qed

lemma header_reads:
  assumes "mt < 256 ^ 8" and "c < 2 ^ 32"
    and "data = le_bytes 4 HIERARCHY_CACHE_MAGIC @ le_bytes 8 mt @ le_bytes 4 c @ rest"
  shows "from_le (take 4 data) = HIERARCHY_CACHE_MAGIC" "from_le (take 8 (drop 4 data)) = mt"
    "from_le (take 4 (drop 12 data)) = c" "length data = 16 + length rest"
  using assms from_le_le_bytes [of HIERARCHY_CACHE_MAGIC 4] from_le_le_bytes [of mt 8]
    from_le_le_bytes [of c 4]
  by (simp_all add: HIERARCHY_CACHE_MAGIC_def del: le_bytes.simps)

lemma load_rest:
  assumes "mt < 256 ^ 8" and "c < 2 ^ 32"
    and "data = le_bytes 4 HIERARCHY_CACHE_MAGIC @ le_bytes 8 mt @ le_bytes 4 c @ rest"
  shows "try_load_cache data mt' src' =
     Option.bind (read_len_prefixed_string data 16) (\<lambda>(cached_source_path, pos).
       if source_mismatch cached_source_path src' then None
       else if cache_stale mt mt' then None
       else if c > (length data - pos) div 14 then None
       else map_option fst (read_n read_entry c data pos))"
  unfolding try_load_cache_def Let_def header_reads [OF assms]
  by simp

lemma read_source:
  assumes "storable src"
  shows "read_len_prefixed_string
     (le_bytes 4 HIERARCHY_CACHE_MAGIC @ le_bytes 8 mt @ le_bytes 4 c @ enc_str src @ rest) 16
     = Some (src, 18 + length src)"
  using str.round_trip [OF assms, of 16 "le_bytes 4 HIERARCHY_CACHE_MAGIC @ le_bytes 8 mt @ le_bytes 4 c" rest]
  by (simp del: le_bytes.simps)

lemma load_file_bytes:
  assumes "storable src" and "list_all storable_entry es" and "length es < 2 ^ 32" and "mt < 256 ^ 8"
  shows "try_load_cache (file_bytes mt src es) mt' src'
    = (if source_mismatch src src' \<or> cache_stale mt mt' then None else Some es)"
proof -
  let ?pre = "le_bytes 4 HIERARCHY_CACHE_MAGIC @ le_bytes 8 mt @ le_bytes 4 (length es) @ enc_str src"
  let ?data = "le_bytes 4 HIERARCHY_CACHE_MAGIC @ le_bytes 8 mt @ le_bytes 4 (length es) @ enc_str src
      @ concat (map enc_entry es)"
  have data: "file_bytes mt src es = ?data"
    using assms(3) by (simp add: file_bytes_def del: le_bytes.simps)
  have "read_n read_entry (length es) (?pre @ concat (map enc_entry es) @ []) (18 + length src)
      = Some (es, 18 + length src + length (concat (map enc_entry es)))"
    using assms(2) by (intro entry.read_n_round_trip) simp_all
  moreover have "length es \<le> (length ?data - (18 + length src)) div 14"
    using length_entries [of es] by simp
  ultimately show ?thesis
    unfolding data load_rest [OF assms(4,3) refl] read_source [OF assms(1)]
    by (simp del: le_bytes.simps)
qed

lemma load_torn:
  assumes "storable src" and "list_all storable_entry es" and "length es < 2 ^ 32" and "mt < 256 ^ 8"
    and n: "n < length (file_bytes mt src es)"
  shows "try_load_cache (take n (file_bytes mt src es)) mt' src' = None"
proof -
  let ?hd = "le_bytes 4 HIERARCHY_CACHE_MAGIC @ le_bytes 8 mt @ le_bytes 4 (length es)"
  let ?body = "concat (map enc_entry es)"
  have data: "file_bytes mt src es = ?hd @ enc_str src @ ?body"
    using assms(3) by (simp add: file_bytes_def del: le_bytes.simps)
  have load: "try_load_cache (?hd @ rest) mt' src' =
     Option.bind (read_len_prefixed_string (?hd @ rest) 16) (\<lambda>(cached_source_path, pos).
       if source_mismatch cached_source_path src' then None
       else if cache_stale mt mt' then None
       else if length es > (length (?hd @ rest) - pos) div 14 then None
       else map_option fst (read_n read_entry (length es) (?hd @ rest) pos))" for rest
    by (rule load_rest [OF assms(4,3)]) simp
  consider (head) "n < 16" | (source) "16 \<le> n" "n - 16 < length (enc_str src)"
    | (entries) "16 + length (enc_str src) \<le> n"
    by linarith
  then show ?thesis
  proof cases
    case head
    then have "length (take n (file_bytes mt src es)) < 16" by simp
    then show ?thesis unfolding try_load_cache_def by (rule if_P)
  next
    case source
    then have "take n (file_bytes mt src es) = ?hd @ take (n - 16) (enc_str src)"
      by (simp add: data del: le_bytes.simps length_enc_str)
    moreover have "read_len_prefixed_string (?hd @ take (n - 16) (enc_str src)) 16 = None"
      using source assms(1) by (intro str.truncated) simp_all
    ultimately show ?thesis by (simp only: load bind.bind_lzero)
  next
    case entries
    let ?t = "take (n - (18 + length src)) ?body"
    have cut: "take n (file_bytes mt src es) = ?hd @ enc_str src @ ?t"
      using entries by (simp add: data del: le_bytes.simps)
    have "n - (18 + length src) < length ?body"
      using n entries by (simp add: data del: le_bytes.simps)
    then have "read_n read_entry (length es) ((?hd @ enc_str src) @ ?t) (18 + length src) = None"
      using assms(2) by (intro entry.read_n_truncated) simp_all
    moreover have "read_len_prefixed_string (?hd @ enc_str src @ ?t) 16 = Some (src, 18 + length src)"
      using read_source [OF assms(1), of mt "length es" ?t] by simp
    ultimately show ?thesis unfolding cut load by (simp del: le_bytes.simps)
  qed
qed

lemma storable_source: "utf8_opt src \<Longrightarrow> fits (the_source src) \<Longrightarrow> storable (the_source src)"
  by (cases src) (simp_all add: storable_def fits_def the_source_def utf8_opt_def utf8_valid_def)

lemma list_all_norm:
  "list_all utf8_entry es \<Longrightarrow> list_all fits_entry es \<Longrightarrow> list_all storable_entry (map norm_entry es)"
  by (induction es) (simp_all add: storable_norm_entry)

lemma list_all_clip: "list_all utf8_entry es \<Longrightarrow> list_all storable_entry (map (norm_entry \<circ> clip_entry) es)"
  by (induction es) (simp_all add: storable_norm_entry clip_entry_ok)

lemma load_saved:
  assumes "list_all utf8_entry es" and "utf8_opt src" and "length es < 2 ^ 32"
    and "snd (save_cache es mt src)"
  shows "try_load_cache (fst (save_cache es mt src)) mt' src'
    = (if rejected mt src mt' src' then None else Some (map norm_entry es))"
proof -
  have fit: "save_fits es src" using assms(4) by (simp add: save_cache_result)
  then have "try_load_cache (file_bytes (the_mtime mt) (the_source src) (map norm_entry es)) mt' src'
      = (if rejected mt src mt' src' then None else Some (map norm_entry es))"
    unfolding rejected_def using assms the_mtime_bound [of mt]
    by (intro load_file_bytes) (simp_all add: storable_source list_all_norm save_fits_def)
  then show ?thesis using fit by (simp add: save_cache_ok file_bytes_norm)
qed

lemma load_torn_file:
  assumes "list_all utf8_entry es" and "utf8_opt src" and "length es < 2 ^ 32"
    and "snd (save_cache es mt src)" and "n < length (fst (save_cache es mt src))"
  shows "try_load_cache (take n (fst (save_cache es mt src))) mt' src' = None"
proof -
  have fit: "save_fits es src" using assms(4) by (simp add: save_cache_result)
  have "try_load_cache (take n (file_bytes (the_mtime mt) (the_source src) (map norm_entry es))) mt' src' = None"
    using assms fit the_mtime_bound [of mt]
    by (intro load_torn)
       (simp_all add: storable_source list_all_norm save_fits_def save_cache_ok file_bytes_norm)
  then show ?thesis using fit by (simp add: save_cache_ok file_bytes_norm)
qed

lemma load_failed_save:
  assumes "list_all utf8_entry es" and "utf8_opt src" and "length es < 2 ^ 32"
    and "\<not> snd (save_cache es mt src)"
  shows "try_load_cache (fst (save_cache es mt src)) mt' src' = None"
proof -
  let ?f = "file_bytes (the_mtime mt) (clip (the_source src)) (map norm_entry (map clip_entry es))"
  have "utf8_valid (the_source src)"
    using assms(2) by (cases src) (simp_all add: utf8_opt_def the_source_def utf8_valid_def)
  moreover obtain k where k: "k < length ?f" "fst (save_cache es mt src) = take k ?f"
    using assms(4) save_cache_fail [of es src mt] unfolding save_cache_result file_bytes_norm by auto
  ultimately have "try_load_cache (take k ?f) mt' src' = None"
    using assms the_mtime_bound [of mt] by (intro load_torn) (simp_all add: storable_clip list_all_clip)
  then show ?thesis using k by simp
qed

text \<open>
  C20. Reading a cache file that \<open>save_cache\<close> wrote completely returns the saved entries (an empty
  optional string comes back as absent), unless the source path or the modification time recorded in
  it contradicts the current one; then the file is rejected.
\<close>

theorem save_then_load:
  assumes "list_all utf8_entry es" and "utf8_opt src" and "length es < 2 ^ 32"
    and "snd (save_cache es mt src)"
  shows "try_load_cache (fst (save_cache es mt src)) mt' src'
    = (if rejected mt src mt' src' then None else Some (map norm_entry es))"
  using assms by (rule load_saved)

text \<open>
  C21. A torn cache file, cut anywhere before its end, is never loaded, whatever source it is for.
\<close>

theorem torn_cache_rejected:
  assumes "list_all utf8_entry es" and "utf8_opt src" and "length es < 2 ^ 32"
    and "snd (save_cache es mt src)" and "n < length (fst (save_cache es mt src))"
  shows "try_load_cache (take n (fst (save_cache es mt src))) mt' src' = None"
  using assms by (rule load_torn_file)

text \<open>
  A save that fails (some string does not fit its 16-bit length prefix) leaves a file that is
  never loaded, although the header already announces all entries.
\<close>

theorem failed_save_rejected:
  assumes "list_all utf8_entry es" and "utf8_opt src" and "length es < 2 ^ 32"
    and "\<not> snd (save_cache es mt src)"
  shows "try_load_cache (fst (save_cache es mt src)) mt' src' = None"
  using assms by (rule load_failed_save)

definition demo_entries :: "hierarchy_entry list" where
  "demo_entries = [\<lparr>full_path = ''top'', def_name = Some ''dut'', sig_type = None, level = 0, bitwidth = - 1\<rparr>,
     \<lparr>full_path = ''top.clk'', def_name = None, sig_type = Some ''wire'', level = 1, bitwidth = 1\<rparr>]"

lemma demo_saves: "list_all utf8_entry demo_entries" "utf8_opt (Some ''a.fst'')" "length demo_entries < 2 ^ 32"
  "snd (save_cache demo_entries (Some 7) (Some ''a.fst''))"
  "length (fst (save_cache demo_entries (Some 7) (Some ''a.fst''))) = 68"
proof -
  show "list_all utf8_entry demo_entries" "utf8_opt (Some ''a.fst'')" by code_simp+
  show "length demo_entries < 2 ^ 32" by (simp add: demo_entries_def)
  have fit: "save_fits demo_entries (Some ''a.fst'')"
    by (simp add: save_fits_def fits_entry_def fits_def demo_entries_def the_source_def)
  then show "snd (save_cache demo_entries (Some 7) (Some ''a.fst''))" by (simp add: save_cache_result)
  show "length (fst (save_cache demo_entries (Some 7) (Some ''a.fst''))) = 68"
    unfolding save_cache_ok [OF fit]
    by (simp add: file_bytes_def demo_entries_def enc_entry_def enc_opt_str_def the_source_def)
qed

lemma save_then_load_witness:
  "try_load_cache (fst (save_cache demo_entries (Some 7) (Some ''a.fst''))) (Some 7) (Some ''a.fst'')
     = Some demo_entries
   \<and> try_load_cache (fst (save_cache demo_entries (Some 7) (Some ''a.fst''))) (Some 8) (Some ''a.fst'') = None"
proof -
  have "map norm_entry demo_entries = demo_entries"
    "\<not> rejected (Some 7) (Some ''a.fst'') (Some 7) (Some ''a.fst'')"
    "rejected (Some 7) (Some ''a.fst'') (Some 8) (Some ''a.fst'')"
    by (simp_all add: demo_entries_def norm_entry_def norm_opt_def rejected_def source_mismatch_def
        cache_stale_def the_mtime_def the_source_def u64_max_def)
  then show ?thesis
    by (simp add: save_then_load [OF demo_saves(1,2,3,4)])
qed

lemma torn_cache_rejected_witness:
  "try_load_cache (take 67 (fst (save_cache demo_entries (Some 7) (Some ''a.fst'')))) (Some 7) (Some ''a.fst'') = None"
  using torn_cache_rejected [OF demo_saves(1,2,3,4), of 67] demo_saves(5) by simp

definition long_entry :: hierarchy_entry where
  "long_entry = \<lparr>full_path = replicate 65536 CHR ''a'', def_name = None, sig_type = Some ''reg'', level = 1, bitwidth = 1\<rparr>"

lemma failed_save_rejected_witness:
  "try_load_cache (fst (save_cache (demo_entries @ [long_entry]) (Some 7) None)) (Some 7) None = None"
proof -
  have "utf8_entry long_entry"
    by (auto simp: long_entry_def utf8_entry_def utf8_opt_def utf8_valid_ascii)
  moreover have "\<not> fits_entry long_entry" by (simp add: fits_entry_def fits_def long_entry_def)
  ultimately show ?thesis
    using failed_save_rejected [of "demo_entries @ [long_entry]" None "Some 7"] demo_saves(1)
    by (simp add: save_cache_result save_fits_def utf8_opt_def) (simp add: demo_entries_def)
qed

end
