(* ===== verification/Hierarchy.thy ===== *)
theory Hierarchy
  imports HierCache Text VpiTypes "HOL-Library.Char_ord" "HOL-Library.List_Lexorder"
    "HOL-Library.Product_Lexorder"
begin

text \<open>
  \<^verbatim>\<open>vpi_access/hierarchy_collect.rs\<close>: the traversal of the module hierarchy
  (\<open>vpiml_collect_hierarchy_recursive\<close>), the selection of entries by wildcard, module name and depth,
  and the entry point \<open>vpiml_collect_hierarchy\<close> with and without the hierarchy cache.
\<close>

definition obj_name :: "hier_vpi \<Rightarrow> vpiHandle \<Rightarrow> string option" where
  "obj_name V h = c_char_to_str_opt (obj_str V vpiName h)"

subsection \<open>Traversal\<close>

text \<open>The vector of entries and the set of the paths it holds.\<close>

type_synonym collected = "hierarchy_entry list \<times> string set"

fun upgrade_reg :: "string \<Rightarrow> hierarchy_entry list \<Rightarrow> hierarchy_entry list" where
  "upgrade_reg p [] = []"
| "upgrade_reg p (e # es) =
     (if full_path e = p then e\<lparr>sig_type := Some ''reg''\<rparr> # es else e # upgrade_reg p es)"

definition push_hierarchy_entry :: "hierarchy_entry \<Rightarrow> collected \<Rightarrow> collected" where
  "push_hierarchy_entry e st =
     (if full_path e \<in> snd st then
        (if sig_type e = Some ''reg'' then (upgrade_reg (full_path e) (fst st), snd st) else st)
      else (fst st @ [e], insert (full_path e) (snd st)))"

definition join_path :: "string \<Rightarrow> string \<Rightarrow> string" where
  "join_path parent nm = (if parent = [] then nm else parent @ CHR ''.'' # nm)"

definition module_entry :: "hier_vpi \<Rightarrow> string \<Rightarrow> u32 \<Rightarrow> vpiHandle \<Rightarrow> hierarchy_entry" where
  "module_entry V path lvl m =
     \<lparr>full_path = path,
      def_name = (case c_char_to_str_opt (obj_str V vpiDefName m) of
                    Some n \<Rightarrow> if n \<noteq> [] then Some n else None | None \<Rightarrow> None),
      sig_type = None, level = lvl, bitwidth = - 1\<rparr>"

definition leaf_path :: "string \<Rightarrow> string \<Rightarrow> string" where
  "leaf_path path nm = (if CHR ''.'' \<in> set nm then nm else path @ CHR ''.'' # nm)"

definition leaf_entry :: "hier_vpi \<Rightarrow> nat \<Rightarrow> string \<Rightarrow> u32 \<Rightarrow> vpiHandle \<Rightarrow> string \<Rightarrow> hierarchy_entry" where
  "leaf_entry V object_type path lvl obj nm =
     \<lparr>full_path = leaf_path path nm, def_name = None,
      sig_type = Some (if object_type = vpiNet then ''wire'' else ''reg''),
      level = lvl + 1, bitwidth = obj_get V vpiSize obj\<rparr>"

text \<open>The body of the leaf loop, with the names visited under this module.\<close>

definition visit_leaf ::
  "hier_vpi \<Rightarrow> nat \<Rightarrow> string \<Rightarrow> u32 \<Rightarrow> vpiHandle \<Rightarrow> string set \<times> collected \<Rightarrow> string set \<times> collected" where
  "visit_leaf V object_type path lvl obj s =
     (case obj_name V obj of
        None \<Rightarrow> s
      | Some nm \<Rightarrow>
          if nm \<in> fst s then s
          else (insert nm (fst s), push_hierarchy_entry (leaf_entry V object_type path lvl obj nm) (snd s)))"

definition visit_leaves ::
  "hier_vpi \<Rightarrow> vpiHandle \<Rightarrow> string \<Rightarrow> u32 \<Rightarrow> nat \<Rightarrow> string set \<times> collected \<Rightarrow> string set \<times> collected" where
  "visit_leaves V child path lvl object_type s =
     (case objects V object_type child of
        None \<Rightarrow> s
      | Some objs \<Rightarrow> fold (visit_leaf V object_type path lvl) objs s)"

definition collect_leaves :: "hier_vpi \<Rightarrow> vpiHandle \<Rightarrow> string \<Rightarrow> u32 \<Rightarrow> collected \<Rightarrow> collected" where
  "collect_leaves V child path lvl st =
     snd (fold (visit_leaves V child path lvl) [vpiNet, vpiReg, vpiMemory] ({}, st))"

text \<open>The body of the loop over the child modules, without the recursive call.\<close>

definition visit_module :: "hier_vpi \<Rightarrow> string \<Rightarrow> u32 \<Rightarrow> u32 \<Rightarrow> vpiHandle \<Rightarrow> collected \<Rightarrow> collected" where
  "visit_module V full lvl max_level child st =
     (let st = push_hierarchy_entry (module_entry V full lvl child) st
      in if max_level = 0 \<or> sint lvl < sint max_level then collect_leaves V child full lvl st else st)"

fun fold_opt :: "('a \<Rightarrow> 's \<Rightarrow> 's option) \<Rightarrow> 'a list \<Rightarrow> 's \<Rightarrow> 's option" where
  "fold_opt f [] s = Some s"
| "fold_opt f (x # xs) s = Option.bind (f x s) (fold_opt f xs)"

text \<open>
  The recursion follows the simulator's hierarchy, so it takes fuel; \<open>None\<close> means the fuel did not
  reach the bottom. Levels are \<open>i32\<close>, compared as signed numbers.
\<close>

fun vpiml_collect_hierarchy_recursive ::
  "hier_vpi \<Rightarrow> nat \<Rightarrow> vpiHandle \<Rightarrow> string \<Rightarrow> u32 \<Rightarrow> u32 \<Rightarrow> collected \<Rightarrow> collected option" where
  "vpiml_collect_hierarchy_recursive V 0 module parent_path lvl max_level st = None"
| "vpiml_collect_hierarchy_recursive V (Suc n) module parent_path lvl max_level st =
     (if max_level \<noteq> 0 \<and> sint max_level < sint lvl then Some st
      else case objects V vpiModule module of
        None \<Rightarrow> Some st
      | Some children \<Rightarrow>
          fold_opt (\<lambda>child st.
            case obj_name V child of
              None \<Rightarrow> Some st
            | Some nm \<Rightarrow>
                let full = join_path parent_path nm
                in vpiml_collect_hierarchy_recursive V n child full (lvl + 1) max_level
                     (visit_module V full lvl max_level child st))
            children st)"

definition collect_hierarchy_entries :: "hier_vpi \<Rightarrow> nat \<Rightarrow> u32 \<Rightarrow> hierarchy_entry list option" where
  "collect_hierarchy_entries V n max_level =
     map_option (\<lambda>st. sort_key (\<lambda>e. (full_path e, sint (level e))) (fst st))
       (vpiml_collect_hierarchy_recursive V n 0 [] 0 max_level ([], {}))"

subsection \<open>Selection and output\<close>

definition entry_matches :: "hier_vpi \<Rightarrow> hierarchy_entry \<Rightarrow> string list \<Rightarrow> string option \<Rightarrow> bool" where
  "entry_matches V e wildcard_matchers module_name_filter \<longleftrightarrow>
     (wildcard_matchers = [] \<or> list_ex (\<lambda>p. wild_matches V p (full_path e)) wildcard_matchers)
     \<and> (case module_name_filter of None \<Rightarrow> True | Some f \<Rightarrow> def_name e = Some f)"

definition parse_wildcard_matchers :: "c_str \<Rightarrow> string list" where
  "parse_wildcard_matchers wildcard =
     (case c_char_to_str_opt wildcard of
        None \<Rightarrow> []
      | Some raw \<Rightarrow> filter (\<lambda>p. p \<noteq> []) (map trim (split_on CHR '','' raw)))"

text \<open>What the Lua callback receives for an entry; an entry whose path has a NUL is skipped.\<close>

record hier_item =
  it_full_path :: string
  it_name :: string
  it_module_name :: c_str
  it_sig_type :: c_str
  it_level :: u32
  it_bitwidth :: u32

definition c_string_of :: "string option \<Rightarrow> c_str" where
  "c_string_of s = (case s of Some n \<Rightarrow> if has_nul n then None else Some n | None \<Rightarrow> None)"

definition emit_hierarchy_entry :: "hierarchy_entry \<Rightarrow> hier_item list" where
  "emit_hierarchy_entry e =
     (if has_nul (full_path e) then []
      else let nm = last (split_on CHR ''.'' (full_path e)) in
        if has_nul nm then []
        else [\<lparr>it_full_path = full_path e, it_name = nm, it_module_name = c_string_of (def_name e),
               it_sig_type = c_string_of (sig_type e), it_level = level e, it_bitwidth = bitwidth e\<rparr>])"

text \<open>The prefixes of a matching path that the first loop of the tree mode inserts.\<close>

definition visible_step :: "string \<Rightarrow> string \<times> string set \<Rightarrow> string \<times> string set" where
  "visible_step seg s = (let p = join_path (fst s) seg in (p, insert p (snd s)))"

definition visible_prefixes :: "string \<Rightarrow> string set \<Rightarrow> string set" where
  "visible_prefixes path paths = snd (fold visible_step (split_on CHR ''.'' path) ([], paths))"

definition visible_paths :: "hier_vpi \<Rightarrow> hierarchy_entry list \<Rightarrow> string list \<Rightarrow> string option \<Rightarrow> string set" where
  "visible_paths V entries ms f =
     fold (\<lambda>e paths. if entry_matches V e ms f then visible_prefixes (full_path e) paths else paths)
       entries {}"

datatype hier_err = ModuleNameOnlyFsdb | ShowDefNameOnlyFsdb | InternalNullCb | UnsupportedDpi

text \<open>The part of \<open>vpiml_collect_hierarchy\<close> after the entries are there.\<close>

definition report ::
  "hier_vpi \<Rightarrow> hierarchy_entry list \<Rightarrow> u32 \<Rightarrow> string list \<Rightarrow> string option \<Rightarrow> bool \<Rightarrow> bool \<Rightarrow>
   hier_err option \<times> hier_item list" where
  "report V all_entries max_level ms f include_tree_prefixes require_module_name_data =
     (let entries = (if max_level = 0 then all_entries
                     else filter (\<lambda>e. sint (level e) \<le> sint max_level) all_entries);
          has_module_name_data = list_ex (\<lambda>e. def_name e \<noteq> None) entries;
          need_module_name_data = (f \<noteq> None \<or> require_module_name_data)
      in if need_module_name_data \<and> \<not> has_module_name_data then
           (Some (if f \<noteq> None then ModuleNameOnlyFsdb else ShowDefNameOnlyFsdb), [])
         else if include_tree_prefixes \<and> ms \<noteq> [] then
           let visible = visible_paths V entries ms f
           in (None, concat (map emit_hierarchy_entry (filter (\<lambda>e. full_path e \<in> visible) entries)))
         else
           (None, concat (map emit_hierarchy_entry (filter (\<lambda>e. entry_matches V e ms f) entries))))"

definition vpiml_collect_hierarchy ::
  "features \<Rightarrow> hier_vpi \<Rightarrow> nat \<Rightarrow> u64 option \<Rightarrow> string option \<Rightarrow> u32 \<Rightarrow> c_str \<Rightarrow> c_str \<Rightarrow> u32 \<Rightarrow> u32 \<Rightarrow>
   bool \<Rightarrow> cache_state \<Rightarrow> ((hier_err option \<times> hier_item list) \<times> cache_state) option" where
  "vpiml_collect_hierarchy C V n mt src max_level wildcard module_name_arg
     include_tree_prefixes require_module_name_data cb s =
     (if feat_dpi C then Some ((Some UnsupportedDpi, []), s)
      else if \<not> cb then Some ((Some InternalNullCb, []), s)
      else
        let ms = parse_wildcard_matchers wildcard;
            f = (case c_char_to_str_opt module_name_arg of
                   Some nm \<Rightarrow> if nm \<noteq> [] then Some nm else None | None \<Rightarrow> None)
        in map_option
             (\<lambda>(all_entries, s). (report V all_entries max_level ms f (include_tree_prefixes \<noteq> 0)
                                    (require_module_name_data \<noteq> 0), s))
             (if feat_hierarchy_cache C
              then get_or_init_hierarchy_cache mt src (collect_hierarchy_entries V n 0) s
              else map_option (\<lambda>es. (es, s)) (collect_hierarchy_entries V n max_level)))"

end
