(* ===== verification/HierSpec.thy ===== *)
theory HierSpec
  imports Hierarchy
begin

text \<open>
  What the hierarchy collection promises: the traversal ends on every finite hierarchy and lists
  exactly the scopes and objects reachable within the depth limit, each path once and in order; the
  build with the hierarchy cache reports what the build without it reports, in this and in later
  runs; tree mode shows exactly the matching entries and their ancestors.
\<close>

subsection \<open>Reachable paths\<close>

definition submodule :: "hier_vpi \<Rightarrow> vpiHandle \<Rightarrow> vpiHandle \<Rightarrow> string \<Rightarrow> bool" where
  "submodule V m c nm \<longleftrightarrow>
     (\<exists>cs. objects V vpiModule m = Some cs \<and> c \<in> set cs) \<and> obj_name V c = Some nm"

definition names_in :: "hier_vpi \<Rightarrow> vpiHandle list \<Rightarrow> string set" where
  "names_in V objs = {nm. \<exists>obj \<in> set objs. obj_name V obj = Some nm}"

definition leaf_names :: "hier_vpi \<Rightarrow> vpiHandle \<Rightarrow> nat \<Rightarrow> string set" where
  "leaf_names V c t = (case objects V t c of None \<Rightarrow> {} | Some objs \<Rightarrow> names_in V objs)"

definition leaf_of :: "hier_vpi \<Rightarrow> vpiHandle \<Rightarrow> string \<Rightarrow> bool" where
  "leaf_of V c nm \<longleftrightarrow> (\<exists>t \<in> {vpiNet, vpiReg, vpiMemory}. nm \<in> leaf_names V c t)"

definition in_depth :: "u32 \<Rightarrow> nat \<Rightarrow> bool" where
  "in_depth max_level d \<longleftrightarrow> max_level = 0 \<or> int d \<le> sint max_level"

text \<open>\<open>listed V M m path d p\<close>: below module \<open>m\<close>, whose path is \<open>path\<close> and whose children have level \<open>d\<close>.\<close>

inductive listed :: "hier_vpi \<Rightarrow> u32 \<Rightarrow> vpiHandle \<Rightarrow> string \<Rightarrow> nat \<Rightarrow> string \<Rightarrow> bool" for V M where
  scope: "in_depth M d \<Longrightarrow> submodule V m c nm \<Longrightarrow> listed V M m path d (join_path path nm)"
| leaf: "in_depth M d \<Longrightarrow> submodule V m c nm \<Longrightarrow> in_depth M (Suc d) \<Longrightarrow> leaf_of V c leaf_nm \<Longrightarrow>
    listed V M m path d (leaf_path (join_path path nm) leaf_nm)"
| below: "in_depth M d \<Longrightarrow> submodule V m c nm \<Longrightarrow> listed V M c (join_path path nm) (Suc d) p \<Longrightarrow>
    listed V M m path d p"

inductive_simps listed_iff: "listed V M m path d p"

definition state_wf :: "collected \<Rightarrow> bool" where
  "state_wf st \<longleftrightarrow> snd st = full_path ` set (fst st) \<and> distinct (map full_path (fst st))"

lemma upgrade_reg_paths [simp]: "map full_path (upgrade_reg p es) = map full_path es"
  by (induction es) auto

lemma upgrade_reg_path_set [simp]: "full_path ` set (upgrade_reg p es) = full_path ` set es"
  by (metis list.set_map upgrade_reg_paths)

lemma push_wf: "state_wf st \<Longrightarrow> state_wf (push_hierarchy_entry e st)"
  by (auto simp: state_wf_def push_hierarchy_entry_def)

lemma push_seen [simp]: "snd (push_hierarchy_entry e st) = insert (full_path e) (snd st)"
  by (auto simp: push_hierarchy_entry_def)

lemma paths_of_entries [simp]:
  "full_path (module_entry V path lvl m) = path" "level (module_entry V path lvl m) = lvl"
  "full_path (leaf_entry V t path lvl obj nm) = leaf_path path nm"
  "level (leaf_entry V t path lvl obj nm) = lvl + 1"
  by (simp_all add: module_entry_def leaf_entry_def)

text \<open>A property of the collection that every push keeps is kept by the leaf loops.\<close>

definition leaf_stable ::
  "(collected \<Rightarrow> bool) \<Rightarrow> hier_vpi \<Rightarrow> vpiHandle \<Rightarrow> string \<Rightarrow> u32 \<Rightarrow> bool" where
  "leaf_stable P V child path lvl \<longleftrightarrow>
     (\<forall>t obj nm st. P st \<longrightarrow> obj_name V obj = Some nm \<longrightarrow> leaf_of V child nm \<longrightarrow>
        P (push_hierarchy_entry (leaf_entry V t path lvl obj nm) st))"

definition leaf_objects :: "hier_vpi \<Rightarrow> vpiHandle \<Rightarrow> vpiHandle set" where
  "leaf_objects V child = {obj. \<forall>nm. obj_name V obj = Some nm \<longrightarrow> leaf_of V child nm}"

lemma leaf_objects_of:
  "objects V t child = Some objs \<Longrightarrow> t \<in> {vpiNet, vpiReg, vpiMemory} \<Longrightarrow> set objs \<subseteq> leaf_objects V child"
  unfolding leaf_objects_def leaf_of_def leaf_names_def names_in_def by fastforce

lemma visit_leaf_keeps:
  "leaf_stable P V child path lvl \<Longrightarrow> obj \<in> leaf_objects V child \<Longrightarrow> P (snd s) \<Longrightarrow>
   P (snd (visit_leaf V t path lvl obj s))"
  by (cases "obj_name V obj")
     (simp_all add: leaf_stable_def leaf_objects_def visit_leaf_def del: split_paired_All)

lemma fold_visit_leaf_keeps:
  "leaf_stable P V child path lvl \<Longrightarrow> set objs \<subseteq> leaf_objects V child \<Longrightarrow> P (snd s) \<Longrightarrow>
   P (snd (fold (visit_leaf V t path lvl) objs s))"
  by (induction objs arbitrary: s) (simp_all add: visit_leaf_keeps)

lemma visit_leaves_keeps:
  "leaf_stable P V child path lvl \<Longrightarrow> t \<in> {vpiNet, vpiReg, vpiMemory} \<Longrightarrow> P (snd s) \<Longrightarrow>
   P (snd (visit_leaves V child path lvl t s))"
  using leaf_objects_of [of V t child]
  by (cases "objects V t child") (simp_all add: visit_leaves_def fold_visit_leaf_keeps)

lemma collect_leaves_keeps:
  "leaf_stable P V child path lvl \<Longrightarrow> P st \<Longrightarrow> P (collect_leaves V child path lvl st)"
  by (simp add: collect_leaves_def visit_leaves_keeps)

text \<open>The paths the leaf loops add.\<close>

definition names_seen :: "string \<Rightarrow> string set \<times> collected \<Rightarrow> bool" where
  "names_seen path s \<longleftrightarrow> leaf_path path ` fst s \<subseteq> snd (snd s)"

lemma visit_leaf_seen:
  assumes "names_seen path s"
  shows "snd (snd (visit_leaf V t path lvl obj s)) = snd (snd s) \<union> leaf_path path ` names_in V [obj]"
    and "names_seen path (visit_leaf V t path lvl obj s)"
  using assms by (cases "obj_name V obj"; auto simp: visit_leaf_def names_seen_def names_in_def)+

lemma fold_visit_leaf_seen:
  "names_seen path s \<Longrightarrow> names_seen path (fold (visit_leaf V t path lvl) objs s) \<and>
   snd (snd (fold (visit_leaf V t path lvl) objs s)) = snd (snd s) \<union> leaf_path path ` names_in V objs"
proof (induction objs arbitrary: s)
  case Nil
  then show ?case by (simp add: names_in_def)
next
  case (Cons obj objs)
  have "names_in V (obj # objs) = names_in V [obj] \<union> names_in V objs" by (auto simp: names_in_def)
  then show ?case
    using Cons.IH [OF visit_leaf_seen(2) [OF Cons.prems, of V t lvl obj]]
      visit_leaf_seen(1) [OF Cons.prems, of V t lvl obj]
    by (simp add: image_Un Un_assoc)
qed

lemma visit_leaves_seen:
  assumes "names_seen path s"
  shows "names_seen path (visit_leaves V child path lvl t s)"
    and "snd (snd (visit_leaves V child path lvl t s)) = snd (snd s) \<union> leaf_path path ` leaf_names V child t"
  using fold_visit_leaf_seen [OF assms, of V t lvl] assms
  by (simp_all add: visit_leaves_def leaf_names_def split: option.split)

lemma collect_leaves_seen:
  "snd (collect_leaves V child path lvl st) = snd st \<union> leaf_path path ` {nm. leaf_of V child nm}"
proof -
  have "names_seen path ({}, st)" by (simp add: names_seen_def)
  then have "snd (collect_leaves V child path lvl st) = snd st \<union> leaf_path path ` leaf_names V child vpiNet
      \<union> leaf_path path ` leaf_names V child vpiReg \<union> leaf_path path ` leaf_names V child vpiMemory"
    by (simp add: collect_leaves_def visit_leaves_seen)
  moreover have "{nm. leaf_of V child nm}
      = leaf_names V child vpiNet \<union> leaf_names V child vpiReg \<union> leaf_names V child vpiMemory"
    by (auto simp: leaf_of_def)
  ultimately show ?thesis by (simp add: image_Un Un_assoc)
qed

subsection \<open>The traversal\<close>

text \<open>A property of the collection that every push at the levels of the traversal keeps is kept by it.\<close>

lemma fold_opt_Some:
  assumes "fold_opt f xs s = Some t" and "P s" and "\<And>x s t. x \<in> set xs \<Longrightarrow> P s \<Longrightarrow> f x s = Some t \<Longrightarrow> P t"
  shows "P t"
  using assms
proof (induction xs arbitrary: s)
  case Nil
  then show ?case by simp
next
  case (Cons x xs)
  then obtain s' where "f x s = Some s'" and "fold_opt f xs s' = Some t"
    by (auto simp: bind_eq_Some_conv)
  then show ?case using Cons by (metis list.set_intros)
qed

text \<open>One iteration of the loop over the children.\<close>

definition visit_child ::
  "hier_vpi \<Rightarrow> nat \<Rightarrow> string \<Rightarrow> u32 \<Rightarrow> u32 \<Rightarrow> vpiHandle \<Rightarrow> collected \<Rightarrow> collected option" where
  "visit_child V n parent_path lvl M child st =
     (case obj_name V child of None \<Rightarrow> Some st
      | Some nm \<Rightarrow> vpiml_collect_hierarchy_recursive V n child (join_path parent_path nm) (lvl + 1) M
                     (visit_module V (join_path parent_path nm) lvl M child st))"

lemma collect_Suc: "vpiml_collect_hierarchy_recursive V (Suc n) m path lvl M st =
    (if M \<noteq> 0 \<and> sint M < sint lvl then Some st
     else case objects V vpiModule m of None \<Rightarrow> Some st
       | Some cs \<Rightarrow> fold_opt (visit_child V n path lvl M) cs st)"
  unfolding vpiml_collect_hierarchy_recursive.simps visit_child_def Let_def by (rule refl)

declare vpiml_collect_hierarchy_recursive.simps(2) [simp del]

lemma visit_module_keeps:
  assumes "P st" and "\<And>st. P st \<Longrightarrow> P (push_hierarchy_entry (module_entry V full lvl child) st)"
    and "leaf_stable P V child full lvl"
  shows "P (visit_module V full lvl M child st)"
  using assms by (simp add: visit_module_def Let_def collect_leaves_keeps)

lemma collect_keeps:
  assumes path: "\<And>path h nm. Q path \<Longrightarrow> obj_name V h = Some nm \<Longrightarrow> Q (join_path path nm)"
    and mod: "\<And>st path lvl c. P st \<Longrightarrow> Q path \<Longrightarrow> P (push_hierarchy_entry (module_entry V path lvl c) st)"
    and leaf: "\<And>path lvl c. Q path \<Longrightarrow> leaf_stable P V c path lvl"
  shows "vpiml_collect_hierarchy_recursive V n m path lvl M st = Some st' \<Longrightarrow> Q path \<Longrightarrow> P st \<Longrightarrow> P st'"
proof (induction n arbitrary: m path lvl st st')
  case 0
  then show ?case by simp
next
  case (Suc n)
  have child: "P t" if "P s" "visit_child V n path lvl M c s = Some t" for c s t
  proof (cases "obj_name V c")
    case None
    then show ?thesis using that by (simp add: visit_child_def)
  next
    case (Some nm)
    have q: "Q (join_path path nm)" using path Suc.prems(2) Some .
    have "P (visit_module V (join_path path nm) lvl M c s)"
      by (rule visit_module_keeps [OF that(1) mod leaf]) (rule q | assumption)+
    moreover have "vpiml_collect_hierarchy_recursive V n c (join_path path nm) (lvl + 1) M
        (visit_module V (join_path path nm) lvl M c s) = Some t"
      using that(2) Some by (simp add: visit_child_def)
    ultimately show ?thesis using Suc.IH q by blast
  qed
  show ?case
  proof (cases "objects V vpiModule m")
    case None
    then show ?thesis using Suc.prems by (simp add: collect_Suc split: if_splits)
  next
    case (Some cs)
    then have "st' = st \<or> fold_opt (visit_child V n path lvl M) cs st = Some st'"
      using Suc.prems(1) by (simp add: collect_Suc split: if_splits)
    then consider "st' = st" | "fold_opt (visit_child V n path lvl M) cs st = Some st'" by blast
    then show ?thesis
    proof cases
      case 1
      then show ?thesis using Suc.prems(3) by simp
    next
      case 2
      then show ?thesis using Suc.prems(3)
      proof (rule fold_opt_Some)
        show "P t" if "P s" "visit_child V n path lvl M c s = Some t" for c s t
          using that by (rule child)
      qed
    qed
  qed
qed

subsection \<open>The traversal lists what is reachable\<close>

lemma sint_level: "d < 2 ^ 31 \<Longrightarrow> sint (of_nat d :: u32) = int d"
  by (simp add: signed_of_nat signed_take_bit_int_eq_self)

lemma in_depth_sint: "d < 2 ^ 31 \<Longrightarrow> in_depth M d \<longleftrightarrow> \<not> (M \<noteq> 0 \<and> sint M < sint (of_nat d :: u32))"
  by (auto simp: in_depth_def sint_level)

lemma in_depth_Suc: "d < 2 ^ 31 \<Longrightarrow> in_depth M (Suc d) \<longleftrightarrow> M = 0 \<or> sint (of_nat d :: u32) < sint M"
  by (auto simp: in_depth_def sint_level)

lemma visit_module_seen:
  assumes "d < 2 ^ 31"
  shows "snd (visit_module V full (of_nat d) M child st) = insert full (snd st)
    \<union> (if in_depth M (Suc d) then leaf_path full ` {nm. leaf_of V child nm} else {})"
  using in_depth_Suc [OF assms] by (simp add: visit_module_def Let_def collect_leaves_seen)

lemma fold_opt_seen:
  "fold_opt f cs s = Some (t :: collected) \<Longrightarrow>
   (\<And>c s t. c \<in> set cs \<Longrightarrow> f c s = Some t \<Longrightarrow> snd t = snd s \<union> S c) \<Longrightarrow>
   snd t = snd s \<union> (\<Union>c \<in> set cs. S c)"
proof (induction cs arbitrary: s)
  case Nil
  then show ?case by simp
next
  case (Cons c cs)
  then obtain s' where "f c s = Some s'" and "fold_opt f cs s' = Some t"
    by (auto simp: bind_eq_Some_conv)
  then have "snd s' = snd s \<union> S c" and "snd t = snd s' \<union> (\<Union>c \<in> set cs. S c)"
    using Cons by auto
  then show ?case by auto
qed

text \<open>What one child contributes.\<close>

definition child_paths :: "hier_vpi \<Rightarrow> u32 \<Rightarrow> string \<Rightarrow> nat \<Rightarrow> vpiHandle \<Rightarrow> string set" where
  "child_paths V M path d c =
     (case obj_name V c of None \<Rightarrow> {}
      | Some nm \<Rightarrow> insert (join_path path nm)
          ((if in_depth M (Suc d) then leaf_path (join_path path nm) ` {l. leaf_of V c l} else {})
           \<union> {p. listed V M c (join_path path nm) (Suc d) p}))"

lemma mem_child_paths: "p \<in> child_paths V M path d c \<longleftrightarrow>
    (\<exists>nm. obj_name V c = Some nm \<and> (p = join_path path nm
       \<or> (\<exists>l. in_depth M (Suc d) \<and> leaf_of V c l \<and> p = leaf_path (join_path path nm) l)
       \<or> listed V M c (join_path path nm) (Suc d) p))"
  by (cases "obj_name V c") (auto simp: child_paths_def)

lemma listed_children:
  assumes "objects V vpiModule m = Some cs" and "in_depth M d"
  shows "{p. listed V M m path d p} = (\<Union>c \<in> set cs. child_paths V M path d c)"
proof -
  have "submodule V m c nm \<longleftrightarrow> c \<in> set cs \<and> obj_name V c = Some nm" for c nm
    using assms(1) by (simp add: submodule_def)
  then have "listed V M m path d p \<longleftrightarrow> (\<exists>c \<in> set cs. p \<in> child_paths V M path d c)" for p
    using assms(2) unfolding mem_child_paths by (subst listed_iff) blast
  then show ?thesis by blast
qed

lemma listed_none: "\<not> in_depth M d \<or> objects V vpiModule m = None \<Longrightarrow> {p. listed V M m path d p} = {}"
  by (subst listed_iff) (auto simp: submodule_def)

lemma collect_seen:
  "vpiml_collect_hierarchy_recursive V n m path (of_nat d) M st = Some st' \<Longrightarrow> d + n < 2 ^ 31 \<Longrightarrow>
   snd st' = snd st \<union> {p. listed V M m path d p}"
proof (induction n arbitrary: m path d st st')
  case 0
  then show ?case by simp
next
  case (Suc n)
  have d: "d < 2 ^ 31" using Suc.prems(2) by simp
  have child: "snd t = snd s \<union> child_paths V M path d c"
    if "visit_child V n path (of_nat d) M c s = Some t" for c s t
  proof (cases "obj_name V c")
    case None
    then show ?thesis using that by (simp add: visit_child_def child_paths_def)
  next
    case (Some nm)
    let ?v = "visit_module V (join_path path nm) (of_nat d) M c s"
    have "vpiml_collect_hierarchy_recursive V n c (join_path path nm) (of_nat (Suc d)) M ?v = Some t"
      using that Some by (simp add: visit_child_def add.commute)
    then have "snd t = snd ?v \<union> {p. listed V M c (join_path path nm) (Suc d) p}"
      using Suc.prems(2) by (intro Suc.IH) simp_all
    then show ?thesis using Some by (auto simp: visit_module_seen [OF d] child_paths_def)
  qed
  show ?case
  proof (cases "in_depth M d \<and> objects V vpiModule m \<noteq> None")
    case False
    then have "st' = st"
      using Suc.prems(1) in_depth_sint [OF d, of M] by (auto simp: collect_Suc split: if_splits)
    then show ?thesis using False listed_none [of M d V m path] by auto
  next
    case True
    then obtain cs where cs: "objects V vpiModule m = Some cs" by auto
    then have "fold_opt (visit_child V n path (of_nat d) M) cs st = Some st'"
      using Suc.prems(1) True in_depth_sint [OF d, of M] by (auto simp: collect_Suc split: if_splits)
    then have "snd st' = snd st \<union> (\<Union>c \<in> set cs. child_paths V M path d c)"
      using child by (rule fold_opt_seen)
    then show ?thesis using listed_children [OF cs] True by simp
  qed
qed

text \<open>A rank on modules that decreases downwards bounds the depth of the recursion.\<close>

definition ranked :: "hier_vpi \<Rightarrow> (vpiHandle \<Rightarrow> nat) \<Rightarrow> bool" where
  "ranked V rank \<longleftrightarrow>
     (\<forall>m cs c. objects V vpiModule m = Some cs \<longrightarrow> c \<in> set cs \<longrightarrow> rank c < rank m)"

lemma fold_opt_returns:
  "(\<And>c s. c \<in> set cs \<Longrightarrow> \<exists>t. f c s = Some t) \<Longrightarrow> \<exists>t. fold_opt f cs s = Some t"
proof (induction cs arbitrary: s)
  case Nil
  then show ?case by simp
next
  case (Cons c cs)
  then obtain s' where "f c s = Some s'" by fastforce
  then show ?case using Cons by simp
qed

lemma collect_returns:
  "ranked V rank \<Longrightarrow> rank m < n \<Longrightarrow>
   \<exists>st'. vpiml_collect_hierarchy_recursive V n m path lvl M st = Some st'"
proof (induction n arbitrary: m path lvl st)
  case 0
  then show ?case by simp
next
  case (Suc n)
  have "\<exists>t. visit_child V n path lvl M c s = Some t"
    if "objects V vpiModule m = Some cs" "c \<in> set cs" for cs c s
  proof -
    have "rank c < n" using Suc.prems that unfolding ranked_def by fastforce
    then show ?thesis using Suc.IH Suc.prems(1) by (simp add: visit_child_def split: option.split)
  qed
  then have "\<exists>t. fold_opt (visit_child V n path lvl M) cs st = Some t"
    if "objects V vpiModule m = Some cs" for cs
    using that by (intro fold_opt_returns) blast
  then show ?case
    by (cases "objects V vpiModule m") (simp_all add: collect_Suc del: split_paired_Ex)
qed

lemma sorted_full_path: "sorted (map full_path (sort_key (\<lambda>e. (full_path e, sint (level e))) es))"
proof -
  have "sorted_wrt (\<lambda>a b. (full_path a, sint (level a)) \<le> (full_path b, sint (level b)))
      (sort_key (\<lambda>e. (full_path e, sint (level e))) es)"
    using sorted_sort_key [of "\<lambda>e. (full_path e, sint (level e))" es] by (simp add: sorted_map)
  then show ?thesis
    unfolding sorted_map by (rule sorted_wrt_mono_rel [rotated]) (auto simp: less_eq_prod_def)
qed

text \<open>
  C17. The traversal returns on every hierarchy of finite depth, and it lists exactly the scopes
  within the depth limit and the nets, variables and memories of those above it, each path once, in
  alphabetical order.
\<close>

theorem collect_lists_reachable:
  assumes "ranked V rank" and "rank 0 < n" and "n < 2 ^ 31"
  shows "\<exists>es. collect_hierarchy_entries V n M = Some es
    \<and> full_path ` set es = {p. listed V M 0 [] 0 p}
    \<and> distinct (map full_path es) \<and> sorted (map full_path es)"
proof -
  obtain st where st: "vpiml_collect_hierarchy_recursive V n 0 [] 0 M ([], {}) = Some st"
    using collect_returns [OF assms(1,2)] by blast
  have "state_wf ([], {})" by (simp add: state_wf_def)
  note collect_keeps [where P=state_wf and Q="\<lambda>_. True", OF _ _ _ st TrueI this]
  then have "state_wf st" by (simp add: push_wf leaf_stable_def del: split_paired_All split_paired_all)
  moreover have "snd st = {p. listed V M 0 [] 0 p}"
    using collect_seen [of V n 0 "[]" 0 M "([], {})" st] st assms(3) by simp
  ultimately show ?thesis
    using st by (simp add: collect_hierarchy_entries_def sorted_full_path state_wf_def
        distinct_map inj_on_def distinct_sort)
qed

text \<open>A design with a module \<open>top\<close>, an instance \<open>u\<close> in it, a wire and two registers.\<close>

definition demo_hier :: hier_vpi where
  "demo_hier = \<lparr>objects = (\<lambda>t m. if t = vpiModule then (if m = 0 then Some [1] else if m = 1 then Some [2] else None)
       else if t = vpiNet \<and> m = 1 then Some [11] else if t = vpiReg \<and> m = 2 then Some [12, 13] else None),
     obj_str = (\<lambda>p h. if p = vpiName then
         (if h = 1 then Some ''top'' else if h = 2 then Some ''u'' else if h = 11 then Some ''clk''
          else if h = 12 then Some ''q'' else if h = 13 then Some ''r'' else None)
       else if h = 1 then Some ''dut'' else None),
     obj_get = (\<lambda>p h. 8),
     wild_matches = (\<lambda>p s. p = s)\<rparr>"

lemma demo_hier_ranked: "ranked demo_hier (\<lambda>h. 3 - h)"
  by (auto simp: ranked_def demo_hier_def split: if_splits)

lemma collect_lists_reachable_witness:
  "full_path ` set (the (collect_hierarchy_entries demo_hier 4 1)) = {p. listed demo_hier 1 0 [] 0 p}
   \<and> map full_path (the (collect_hierarchy_entries demo_hier 4 1)) = [''top'', ''top.clk'', ''top.u'']"
proof -
  have "map full_path (the (collect_hierarchy_entries demo_hier 4 1)) = [''top'', ''top.clk'', ''top.u'']"
    by code_simp
  then show ?thesis using collect_lists_reachable [OF demo_hier_ranked, of 4 1] by auto
qed

subsection \<open>A shallow traversal is the deep one, filtered\<close>

text \<open>
  Names as the backends give them. A module has a local name, not empty and without a dot. A net,
  variable or memory has a local name too, or, as \<^verbatim>\<open>wave_vpi\<close> reports its signals, its full path:
  the path of its module, a dot and its local name.
\<close>

definition local_name :: "string \<Rightarrow> bool" where
  "local_name nm \<longleftrightarrow> nm \<noteq> [] \<and> CHR ''.'' \<notin> set nm"

inductive module_at :: "hier_vpi \<Rightarrow> vpiHandle \<Rightarrow> string \<Rightarrow> bool" for V where
  root: "module_at V 0 []"
| child: "module_at V m path \<Longrightarrow> submodule V m c nm \<Longrightarrow> module_at V c (join_path path nm)"

definition leaf_name_of :: "string \<Rightarrow> string \<Rightarrow> bool" where
  "leaf_name_of full l \<longleftrightarrow> local_name l \<or> (\<exists>nm. local_name nm \<and> l = full @ CHR ''.'' # nm)"

definition scoped_names :: "hier_vpi \<Rightarrow> bool" where
  "scoped_names V \<longleftrightarrow> (\<forall>m path c nm. module_at V m path \<longrightarrow> submodule V m c nm \<longrightarrow>
     local_name nm \<and> (\<forall>l. leaf_of V c l \<longrightarrow> leaf_name_of (join_path path nm) l))"

definition leveled :: "collected \<Rightarrow> bool" where
  "leveled st \<longleftrightarrow> state_wf st \<and> (\<forall>e \<in> set (fst st). sint (level e) = int (dots (full_path e)))"

definition shallow :: "u32 \<Rightarrow> collected \<Rightarrow> collected" where
  "shallow M st = (filter (\<lambda>e. sint (level e) \<le> sint M) (fst st), {p \<in> snd st. int (dots p) \<le> sint M})"

lemma upgrade_reg_level: "\<exists>e' \<in> set es. level e = level e' \<and> full_path e = full_path e'"
  if "e \<in> set (upgrade_reg p es)"
  using that by (induction es) (auto split: if_splits)

lemma filter_upgrade_reg:
  assumes "\<And>e. e \<in> set es \<Longrightarrow> full_path e = p \<Longrightarrow> sint (level e) \<le> m \<longleftrightarrow> b"
  shows "filter (\<lambda>e. sint (level e) \<le> m) (upgrade_reg p es)
    = (if b then upgrade_reg p (filter (\<lambda>e. sint (level e) \<le> m) es) else filter (\<lambda>e. sint (level e) \<le> m) es)"
  using assms by (induction es) auto

lemma push_leveled:
  assumes "leveled st" and "sint (level e) = int (dots (full_path e))"
  shows "leveled (push_hierarchy_entry e st)"
proof -
  have "state_wf (push_hierarchy_entry e st)" using assms(1) by (simp add: leveled_def push_wf)
  then show ?thesis using assms upgrade_reg_level
    unfolding leveled_def push_hierarchy_entry_def by (fastforce split: if_splits)
qed

lemma push_shallow:
  assumes "leveled st" and "sint (level e) = int (dots (full_path e))"
  shows "shallow M (push_hierarchy_entry e st)
    = (if sint (level e) \<le> sint M then push_hierarchy_entry e (shallow M st) else shallow M st)"
proof (cases "full_path e \<in> snd st \<and> sig_type e = Some ''reg''")
  case True
  have "sint (level x) \<le> sint M \<longleftrightarrow> sint (level e) \<le> sint M" if "x \<in> set (fst st)" "full_path x = full_path e" for x
    using assms that by (simp add: leveled_def)
  note f = filter_upgrade_reg [of "fst st" "full_path e" "sint M" "sint (level e) \<le> sint M", OF this]
  show ?thesis using True assms(2) by (simp add: push_hierarchy_entry_def shallow_def f)
next
  case False
  then show ?thesis using assms(2) by (auto simp: push_hierarchy_entry_def shallow_def)
qed

text \<open>The leaf loops, whose entries are all on one level.\<close>

definition leaf_level_ok :: "hier_vpi \<Rightarrow> vpiHandle \<Rightarrow> string \<Rightarrow> u32 \<Rightarrow> bool" where
  "leaf_level_ok V child path lvl \<longleftrightarrow>
     (\<forall>nm. leaf_of V child nm \<longrightarrow> sint (lvl + 1) = int (dots (leaf_path path nm)))"

lemma leaf_leveled:
  "leaf_level_ok V child path lvl \<Longrightarrow> leaf_of V child nm \<Longrightarrow>
   sint (level (leaf_entry V t path lvl obj nm)) = int (dots (full_path (leaf_entry V t path lvl obj nm)))"
  by (simp add: leaf_level_ok_def)

lemma leaves_too_deep:
  assumes "leaf_level_ok V child path lvl" and "leveled st" and "sint M < sint (lvl + 1)"
  shows "leveled (collect_leaves V child path lvl st) \<and> shallow M (collect_leaves V child path lvl st) = shallow M st"
proof (rule collect_leaves_keeps [where P="\<lambda>s. leveled s \<and> shallow M s = shallow M st"])
  show "leaf_stable (\<lambda>s. leveled s \<and> shallow M s = shallow M st) V child path lvl"
    unfolding leaf_stable_def
  proof (intro allI impI)
    fix t obj nm s assume s: "leveled s \<and> shallow M s = shallow M st" and nm: "leaf_of V child nm"
    let ?e = "leaf_entry V t path lvl obj nm"
    have "sint (level ?e) = int (dots (full_path ?e))" using assms(1) nm by (rule leaf_leveled)
    then show "leveled (push_hierarchy_entry ?e s) \<and> shallow M (push_hierarchy_entry ?e s) = shallow M st"
      using s assms(3) push_leveled [of s ?e] push_shallow [of s ?e M] by simp
  qed
  show "leveled st \<and> shallow M st = shallow M st" using assms(2) by simp
qed

lemma visit_leaf_shallow:
  assumes "leaf_level_ok V child path lvl" and "obj \<in> leaf_objects V child" and "leveled (snd s)"
    and "sint (lvl + 1) \<le> sint M"
  shows "leveled (snd (visit_leaf V t path lvl obj s))
    \<and> visit_leaf V t path lvl obj (fst s, shallow M (snd s))
      = (fst (visit_leaf V t path lvl obj s), shallow M (snd (visit_leaf V t path lvl obj s)))"
  using assms leaf_leveled [OF assms(1)]
  by (auto simp: visit_leaf_def leaf_objects_def push_leveled push_shallow split: option.split)

text \<open>A loop whose body commutes with a map of the state commutes with it.\<close>

lemma fold_commutes:
  assumes "\<And>x s. x \<in> set xs \<Longrightarrow> P s \<Longrightarrow> P (f x s) \<and> f x (g s) = g (f x s)" and "P s"
  shows "P (fold f xs s) \<and> fold f xs (g s) = g (fold f xs s)"
  using assms by (induction xs arbitrary: s) simp_all

lemma leaves_shallow:
  assumes "leaf_level_ok V child path lvl" and "leveled st" and "sint (lvl + 1) \<le> sint M"
  shows "leveled (collect_leaves V child path lvl st)
    \<and> collect_leaves V child path lvl (shallow M st) = shallow M (collect_leaves V child path lvl st)"
proof -
  define g where "g s = (fst s, shallow M (snd s))" for s :: "string set \<times> collected"
  define P where "P s = leveled (snd s)" for s :: "string set \<times> collected"
  have leaf: "P (visit_leaf V t path lvl obj s) \<and> visit_leaf V t path lvl obj (g s) = g (visit_leaf V t path lvl obj s)"
    if "obj \<in> leaf_objects V child" "P s" for t obj s
    using visit_leaf_shallow [OF assms(1) that(1) _ assms(3)] that(2) by (simp add: P_def g_def)
  have leaves: "P (visit_leaves V child path lvl t s)
      \<and> visit_leaves V child path lvl t (g s) = g (visit_leaves V child path lvl t s)"
    if "t \<in> {vpiNet, vpiReg, vpiMemory}" "P s" for t s
  proof (cases "objects V t child")
    case None
    then show ?thesis using that(2) by (simp add: visit_leaves_def)
  next
    case (Some objs)
    have "set objs \<subseteq> leaf_objects V child" by (rule leaf_objects_of [OF Some that(1)])
    then show ?thesis
      using fold_commutes [of objs P "visit_leaf V t path lvl" g s] leaf that(2) Some
      by (simp add: visit_leaves_def subset_iff)
  qed
  have "P (fold (visit_leaves V child path lvl) ts s)
      \<and> fold (visit_leaves V child path lvl) ts (g s) = g (fold (visit_leaves V child path lvl) ts s)"
    if "set ts \<subseteq> {vpiNet, vpiReg, vpiMemory}" "P s" for ts s
    using fold_commutes [of ts P "visit_leaves V child path lvl" g s] leaves that by blast
  from this [of "[vpiNet, vpiReg, vpiMemory]" "({}, st)"] show ?thesis
    using assms(2) unfolding P_def g_def collect_leaves_def by simp
qed

text \<open>The path of a module at recursion depth \<open>d\<close> has as many segments.\<close>

definition path_depth :: "string \<Rightarrow> nat \<Rightarrow> bool" where
  "path_depth path d \<longleftrightarrow> (if path = [] then d = 0 else d = Suc (dots path))"

lemma path_depth_join:
  "local_name nm \<Longrightarrow> path_depth path d \<Longrightarrow>
   path_depth (join_path path nm) (Suc d) \<and> dots (join_path path nm) = d"
  by (auto simp: path_depth_def join_path_def local_name_def dots_0_iff split: if_splits)

lemma leaf_level_join:
  assumes "\<And>l. leaf_of V child l \<Longrightarrow> leaf_name_of full l" and "dots full = d" and "Suc d < 2 ^ 31"
  shows "leaf_level_ok V child full (of_nat d)"
proof -
  have "of_nat d + 1 = (of_nat (Suc d) :: u32)" by simp
  then have "sint (of_nat d + 1 :: u32) = int (Suc d)" using sint_level [OF assms(3)] by metis
  then show ?thesis
    using assms(1,2) by (fastforce simp: leaf_level_ok_def leaf_path_def leaf_name_of_def local_name_def dots_0_iff)
qed

lemma visit_module_shallow:
  assumes "\<And>l. leaf_of V child l \<Longrightarrow> leaf_name_of full l" and "leveled st" and "dots full = d" and "Suc d < 2 ^ 31" and "M \<noteq> 0"
  shows "leveled (visit_module V full (of_nat d) 0 child st)
    \<and> shallow M (visit_module V full (of_nat d) 0 child st)
      = (if int d \<le> sint M then visit_module V full (of_nat d) M child (shallow M st) else shallow M st)"
proof -
  let ?e = "module_entry V full (of_nat d) child" and ?s = "push_hierarchy_entry (module_entry V full (of_nat d) child) st"
  have l: "sint (level ?e) = int (dots (full_path ?e))" "sint (of_nat d :: u32) = int d"
    using assms(3,4) by (simp_all add: sint_level)
  have push: "leveled ?s" "shallow M ?s = (if int d \<le> sint M then push_hierarchy_entry ?e (shallow M st) else shallow M st)"
    using push_leveled [OF assms(2) l(1)] push_shallow [OF assms(2) l(1), of M] l(2) by simp_all
  have ok: "leaf_level_ok V child full (of_nat d)" by (rule leaf_level_join [OF assms(1,3,4)])
  have "of_nat d + 1 = (of_nat (Suc d) :: u32)" by simp
  then have next_level: "sint (of_nat d + 1 :: u32) = int d + 1" using sint_level [OF assms(4)] by (simp add: add.commute)
  have deep: "visit_module V full (of_nat d) 0 child st = collect_leaves V child full (of_nat d) ?s"
    by (simp add: visit_module_def)
  show ?thesis
  proof (cases "int d < sint M")
    case True
    then show ?thesis
      using leaves_shallow [OF ok push(1), of M] push next_level assms(5) l(2)
      unfolding deep by (simp add: visit_module_def)
  next
    case False
    then show ?thesis
      using leaves_too_deep [OF ok push(1), of M] push next_level assms(5) l(2)
      unfolding deep by (simp add: visit_module_def)
  qed
qed

text \<open>A loop whose body is simulated is simulated.\<close>

lemma fold_opt_simulates:
  assumes "fold_opt f cs s = Some t" and "P s"
    and "\<And>c s t. c \<in> set cs \<Longrightarrow> P s \<Longrightarrow> f c s = Some t \<Longrightarrow> P t \<and> g c (h s) = Some (h t)"
  shows "P t \<and> fold_opt g cs (h s) = Some (h t)"
  using assms
proof (induction cs arbitrary: s)
  case Nil
  then show ?case by simp
next
  case (Cons c cs)
  then obtain s' where s': "f c s = Some s'" and t: "fold_opt f cs s' = Some t"
    by (auto simp: bind_eq_Some_conv)
  have c: "P s' \<and> g c (h s) = Some (h s')" using Cons.prems(3) [of c s s'] Cons.prems(2) s' by simp
  have "P t \<and> fold_opt g cs (h s') = Some (h t)"
    using t conjunct1 [OF c]
  proof (rule Cons.IH)
    show "P b \<and> g x (h a) = Some (h b)" if "x \<in> set cs" "P a" "f x a = Some b" for x a b
      using that by (intro Cons.prems(3)) simp_all
  qed
  then show ?case using c by simp
qed

lemma collect_shallow:
  assumes V: "scoped_names V" and M: "M \<noteq> 0"
  shows "vpiml_collect_hierarchy_recursive V n m path (of_nat d) 0 st = Some st' \<Longrightarrow>
   leveled st \<Longrightarrow> path_depth path d \<Longrightarrow> module_at V m path \<Longrightarrow> d + n < 2 ^ 31 \<Longrightarrow>
   leveled st' \<and> vpiml_collect_hierarchy_recursive V n m path (of_nat d) M (shallow M st) = Some (shallow M st')"
proof (induction n arbitrary: m path d st st')
  case 0
  then show ?case by simp
next
  case (Suc n)
  have d: "d < 2 ^ 31" using Suc.prems(5) by simp
  have step: "leveled t \<and> (if int d \<le> sint M then visit_child V n path (of_nat d) M c (shallow M s) = Some (shallow M t)
      else shallow M t = shallow M s)"
    if s: "leveled s" and t: "visit_child V n path (of_nat d) 0 c s = Some t"
      and c: "objects V vpiModule m = Some cs" "c \<in> set cs" for c s t cs
  proof (cases "obj_name V c")
    case None
    then show ?thesis using s t by (simp add: visit_child_def)
  next
    case (Some nm)
    let ?full = "join_path path nm" and ?d = "of_nat (Suc d) :: u32"
    let ?v = "visit_module V ?full (of_nat d) 0 c s"
    have sub: "submodule V m c nm" using c Some by (simp add: submodule_def)
    have at: "module_at V c ?full" by (rule module_at.child [OF Suc.prems(4) sub])
    have nms: "local_name nm" "\<And>l. leaf_of V c l \<Longrightarrow> leaf_name_of ?full l"
      using V Suc.prems(4) sub unfolding scoped_names_def by blast+
    have pd: "path_depth ?full (Suc d)" "dots ?full = d"
      using path_depth_join [OF nms(1) Suc.prems(3)] by simp_all
    have rec: "vpiml_collect_hierarchy_recursive V n c ?full ?d 0 ?v = Some t"
      using t Some by (simp add: visit_child_def add.commute)
    then obtain k where n: "n = Suc k" by (cases n) simp_all
    then have sd: "Suc d < 2 ^ 31" using Suc.prems(5) by simp
    note v = visit_module_shallow [OF nms(2) s pd(2) sd M]
    have IH: "leveled t \<and> vpiml_collect_hierarchy_recursive V n c ?full ?d M (shallow M ?v) = Some (shallow M t)"
      using Suc.IH [OF rec] v pd(1) at Suc.prems(5) by simp
    show ?thesis
    proof (cases "int d \<le> sint M")
      case True
      then show ?thesis using IH v Some by (simp add: visit_child_def add.commute)
    next
      case False
      have "vpiml_collect_hierarchy_recursive V n c ?full ?d M (shallow M ?v) = Some (shallow M ?v)"
        using False M sint_level [OF sd] unfolding n by (simp add: collect_Suc del: of_nat_Suc)
      then show ?thesis using IH v False by simp
    qed
  qed
  show ?case
  proof (cases "objects V vpiModule m")
    case None
    then show ?thesis using Suc.prems(1,2) by (simp add: collect_Suc)
  next
    case (Some cs)
    then have run: "fold_opt (visit_child V n path (of_nat d) 0) cs st = Some st'"
      using Suc.prems(1) by (simp add: collect_Suc)
    show ?thesis
    proof (cases "int d \<le> sint M")
      case True
      have "leveled st' \<and> fold_opt (visit_child V n path (of_nat d) M) cs (shallow M st) = Some (shallow M st')"
        using run Suc.prems(2) by (rule fold_opt_simulates) (use step [OF _ _ Some] True in simp)
      then show ?thesis using Some True by (simp add: collect_Suc sint_level [OF d])
    next
      case False
      have "leveled st' \<and> shallow M st' = shallow M st"
      proof (rule fold_opt_Some [OF run])
        show "leveled st \<and> shallow M st = shallow M st" using Suc.prems(2) by simp
        show "leveled t \<and> shallow M t = shallow M st"
          if "c \<in> set cs" "leveled s \<and> shallow M s = shallow M st"
            "visit_child V n path (of_nat d) 0 c s = Some t" for c s t
          using step [OF _ that(3) Some that(1)] that(2) False by simp
      qed
      then show ?thesis using False M by (simp add: collect_Suc sint_level [OF d])
    qed
  qed
qed

lemma collect_entries_shallow:
  assumes "scoped_names V" and "collect_hierarchy_entries V n 0 = Some es" and "n < 2 ^ 31" and "M \<noteq> 0"
  shows "collect_hierarchy_entries V n M = Some (filter (\<lambda>e. sint (level e) \<le> sint M) es)"
proof -
  obtain st where st: "vpiml_collect_hierarchy_recursive V n 0 [] 0 0 ([], {}) = Some st"
    and es: "es = sort_key (\<lambda>e. (full_path e, sint (level e))) (fst st)"
    using assms(2) by (auto simp: collect_hierarchy_entries_def)
  have "leveled ([], {})" "path_depth [] 0" by (simp_all add: leveled_def state_wf_def path_depth_def)
  moreover have "shallow M ([], {}) = ([], {})" by (simp add: shallow_def)
  ultimately have "vpiml_collect_hierarchy_recursive V n 0 [] 0 M ([], {}) = Some (shallow M st)"
    using collect_shallow [OF assms(1,4), of n 0 "[]" 0 "([], {})" st] st assms(3) module_at.root by simp
  then show ?thesis by (simp add: collect_hierarchy_entries_def es shallow_def filter_sort)
qed

subsection \<open>The cached build agrees with the uncached one\<close>

text \<open>What the traversal collects is stored and read back unchanged.\<close>

definition storable_collected :: "collected \<Rightarrow> bool" where
  "storable_collected st \<longleftrightarrow> list_all (\<lambda>e. utf8_entry e \<and> norm_entry e = e) (fst st)"

lemma norm_entry_same: "norm_entry e = e \<longleftrightarrow> def_name e \<noteq> Some [] \<and> sig_type e \<noteq> Some []"
  by (cases e) (simp add: norm_entry_def norm_opt_def)

lemma list_all_upgrade_reg:
  "list_all (\<lambda>e. utf8_entry e \<and> norm_entry e = e) es \<Longrightarrow>
   list_all (\<lambda>e. utf8_entry e \<and> norm_entry e = e) (upgrade_reg p es)"
proof (induction es)
  case Nil
  show ?case by simp
next
  case (Cons e es)
  have "utf8_valid ''reg''" by code_simp
  then show ?case using Cons by (auto simp: utf8_entry_def utf8_opt_def norm_entry_same)
qed

lemma push_storable:
  "storable_collected st \<Longrightarrow> utf8_entry e \<Longrightarrow> norm_entry e = e \<Longrightarrow> storable_collected (push_hierarchy_entry e st)"
  by (simp add: storable_collected_def push_hierarchy_entry_def list_all_upgrade_reg)

lemma obj_name_utf8: "obj_name V h = Some nm \<Longrightarrow> utf8_valid nm"
  by (simp add: obj_name_def c_char_to_str_opt_Some)

lemma utf8_join: "utf8_valid path \<Longrightarrow> utf8_valid nm \<Longrightarrow> utf8_valid (join_path path nm)"
  by (simp add: join_path_def utf8_valid_append utf8_valid_Cons)

lemma utf8_leaf: "utf8_valid path \<Longrightarrow> utf8_valid nm \<Longrightarrow> utf8_valid (leaf_path path nm)"
  by (simp add: leaf_path_def utf8_valid_append utf8_valid_Cons)

lemma module_entry_storable:
  "utf8_valid path \<Longrightarrow> utf8_entry (module_entry V path lvl c) \<and> norm_entry (module_entry V path lvl c) = module_entry V path lvl c"
  by (auto simp: module_entry_def utf8_entry_def norm_entry_def norm_opt_def utf8_opt_def
      c_char_to_str_opt_Some split: option.split)

lemma leaf_entry_storable:
  "utf8_valid path \<Longrightarrow> utf8_valid nm \<Longrightarrow>
   utf8_entry (leaf_entry V t path lvl obj nm) \<and> norm_entry (leaf_entry V t path lvl obj nm) = leaf_entry V t path lvl obj nm"
  by (simp add: leaf_entry_def utf8_entry_def norm_entry_def norm_opt_def utf8_opt_def utf8_leaf)
     (simp add: utf8_valid_def)

lemma collect_entries_storable:
  assumes "collect_hierarchy_entries V n M = Some es"
  shows "list_all utf8_entry es" and "map norm_entry es = es"
proof -
  obtain st where st: "vpiml_collect_hierarchy_recursive V n 0 [] 0 M ([], {}) = Some st"
    and es: "es = sort_key (\<lambda>e. (full_path e, sint (level e))) (fst st)"
    using assms by (auto simp: collect_hierarchy_entries_def)
  have "storable_collected ([], {})" by (simp add: storable_collected_def)
  note collect_keeps [where P=storable_collected and Q=utf8_valid, OF _ _ _ st utf8_valid_Nil this]
  then have "storable_collected st"
    by (simp add: leaf_stable_def push_storable utf8_join obj_name_utf8 module_entry_storable
        leaf_entry_storable del: split_paired_All split_paired_all)
  then have "\<forall>e \<in> set es. utf8_entry e \<and> norm_entry e = e"
    by (simp add: es storable_collected_def list_all_iff)
  then show "list_all utf8_entry es" and "map norm_entry es = es"
    by (simp_all add: list_all_iff map_idI)
qed

lemma not_rejected_same: "\<not> rejected mt src mt src"
  by (auto simp: rejected_def source_mismatch_def the_source_def cache_stale_def the_mtime_def
      split: option.splits)

text \<open>
  The states the cache can be in while the design and its source do not change: the memory copy and
  the file each hold nothing usable or the design's entries.
\<close>

definition cache_ok :: "u64 option \<Rightarrow> string option \<Rightarrow> hierarchy_entry list \<Rightarrow> cache_state \<Rightarrow> bool" where
  "cache_ok mt src es s \<longleftrightarrow> cache_mem s \<in> {None, Some es} \<and> load_file s mt src \<in> {None, Some es}"

lemma get_or_init_ok:
  assumes "cache_ok mt src es s" and "collect_hierarchy_entries V n 0 = Some es"
    and "utf8_opt src" and "length es < 2 ^ 32"
  shows "\<exists>s'. get_or_init_hierarchy_cache mt src (collect_hierarchy_entries V n 0) s = Some (es, s')
    \<and> cache_ok mt src es s'"
proof -
  note st = collect_entries_storable [OF assms(2)]
  have "try_load_cache (fst (save_cache es mt src)) mt src \<in> {None, Some es}"
    using load_saved [OF st(1) assms(3,4)] load_failed_save [OF st(1) assms(3,4)] not_rejected_same st(2)
    by (cases "snd (save_cache es mt src)") simp_all
  then show ?thesis
    using assms(1,2) unfolding cache_ok_def get_or_init_hierarchy_cache_def load_file_def
    by (auto split: option.splits)
qed

definition no_cache :: "features \<Rightarrow> features" where
  "no_cache C = C\<lparr>feat_hierarchy_cache := False\<rparr>"

lemma report_filtered: "M \<noteq> 0 \<Longrightarrow>
    report V (filter (\<lambda>e. sint (level e) \<le> sint M) es) M ms f i r = report V es M ms f i r"
  by (simp add: report_def)

text \<open>
  C18. The build with the hierarchy cache reports exactly what the build without it reports, at every
  depth limit, from a cold cache, from the memory copy and, in a later run on the unchanged design,
  from the file; and the cache stays in such a state, across restarts too. Modules have local names;
  signals have local names or, as \<^verbatim>\<open>wave_vpi\<close> reports them, full dotted ones (\<open>scoped_names\<close>).
\<close>

theorem cached_equals_uncached:
  assumes "scoped_names V" and "collect_hierarchy_entries V n 0 = Some es" and "n < 2 ^ 31"
    and "length es < 2 ^ 32" and "utf8_opt src" and "cache_ok mt src es s"
    and "feat_hierarchy_cache C"
  shows "\<exists>r s'. vpiml_collect_hierarchy C V n mt src M wc mn incl req cb s = Some (r, s')
    \<and> vpiml_collect_hierarchy (no_cache C) V n mt src M wc mn incl req cb s = Some (r, s)
    \<and> cache_ok mt src es s' \<and> cache_ok mt src es (s'\<lparr>cache_mem := None\<rparr>)"
proof -
  obtain s' where s': "get_or_init_hierarchy_cache mt src (collect_hierarchy_entries V n 0) s = Some (es, s')"
    and ok: "cache_ok mt src es s'"
    using get_or_init_ok [OF assms(6,2,5,4)] by blast
  have restart: "cache_ok mt src es (t\<lparr>cache_mem := None\<rparr>)" if "cache_ok mt src es t" for t
    using that by (simp add: cache_ok_def load_file_def)
  have "\<exists>es'. collect_hierarchy_entries V n M = Some es' \<and>
      (\<forall>ms f i r. report V es' M ms f i r = report V es M ms f i r)"
    using collect_entries_shallow [OF assms(1,2,3)] report_filtered assms(2) by (cases "M = 0") auto
  then show ?thesis
    using s' ok restart assms(6,7) by (auto simp: vpiml_collect_hierarchy_def no_cache_def Let_def)
qed

text \<open>The demo design as \<^verbatim>\<open>wave_vpi\<close> shows it: the signals carry their full paths.\<close>

definition wave_hier :: hier_vpi where
  "wave_hier = demo_hier\<lparr>obj_str := (\<lambda>p h. if p = vpiName then
     (if h = 1 then Some ''top'' else if h = 2 then Some ''u'' else if h = 11 then Some ''top.clk''
      else if h = 12 then Some ''top.u.q'' else if h = 13 then Some ''top.u.r'' else None) else None)\<rparr>"

lemma wave_hier_names:
  "obj_name wave_hier h = Some nm \<longleftrightarrow>
   (h, nm) \<in> {(1, ''top''), (2, ''u''), (11, ''top.clk''), (12, ''top.u.q''), (13, ''top.u.r'')}"
proof -
  have "list_all utf8_valid [''top'', ''u'', ''top.clk'', ''top.u.q'', ''top.u.r'']" by code_simp
  then show ?thesis
    by (auto simp: obj_name_def wave_hier_def c_char_to_str_opt_Some)
qed

lemma wave_hier_submodule:
  "submodule wave_hier m c nm \<longleftrightarrow> (m, c, nm) \<in> {(0, 1, ''top''), (1, 2, ''u'')}"
  by (auto simp: submodule_def wave_hier_names) (auto simp: wave_hier_def demo_hier_def split: if_splits)

lemma wave_hier_leaf:
  assumes "leaf_of wave_hier c l"
  shows "(c, l) \<in> {(1, ''top.clk''), (2, ''top.u.q''), (2, ''top.u.r'')}"
proof -
  from assms obtain t objs obj where t: "t \<in> {vpiNet, vpiReg, vpiMemory}"
    and objs: "objects wave_hier t c = Some objs" and obj: "obj \<in> set objs" and nm: "obj_name wave_hier obj = Some l"
    by (auto simp: leaf_of_def leaf_names_def names_in_def split: option.splits)
  have "(c, objs) \<in> {(1, [11]), (2, [12, 13])}"
    using t objs by (elim insertE) (simp_all add: wave_hier_def demo_hier_def split: if_split_asm)
  then have "(c, obj) \<in> {(1, 11), (2, 12), (2, 13)}" using obj by auto
  then show ?thesis using nm unfolding wave_hier_names by (elim insertE) simp_all
qed

lemma wave_hier_scoped: "scoped_names wave_hier"
proof -
  have at: "module_at wave_hier m path \<Longrightarrow> (m, path) \<in> {(0, []), (1, ''top''), (2, ''top.u'')}" for m path
    by (induction rule: module_at.induct) (auto simp: wave_hier_submodule join_path_def)
  show ?thesis
    unfolding scoped_names_def
  proof (intro allI impI conjI)
    fix m path c nm assume m: "module_at wave_hier m path" and c: "submodule wave_hier m c nm"
    have mc: "(path, c, nm) \<in> {([], 1, ''top''), (''top'', 2, ''u'')}"
      using at [OF m] c unfolding wave_hier_submodule by (elim insertE) simp_all
    then show "local_name nm" by (elim insertE) (simp_all add: local_name_def)
    fix l assume "leaf_of wave_hier c l"
    from wave_hier_leaf [OF this] mc
    have "(path, c, nm, l) \<in> {([], 1, ''top'', ''top.clk''), (''top'', 2, ''u'', ''top.u.q''), (''top'', 2, ''u'', ''top.u.r'')}"
      by (elim insertE) simp_all
    then have "\<exists>x \<in> {''clk'', ''q'', ''r''}. l = join_path path nm @ CHR ''.'' # x"
      by (elim insertE) (simp_all add: join_path_def)
    moreover have "\<forall>x \<in> {''clk'', ''q'', ''r''}. local_name x" by (simp add: local_name_def)
    ultimately show "leaf_name_of (join_path path nm) l"
      by (auto simp only: leaf_name_of_def)
  qed
qed

lemma cached_equals_uncached_witness:
  "\<exists>r s'. vpiml_collect_hierarchy verilator_build wave_hier 4 (Some 7) None 1 None None 0 0 True
       \<lparr>cache_mem = None, cache_file = None\<rparr> = Some (r, s')
    \<and> map it_full_path (snd r) = [''top'', ''top.clk'', ''top.u'']
    \<and> vpiml_collect_hierarchy (no_cache verilator_build) wave_hier 4 (Some 7) None 1 None None 0 0 True
       \<lparr>cache_mem = None, cache_file = None\<rparr> = Some (r, \<lparr>cache_mem = None, cache_file = None\<rparr>)"
proof -
  let ?s = "\<lparr>cache_mem = None, cache_file = None\<rparr> :: cache_state"
  define es where "es = the (collect_hierarchy_entries wave_hier 4 0)"
  have l: "case collect_hierarchy_entries wave_hier 4 0 of None \<Rightarrow> False | Some es \<Rightarrow> length es = 5"
    by code_simp
  then have es: "collect_hierarchy_entries wave_hier 4 0 = Some es"
    by (simp add: es_def split: option.splits)
  have "length es < 2 ^ 32" using l es by simp
  moreover have "utf8_opt None" "cache_ok (Some 7) None es ?s"
    by (simp_all add: utf8_opt_def cache_ok_def load_file_def)
  moreover have "feat_hierarchy_cache verilator_build" by (simp add: verilator_build_def)
  ultimately obtain r s' where r: "vpiml_collect_hierarchy verilator_build wave_hier 4 (Some 7) None 1 None None 0 0 True ?s = Some (r, s')"
    "vpiml_collect_hierarchy (no_cache verilator_build) wave_hier 4 (Some 7) None 1 None None 0 0 True ?s = Some (r, ?s)"
    using cached_equals_uncached [OF wave_hier_scoped es, of None "Some 7" ?s verilator_build 1 None None 0 0 True]
    by auto
  have "case vpiml_collect_hierarchy (no_cache verilator_build) wave_hier 4 (Some 7) None 1 None None 0 0 True ?s of
      None \<Rightarrow> False | Some (r, s) \<Rightarrow> map it_full_path (snd r) = [''top'', ''top.clk'', ''top.u'']"
    by code_simp
  then show ?thesis using r by simp
qed

subsection \<open>Tree mode\<close>

lemma fold_visible_step:
  assumes "pre \<noteq> []"
  shows "snd (fold visible_step (split_on CHR ''.'' s) (pre, paths))
    = paths \<union> {pre @ CHR ''.'' # t | t. ancestor t s}"
  using assms
proof (induction "length s" arbitrary: s pre paths rule: less_induct)
  case less
  show ?case
  proof (cases "CHR ''.'' \<in> set s")
    case False
    then show ?thesis using less.prems
      by (auto simp: split_on_none visible_step_def Let_def join_path_def ancestor_single)
  next
    case True
    then obtain a r where s: "s = a @ CHR ''.'' # r" and a: "CHR ''.'' \<notin> set a"
      by (meson split_list_first)
    have "snd (fold visible_step (split_on CHR ''.'' r) (pre @ CHR ''.'' # a, insert (pre @ CHR ''.'' # a) paths))
      = insert (pre @ CHR ''.'' # a) paths \<union> {(pre @ CHR ''.'' # a) @ CHR ''.'' # t | t. ancestor t r}"
      using less.prems by (intro less.hyps) (simp_all add: s)
    moreover have "{pre @ CHR ''.'' # t | t. ancestor t s}
      = insert (pre @ CHR ''.'' # a) {(pre @ CHR ''.'' # a) @ CHR ''.'' # t | t. ancestor t r}"
      unfolding s ancestor_segment [OF a] by auto
    ultimately show ?thesis using less.prems
      by (simp add: s split_on_append [OF a] visible_step_def Let_def join_path_def)
  qed
qed

text \<open>A path whose first segment is not empty makes itself and its ancestors visible.\<close>

definition rooted :: "string \<Rightarrow> bool" where
  "rooted p \<longleftrightarrow> p \<noteq> [] \<and> hd p \<noteq> CHR ''.''"

lemma visible_prefixes_eq:
  assumes "rooted p"
  shows "visible_prefixes p paths = paths \<union> {q. ancestor q p}"
proof (cases "CHR ''.'' \<in> set p")
  case False
  then show ?thesis
    by (auto simp: visible_prefixes_def split_on_none visible_step_def Let_def join_path_def ancestor_single)
next
  case True
  then obtain a r where p: "p = a @ CHR ''.'' # r" and a: "CHR ''.'' \<notin> set a"
    by (meson split_list_first)
  then have "a \<noteq> []" using assms by (auto simp: rooted_def)
  moreover have "{q. ancestor q p} = insert a {a @ CHR ''.'' # t | t. ancestor t r}"
    unfolding p ancestor_segment [OF a] by auto
  ultimately show ?thesis
    by (simp add: visible_prefixes_def p split_on_append [OF a] visible_step_def Let_def join_path_def
        fold_visible_step)
qed

lemma visible_paths_eq:
  assumes "\<And>x. x \<in> set es \<Longrightarrow> entry_matches V x ms f \<Longrightarrow> rooted (full_path x)"
  shows "visible_paths V es ms f = {q. \<exists>x \<in> set es. entry_matches V x ms f \<and> ancestor q (full_path x)}"
proof -
  have "fold (\<lambda>e paths. if entry_matches V e ms f then visible_prefixes (full_path e) paths else paths) es paths
    = paths \<union> {q. \<exists>x \<in> set es. entry_matches V x ms f \<and> ancestor q (full_path x)}" for paths
    using assms
  proof (induction es arbitrary: paths)
    case Nil
    then show ?case by simp
  next
    case (Cons e es)
    have "(if entry_matches V e ms f then visible_prefixes (full_path e) paths else paths)
        = paths \<union> {q. entry_matches V e ms f \<and> ancestor q (full_path e)}"
      using Cons.prems by (simp add: visible_prefixes_eq)
    then show ?case using Cons.IH Cons.prems by auto
  qed
  then show ?thesis by (simp add: visible_paths_def)
qed

definition within :: "u32 \<Rightarrow> hierarchy_entry list \<Rightarrow> hierarchy_entry list" where
  "within M es = (if M = 0 then es else filter (\<lambda>e. sint (level e) \<le> sint M) es)"

text \<open>
  C19. With a wildcard, tree mode outputs, in the order of the collection, exactly the entries within
  the depth limit that match or are an ancestor of an entry that matches; a request for module names
  on a design without any is an error and outputs nothing.
\<close>

theorem tree_mode_selection:
  assumes "\<And>x. x \<in> set (within M es) \<Longrightarrow> entry_matches V x ms f \<Longrightarrow> rooted (full_path x)"
    and "ms \<noteq> []"
  shows "report V es M ms f True req =
    (if (f \<noteq> None \<or> req) \<and> (\<forall>e \<in> set (within M es). def_name e = None)
     then (Some (if f \<noteq> None then ModuleNameOnlyFsdb else ShowDefNameOnlyFsdb), [])
     else (None, concat (map emit_hierarchy_entry
       (filter (\<lambda>e. \<exists>x \<in> set (within M es). entry_matches V x ms f \<and> ancestor (full_path e) (full_path x))
         (within M es)))))"
proof -
  have e: "(if M = 0 then es else filter (\<lambda>e. sint (level e) \<le> sint M) es) = within M es"
    by (simp add: within_def)
  have v: "visible_paths V (within M es) ms f
      = {q. \<exists>x \<in> set (within M es). entry_matches V x ms f \<and> ancestor q (full_path x)}"
    using assms(1) by (rule visible_paths_eq)
  have "list_ex (\<lambda>e. def_name e \<noteq> None) (within M es) \<longleftrightarrow> \<not> (\<forall>e \<in> set (within M es). def_name e = None)"
    by (auto simp: list_ex_iff)
  then show ?thesis using assms(2) unfolding report_def e v Let_def by simp
qed

lemma tree_mode_selection_witness:
  "map it_full_path (snd (report demo_hier demo_entries 0 [''top.clk''] None True False)) = [''top'', ''top.clk'']"
proof -
  have "rooted (full_path x)" if "x \<in> set (within 0 demo_entries)" for x
    using that by (auto simp: within_def demo_entries_def rooted_def)
  note t = tree_mode_selection [of 0 demo_entries demo_hier "[''top.clk'']" None False, OF this]
  have m: "within 0 demo_entries = demo_entries" by (simp add: within_def)
  let ?m = "\<lambda>x. entry_matches demo_hier x [''top.clk''] None"
  have m1: "\<not> ?m (demo_entries ! 0)" "?m (demo_entries ! 1)" by code_simp+
  have es: "demo_entries = [demo_entries ! 0, demo_entries ! 1]" by (simp add: demo_entries_def)
  have ex: "(\<exists>x \<in> set demo_entries. ?m x \<and> ancestor q (full_path x)) \<longleftrightarrow> ancestor q ''top.clk''" for q
  proof -
    have "full_path (demo_entries ! 1) = ''top.clk''" by code_simp
    then show ?thesis using m1 by (subst es) simp
  qed
  have "ancestor ''top'' ''top.clk''" by (simp add: ancestor_def)
  then have "filter (\<lambda>e. \<exists>x \<in> set demo_entries. ?m x \<and> ancestor (full_path e) (full_path x)) demo_entries
      = demo_entries"
    unfolding ex by (simp add: demo_entries_def)
  moreover have "map it_full_path (concat (map emit_hierarchy_entry demo_entries)) = [''top'', ''top.clk'']"
    by code_simp
  ultimately show ?thesis using t unfolding m by simp
qed

end
