(* ===== verification/TraceHooks.thy ===== *)
theory TraceHooks
  imports Text
begin

text \<open>
  The trace functions of \<^verbatim>\<open>verilator_helper.rs\<close>: the C++ main program registers them by name, Lua calls them.
  A function is its address; a call is the address with the argument it is given (a path, or NULL).
\<close>

record trace_hooks =
  initialize_trace :: "nat option"
  enable_trace :: "nat option"
  disable_trace :: "nat option"

definition no_hooks :: trace_hooks where
  "no_hooks = \<lparr>initialize_trace = None, enable_trace = None, disable_trace = None\<rparr>"

definition verilua_alloc_verilator_func :: "nat option \<Rightarrow> c_str \<Rightarrow> trace_hooks \<Rightarrow> trace_hooks res" where
  "verilua_alloc_verilator_func func name t =
     and_then (c_char_to_str name) (\<lambda>name.
       Inr (if name = ''simulation_initializeTrace'' then t\<lparr>initialize_trace := func\<rparr>
            else if name = ''simulation_enableTrace'' then t\<lparr>enable_trace := func\<rparr>
            else if name = ''simulation_disableTrace'' then t\<lparr>disable_trace := func\<rparr>
            else t))"

definition unwrap_hook :: "nat option \<Rightarrow> c_str \<Rightarrow> (nat \<times> c_str) res" where
  "unwrap_hook f arg = (case f of None \<Rightarrow> Inl (Panic ''unwrap'') | Some a \<Rightarrow> Inr (a, arg))"

definition verilator_simulation_initializeTrace :: "c_str \<Rightarrow> trace_hooks \<Rightarrow> (nat \<times> c_str) res" where
  "verilator_simulation_initializeTrace path t = unwrap_hook (initialize_trace t) path"

definition verilator_simulation_enableTrace :: "trace_hooks \<Rightarrow> (nat \<times> c_str) res" where
  "verilator_simulation_enableTrace t = unwrap_hook (enable_trace t) None"

definition verilator_simulation_disableTrace :: "trace_hooks \<Rightarrow> (nat \<times> c_str) res" where
  "verilator_simulation_disableTrace t = unwrap_hook (disable_trace t) None"

text \<open>
  After any registrations a call reaches the function registered last under its name, and panics if there
  is none; names that are not hooks are ignored.
\<close>

definition register_all :: "(string \<times> nat) list \<Rightarrow> trace_hooks \<Rightarrow> trace_hooks res" where
  "register_all = fold_res (\<lambda>(n, f). verilua_alloc_verilator_func (Some f) (Some n))"

lemma register_all_hooks:
  assumes "list_all (\<lambda>(n, _). utf8_valid n) rs"
  shows "\<exists>t'. register_all rs t = Inr t'
    \<and> initialize_trace t' = (case map_of (rev rs) ''simulation_initializeTrace'' of Some f \<Rightarrow> Some f | None \<Rightarrow> initialize_trace t)
    \<and> enable_trace t' = (case map_of (rev rs) ''simulation_enableTrace'' of Some f \<Rightarrow> Some f | None \<Rightarrow> enable_trace t)
    \<and> disable_trace t' = (case map_of (rev rs) ''simulation_disableTrace'' of Some f \<Rightarrow> Some f | None \<Rightarrow> disable_trace t)"
  using assms
proof (induction rs arbitrary: t)
  case Nil
  then show ?case by (simp add: register_all_def)
next
  case (Cons r rs)
  obtain n f where r: "r = (n, f)" by (cases r)
  have "\<exists>t1. verilua_alloc_verilator_func (Some f) (Some n) t = Inr t1"
    using Cons.prems r by (simp add: verilua_alloc_verilator_func_def c_char_to_str_def)
  then obtain t1 where t1: "verilua_alloc_verilator_func (Some f) (Some n) t = Inr t1" by blast
  then have h: "initialize_trace t1 = (if n = ''simulation_initializeTrace'' then Some f else initialize_trace t)"
        "enable_trace t1 = (if n = ''simulation_enableTrace'' then Some f else enable_trace t)"
        "disable_trace t1 = (if n = ''simulation_disableTrace'' then Some f else disable_trace t)"
    using Cons.prems r by (auto simp: verilua_alloc_verilator_func_def c_char_to_str_def)
  have "register_all (r # rs) t = register_all rs t1" using t1 r by (simp add: register_all_def)
  moreover have "map_of (rev (r # rs)) k
      = (case map_of (rev rs) k of Some v \<Rightarrow> Some v | None \<Rightarrow> if n = k then Some f else None)" for k
    by (simp add: r map_add_def split: option.split)
  moreover have pick: "(case (case m of Some v \<Rightarrow> Some v | None \<Rightarrow> if b then Some f else None) of
      Some v \<Rightarrow> Some v | None \<Rightarrow> d) = (case m of Some v \<Rightarrow> Some v | None \<Rightarrow> if b then Some f else d)" for m b and d :: "nat option"
    by (simp split: option.split)
  moreover have "list_all (\<lambda>(n, _). utf8_valid n) rs" using Cons.prems by simp
  ultimately show ?case using Cons.IH [of t1] by (simp only: h pick)
qed

lemma hook_calls:
  assumes "list_all (\<lambda>(n, _). utf8_valid n) rs" "register_all rs no_hooks = Inr t"
  shows "verilator_simulation_enableTrace t =
    (case map_of (rev rs) ''simulation_enableTrace'' of Some f \<Rightarrow> Inr (f, None) | None \<Rightarrow> Inl (Panic ''unwrap''))"
  using register_all_hooks [OF assms(1), of no_hooks] assms(2)
  by (auto simp: verilator_simulation_enableTrace_def unwrap_hook_def no_hooks_def split: option.splits)

end
