(* ===== verification/WaveValue.thy ===== *)
theory WaveValue
  imports VpiTypes Text
begin

text \<open>
  Values of the waveform backend, \<^verbatim>\<open>src/wave_vpi/wellen_impl/src/lib.rs\<close>: how a sampled signal
  value becomes an integer, a vector of 32-bit words or a binary, hexadecimal or decimal string.
  Signals come from the \<^verbatim>\<open>wellen\<close> crate; a \<open>loaded_signal\<close> holds what its methods return. The
  conversions are the code's own.
\<close>

subsection \<open>Values of the wellen crate\<close>

text \<open>
  \<open>sv_bits\<close> is \<open>Some\<close> exactly when the value is a \<open>SignalValueRef::BitVec\<close>; the fields of
  \<open>bit_vec\<close> are the results of \<open>states()\<close>, \<open>be_bytes()\<close> and \<open>width()\<close>.
\<close>

datatype states = Two | Four | Nine

record bit_vec =
  bv_states :: states
  bv_be_bytes :: "u8 list option"
  bv_width :: nat

record signal_value =
  sv_bits :: "bit_vec option"
  sv_bit_string :: "string option"
  sv_width :: "nat option"

record loaded_signal =
  get_offset :: "u32 \<Rightarrow> nat option"
  get_value_at :: "nat \<Rightarrow> signal_value"
  time_indices :: "u32 list"
  get_first_time_idx :: "u32 option"

subsection \<open>Big-endian bytes to words\<close>

text \<open>\<open>BigEndian::read_u32\<close> of a four-byte chunk, \<open>chunks_exact(4)\<close>, and the two conversions.\<close>

fun read_u32_be :: "u8 list \<Rightarrow> u32" where
  "read_u32_be [a, b, c, d] =
     push_bit 24 (ucast a) OR push_bit 16 (ucast b) OR push_bit 8 (ucast c) OR ucast d"
| "read_u32_be _ = 0"

fun chunks_exact4 :: "u8 list \<Rightarrow> u8 list list" where
  "chunks_exact4 (a # b # c # d # r) = [a, b, c, d] # chunks_exact4 r"
| "chunks_exact4 _ = []"

fun or_shifted :: "nat \<Rightarrow> u8 list \<Rightarrow> u32 \<Rightarrow> u32" where
  "or_shifted k [] w = w"
| "or_shifted k (b # bs) w = or_shifted (k - 1) bs (w OR push_bit ((k - 1) * 8) (ucast b))"

definition bytes_to_u32s_be :: "u8 list \<Rightarrow> u32 list" where
  "bytes_to_u32s_be bytes =
     (let padding = (4 - length bytes mod 4) mod 4
      in if padding > 0
         then or_shifted (4 - padding) (take (4 - padding) bytes) 0
              # map read_u32_be (chunks_exact4 (drop (4 - padding) bytes))
         else map read_u32_be (chunks_exact4 bytes))"

definition bytes_last_u32_be :: "u8 list \<Rightarrow> u32" where
  "bytes_last_u32_be bytes =
     (let len = length bytes
      in if 4 \<le> len then read_u32_be (drop (len - 4) bytes)
         else read_u32_be (replicate (4 - len) 0 @ bytes))"

definition cover_with_32 :: "nat \<Rightarrow> nat" where
  "cover_with_32 n = (n + 31) div 32"

subsection \<open>Bit strings to hexadecimal\<close>

text \<open>
  A \<open>String\<close> is its UTF-8 bytes; \<open>push_char\<close> is \<open>String::push(n as char)\<close>, which encodes a byte
  above 127 in two bytes. The nibble arithmetic is on \<open>u8\<close> and wraps.
\<close>

definition byte_of :: "char \<Rightarrow> u8" where
  "byte_of c = of_nat (of_char c)"

definition char_byte :: "u8 \<Rightarrow> char" where
  "char_byte b = char_of (unat b)"

definition push_char :: "u8 \<Rightarrow> string" where
  "push_char b = (if unat b < 128 then [char_byte b]
     else [char_of (192 + unat b div 64), char_of (128 + unat b mod 64)])"

definition nibble_of :: "string \<Rightarrow> u8" where
  "nibble_of chunk = fold (\<lambda>c n. push_bit 1 n OR (byte_of c - byte_of CHR ''0'')) chunk 0"

definition hex_digit :: "u8 \<Rightarrow> u8" where
  "hex_digit n = (if n < 10 then byte_of CHR ''0'' + n else byte_of CHR ''a'' + n - 10)"

fun chunks4 :: "string \<Rightarrow> string list" where
  "chunks4 (a # b # c # d # r) = [a, b, c, d] # chunks4 r"
| "chunks4 [] = []"
| "chunks4 r = [r]"

definition hex_char_xz :: "string \<Rightarrow> string" where
  "hex_char_xz chunk =
     (if CHR ''x'' \<in> set chunk then ''x''
      else if CHR ''z'' \<in> set chunk then ''z''
      else push_char (hex_digit (nibble_of chunk)))"

definition bit_string_to_hex_with_xz :: "string \<Rightarrow> string" where
  "bit_string_to_hex_with_xz s =
     (if s = [] then ''0''
      else let padding = (4 - length s mod 4) mod 4
           in concat (map hex_char_xz (chunks4 (replicate padding CHR ''0'' @ s))))"

text \<open>The two-state path of \<open>wellen_vpi_get_value_from_index\<close> has its own loop over the bytes.\<close>

function hex_loop :: "string \<Rightarrow> string" where
  "hex_loop bytes = (if bytes = [] then []
     else char_byte (hex_digit (nibble_of (take 4 bytes))) # hex_loop (drop 4 bytes))"
  by pat_completeness auto
termination
  by (relation "measure length") (auto simp: neq_Nil_conv)

declare hex_loop.simps [simp del]

definition fast_hex :: "string \<Rightarrow> string" where
  "fast_hex s =
     (let padding = (4 - length s mod 4) mod 4
      in if padding > 0
         then char_byte (hex_digit (nibble_of (take (4 - padding) s))) # hex_loop (drop (4 - padding) s)
         else hex_loop s)"

subsection \<open>Decimal strings\<close>

text \<open>\<open>u128::from_str_radix(s, 16)\<close>; \<open>to_string\<close> is \<open>dec_string\<close>.\<close>

fun hex_digits :: "string \<Rightarrow> nat \<Rightarrow> nat option" where
  "hex_digits [] acc = Some acc"
| "hex_digits (c # cs) acc =
     (case hex_value c of None \<Rightarrow> None
      | Some d \<Rightarrow> if acc * 16 + d < 2 ^ 128 then hex_digits cs (acc * 16 + d) else None)"

definition from_str_radix16 :: "string \<Rightarrow> nat option" where
  "from_str_radix16 s =
     (if s = [] then None
      else if hd s = CHR ''+'' then (if tl s = [] then None else hex_digits (tl s) 0)
      else hex_digits s 0)"

definition four_state_dec :: "string \<Rightarrow> string" where
  "four_state_dec hex_string =
     (if CHR ''x'' \<in> set hex_string \<or> CHR ''z'' \<in> set hex_string then ''x''
      else case from_str_radix16 hex_string of Some v \<Rightarrow> dec_string v | None \<Rightarrow> ''x'')"

subsection \<open>Reading a value\<close>

text \<open>
  What \<open>wellen_vpi_get_value_from_index\<close> stores into the caller's \<open>t_vpi_value\<close>. The string variants
  go through \<open>store_value_str\<close>, whose result is the C string with the given bytes.
\<close>

definition two_state_value :: "u8 list \<Rightarrow> string option \<Rightarrow> nat \<Rightarrow> vpi_union res" where
  "two_state_value data bits fmt =
     (let words = bytes_to_u32s_be data in
      if fmt = vpiVectorVal then Inr (Vector (fold (\<lambda>w vs. vecval w 0 # vs) words []))
      else if fmt = vpiIntVal then
        (if words = [] then Inl (Panic ''index out of bounds'') else Inr (Integer (words ! (length words - 1))))
      else if fmt = vpiHexStrVal then
        (case bits of None \<Rightarrow> Inl (Panic ''to_bit_string'') | Some s \<Rightarrow> Inr (Str (fast_hex s)))
      else if fmt = vpiBinStrVal then
        (case bits of None \<Rightarrow> Inl (Panic ''to_bit_string'') | Some s \<Rightarrow> Inr (Str s))
      else if fmt = vpiDecStrVal then
        (if words = [] then Inl (Panic ''index out of bounds'')
         else Inr (Str (dec_string (unat (words ! (length words - 1))))))
      else Inl (Panic ''v_format''))"

definition multi_state_value :: "nat \<Rightarrow> string option \<Rightarrow> nat \<Rightarrow> vpi_union res" where
  "multi_state_value width bits fmt =
     (if fmt = vpiVectorVal then Inr (Vector (replicate (cover_with_32 width) (vecval 0 0)))
      else if fmt = vpiIntVal then Inr (Integer 0)
      else if fmt = vpiHexStrVal then
        (case bits of None \<Rightarrow> Inl (Panic ''to_bit_string'')
         | Some s \<Rightarrow> Inr (Str (bit_string_to_hex_with_xz s)))
      else if fmt = vpiBinStrVal then
        (case bits of None \<Rightarrow> Inl (Panic ''to_bit_string'') | Some s \<Rightarrow> Inr (Str s))
      else if fmt = vpiDecStrVal then
        (case bits of None \<Rightarrow> Inl (Panic ''to_bit_string'')
         | Some s \<Rightarrow> Inr (Str (four_state_dec (bit_string_to_hex_with_xz s))))
      else Inl (Panic ''v_format''))"

definition missing_value :: "nat \<Rightarrow> vpi_union res" where
  "missing_value fmt =
     (if fmt = vpiVectorVal then Inr (Vector [vecval 0 0])
      else if fmt = vpiIntVal then Inr (Integer 0)
      else if fmt = vpiHexStrVal \<or> fmt = vpiBinStrVal \<or> fmt = vpiDecStrVal then Inr (Str ''0'')
      else Inl (Panic ''v_format''))"

definition signal_value_at :: "loaded_signal \<Rightarrow> u64 \<Rightarrow> nat \<Rightarrow> vpi_union res" where
  "signal_value_at sig time_table_idx fmt =
     (case get_offset sig (ucast time_table_idx) of
        Some off \<Rightarrow>
          (let v = get_value_at sig off in
           case sv_bits v of
             Some bv \<Rightarrow>
               (if bv_states bv = Two then
                  (case bv_be_bytes bv of None \<Rightarrow> Inl (Panic ''be_bytes'')
                   | Some data \<Rightarrow> two_state_value data (sv_bit_string v) fmt)
                else multi_state_value (bv_width bv) (sv_bit_string v) fmt)
           | None \<Rightarrow> Inl (Panic ''signal_v''))
      | None \<Rightarrow>
          if time_table_idx \<noteq> 0 then Inl (Panic ''time_table_idx == 0'')
          else if time_indices sig = [] then Inl (Panic ''time_indices'')
          else missing_value fmt)"

definition signal_int_value :: "loaded_signal \<Rightarrow> u64 \<Rightarrow> u32 res" where
  "signal_int_value sig time_table_idx =
     (case get_offset sig (ucast time_table_idx) of
        Some off \<Rightarrow>
          (case sv_bits (get_value_at sig off) of
             Some bv \<Rightarrow>
               (if bv_states bv = Two then
                  (case bv_be_bytes bv of None \<Rightarrow> Inl (Panic ''be_bytes'')
                   | Some data \<Rightarrow> Inr (bytes_last_u32_be data))
                else Inr 0)
           | None \<Rightarrow> Inl (Panic ''not yet implemented''))
      | None \<Rightarrow> Inr 0)"

definition signal_value_str :: "loaded_signal \<Rightarrow> u64 \<Rightarrow> string res" where
  "signal_value_str sig time_table_idx =
     (case get_offset sig (ucast time_table_idx) of
        Some off \<Rightarrow>
          (case sv_bit_string (get_value_at sig off) of None \<Rightarrow> Inl (Panic ''to_bit_string'')
           | Some s \<Rightarrow> Inr s)
      | None \<Rightarrow> if time_table_idx \<noteq> 0 then Inl (Panic ''time_table_idx == 0'') else Inr ''0'')"

definition signal_property :: "loaded_signal \<Rightarrow> nat \<Rightarrow> u32 res" where
  "signal_property sig prop =
     (case get_first_time_idx sig of
        None \<Rightarrow> Inl (Panic ''get_first_time_idx'')
      | Some i \<Rightarrow>
          (case get_offset sig i of
             None \<Rightarrow> Inl (Panic ''failed to get offset'')
           | Some off \<Rightarrow>
               if prop = vpiSize then
                 (case sv_width (get_value_at sig off) of None \<Rightarrow> Inl (Panic ''width'')
                  | Some w \<Rightarrow> Inr (of_nat w))
               else Inl (Panic ''property'')))"

subsection \<open>The time table\<close>

text \<open>
  \<open>slice::binary_search\<close> is specified on a sorted slice: the index of a match (the only one, as the
  times of a wave file are strictly increasing) or the insertion point.
\<close>

datatype search = Ok nat | Err nat

definition binary_search :: "u64 list \<Rightarrow> u64 \<Rightarrow> search" where
  "binary_search xs t =
     (let i = length (takeWhile (\<lambda>x. x < t) xs)
      in if i < length xs \<and> xs ! i = t then Ok i else Err i)"

definition find_nearest_time_index :: "u64 list \<Rightarrow> u64 \<Rightarrow> nat" where
  "find_nearest_time_index time_table time =
     (case binary_search time_table time of
        Ok index \<Rightarrow> index
      | Err index \<Rightarrow> min (index - 1) (length time_table - 1))"

definition wellen_get_time_from_index :: "u64 list \<Rightarrow> u64 \<Rightarrow> u64 res" where
  "wellen_get_time_from_index time_table index =
     (if unat index < length time_table then Inr (time_table ! unat index)
      else Inl (Panic ''index out of bounds''))"

definition wellen_get_index_from_time :: "u64 list \<Rightarrow> u64 \<Rightarrow> u64" where
  "wellen_get_index_from_time time_table time = of_nat (find_nearest_time_index time_table time)"

definition wellen_get_max_index :: "u64 list \<Rightarrow> u64" where
  "wellen_get_max_index time_table = of_nat (length time_table - 1)"

text \<open>
  \<open>wellen_get_time_precision\<close> on \<open>hierarchy.timescale()\<close>: the unit's exponent (\<open>to_exponent\<close>, \<open>None\<close>
  for an unknown unit) and the factor.
\<close>

definition wellen_get_time_precision :: "(int option \<times> nat) option \<Rightarrow> int" where
  "wellen_get_time_precision timescale =
     (case timescale of
        Some (unit_exponent, factor) \<Rightarrow>
          (case unit_exponent of Some e \<Rightarrow> e | None \<Rightarrow> - 9)
          + (if factor = 1 then 0 else if factor = 10 then 1 else if factor = 100 then 2 else 0)
      | None \<Rightarrow> - 9)"

end
