(* ===== verification/Boxes.thy ===== *)
theory Boxes
  imports Prelude
begin

text \<open>
  Raw pointers handed to foreign code: \<open>Box::into_raw\<close> allocates at an address that is not live and not
  NULL, whatever the allocator; an address may come back after \<open>Box::from_raw\<close> has freed it.
\<close>

type_synonym ptr = nat
type_synonym allocator = "ptr list \<Rightarrow> ptr"

definition alloc_ok :: "allocator \<Rightarrow> bool" where
  "alloc_ok alloc \<longleftrightarrow> (\<forall>ps. alloc ps \<notin> set ps \<and> alloc ps \<noteq> 0)"

text \<open>What a client may rely on, whichever allocator it runs on.\<close>

locale box_heap =
  fixes alloc :: allocator
  assumes alloc_ok: "alloc_ok alloc"
begin

lemma fresh_key: "map_of m (alloc (map fst m)) = None"
  using alloc_ok unfolding alloc_ok_def map_of_eq_None_iff by (metis set_map)

lemma nonnull: "alloc ps \<noteq> 0"
  using alloc_ok by (simp add: alloc_ok_def)

lemma not_live: "alloc ps \<notin> set ps"
  using alloc_ok by (simp add: alloc_ok_def)

end

text \<open>Two allocators for concrete runs: one that never reuses an address, one that reuses the lowest.\<close>

definition bump_alloc :: allocator where
  "bump_alloc ps = Suc (fold max ps 0)"

fun first_free :: "nat \<Rightarrow> ptr \<Rightarrow> ptr list \<Rightarrow> ptr" where
  "first_free 0 p ps = p"
| "first_free (Suc n) p ps = (if p \<in> set ps then first_free n (Suc p) ps else p)"

definition reuse_alloc :: allocator where
  "reuse_alloc ps = first_free (length ps) 1 ps"

lemma fold_max_ge: "x \<in> set ps \<or> x \<le> m \<Longrightarrow> x \<le> fold max ps (m::nat)"
proof (induction ps arbitrary: m)
  case Nil
  then show ?case by simp
next
  case (Cons a ps)
  have "x \<in> set ps \<or> x \<le> max a m"
    using Cons.prems by (auto simp only: list.set insert_iff max.coboundedI1 max.coboundedI2)
  then have "x \<le> fold max ps (max a m)" by (rule Cons.IH)
  then show ?case by (simp only: fold_Cons o_apply)
qed

lemma alloc_ok_bump [simp]: "alloc_ok bump_alloc"
  unfolding alloc_ok_def bump_alloc_def using fold_max_ge by (metis Suc_n_not_le_n nat.distinct(1))

lemma first_free_ge: "p \<le> first_free n p ps"
  by (induction n p ps rule: first_free.induct) auto

lemma first_free_free: "first_free n p ps \<in> set ps \<Longrightarrow> {p..p + n} \<subseteq> set ps"
proof (induction n p ps rule: first_free.induct)
  case (1 p ps)
  then show ?case by simp
next
  case (2 n p ps)
  then have "p \<in> set ps" "{Suc p..Suc p + n} \<subseteq> set ps" by (auto split: if_splits)
  moreover have "{p..p + Suc n} = insert p {Suc p..Suc p + n}" by auto
  ultimately show ?case by simp
qed

lemma alloc_ok_reuse [simp]: "alloc_ok reuse_alloc"
  unfolding alloc_ok_def
proof (intro allI conjI notI)
  fix ps
  assume "reuse_alloc ps \<in> set ps"
  then have "{1..1 + length ps} \<subseteq> set ps" unfolding reuse_alloc_def by (rule first_free_free)
  then have "card {1..1 + length ps} \<le> card (set ps)" by (intro card_mono) simp_all
  also have "\<dots> \<le> length ps" by (rule card_length)
  finally show False by simp
next
  fix ps
  assume "reuse_alloc ps = 0"
  then show False using first_free_ge [of 1 "length ps" ps] by (simp add: reuse_alloc_def)
qed

interpretation bump: box_heap bump_alloc
  by unfold_locales simp

interpretation reuse: box_heap reuse_alloc
  by unfold_locales simp

end
