(* ===== verification/WaveBackend.thy ===== *)
theory WaveBackend
  imports WaveValue Boxes "HOL-Library.Char_ord" "HOL-Library.List_Lexorder" "HOL-Library.Product_Lexorder"
begin

text \<open>
  The state of the waveform backend (\<^verbatim>\<open>src/wave_vpi/wellen_impl/src/lib.rs\<close>) and its exported functions:
  initialisation with the two cache files, handle lookup, iteration over modules and signals, value
  access, and finalisation. The wave file, its hierarchy and its signals come from the \<^verbatim>\<open>wellen\<close> crate:
  \<open>wave_hier\<close> and the signal source hold what its methods return.
\<close>

subsection \<open>Hierarchy and signal source\<close>

type_synonym sig_ref = nat
type_synonym scope_ref = nat

datatype var_type = Wire | RegVar | Logic | SparseArray | OtherVar

record var =
  var_type_of :: var_type
  signal_ref :: sig_ref
  var_full_name :: string

record wave_hier =
  top_scopes :: "scope_ref list"
  sub_scopes :: "scope_ref \<Rightarrow> scope_ref list"
  scope_is_module :: "scope_ref \<Rightarrow> bool"
  scope_name :: "scope_ref \<Rightarrow> string"
  scope_vars :: "scope_ref \<Rightarrow> var list"
  all_vars :: "var list"
  lookup_var :: "string list \<Rightarrow> string \<Rightarrow> var option"
  timescale :: "(int option \<times> nat) option"

type_synonym wave_source = "sig_ref \<Rightarrow> sig_ref \<times> loaded_signal"

record signal_info =
  signal :: loaded_signal
  var_type :: var_type

subsection \<open>Cache files\<close>

text \<open>
  \<open>serde\<close> files are absent, unreadable, or hold the value that was written. \<open>modified\<close> is the size and
  modification time of the wave file.
\<close>

datatype 'a file_content = Missing | Corrupt | Holds 'a

record file_modified_info =
  mod_size :: u64
  mod_time :: u64

record wave_vpi_meta =
  modified :: file_modified_info
  sigref_count :: nat
  sigref :: "(string \<times> sig_ref) list"
  sigref_null :: "string list"

record disk =
  meta_file :: "wave_vpi_meta file_content"
  signal_file :: "(sig_ref \<rightharpoonup> signal_info) file_content"

definition SIGNAL_REF_COUNT_THRESHOLD :: nat where
  "SIGNAL_REF_COUNT_THRESHOLD = 15"

subsection \<open>Statics and the boxes handed to C++\<close>

text \<open>
  \<open>boxes\<close> are the live allocations behind raw pointers. The statics other than \<open>wave_source\<close> and
  \<open>wave_file_modified\<close> are all assigned by \<open>wellen_initialize\<close>, on either of its paths, so one flag says
  that they are \<open>Some\<close>.
\<close>

datatype iterator_item = ModuleItem scope_ref | SignalItem ptr

datatype box =
    SignalBox sig_ref
  | ModuleBox string
  | IteratorBox "iterator_item list" nat

record wave_state =
  initialized :: bool
  time_table :: "u64 list"
  hierarchy :: wave_hier
  wave_source :: "wave_source option"
  wave_file_modified :: "file_modified_info option"
  signal_ref_cache :: "(string \<times> sig_ref) list"
  signal_ref_cache_null :: "string list"
  signal_cache :: "sig_ref \<rightharpoonup> signal_info"
  signal_name_cache :: "sig_ref \<rightharpoonup> string"
  has_newly_add_signal_ref :: bool
  module_handle_cache :: "(scope_ref \<times> ptr) list"
  module_handle_ptr_map :: "ptr \<rightharpoonup> scope_ref"
  iterator_handle_ptr_set :: "ptr list"
  boxes :: "(ptr \<times> box) list"

definition no_hierarchy :: wave_hier where
  "no_hierarchy = \<lparr>top_scopes = [], sub_scopes = (\<lambda>_. []), scope_is_module = (\<lambda>_. False), scope_name = (\<lambda>_. []),
     scope_vars = (\<lambda>_. []), all_vars = [], lookup_var = (\<lambda>_ _. None), timescale = None\<rparr>"

definition new_process :: wave_state where
  "new_process = \<lparr>initialized = False, time_table = [], hierarchy = no_hierarchy, wave_source = None,
     wave_file_modified = None, signal_ref_cache = [], signal_ref_cache_null = [],
     signal_cache = Map.empty, signal_name_cache = Map.empty, has_newly_add_signal_ref = False,
     module_handle_cache = [], module_handle_ptr_map = Map.empty, iterator_handle_ptr_set = [], boxes = []\<rparr>"

definition get_time_table :: "wave_state \<Rightarrow> u64 list res" where
  "get_time_table st = (if initialized st then Inr (time_table st) else Inl (Panic ''TIME_TABLE''))"

definition get_hierarchy :: "wave_state \<Rightarrow> wave_hier res" where
  "get_hierarchy st = (if initialized st then Inr (hierarchy st) else Inl (Panic ''HIERARCHY''))"

definition get_signal_ref_cache :: "wave_state \<Rightarrow> (string \<times> sig_ref) list res" where
  "get_signal_ref_cache st =
     (if initialized st then Inr (signal_ref_cache st) else Inl (Panic ''SIGNAL_REF_CACHE''))"

definition get_signal_ref_cache_null :: "wave_state \<Rightarrow> string list res" where
  "get_signal_ref_cache_null st =
     (if initialized st then Inr (signal_ref_cache_null st) else Inl (Panic ''SIGNAL_REF_CACHE_NULL''))"

definition get_signal_cache :: "wave_state \<Rightarrow> (sig_ref \<rightharpoonup> signal_info) res" where
  "get_signal_cache st = (if initialized st then Inr (signal_cache st) else Inl (Panic ''SIGNAL_CACHE''))"

definition get_signal_name_cache :: "wave_state \<Rightarrow> (sig_ref \<rightharpoonup> string) res" where
  "get_signal_name_cache st =
     (if initialized st then Inr (signal_name_cache st) else Inl (Panic ''SIGNAL_NAME_CACHE''))"

definition get_wave_source :: "wave_state \<Rightarrow> wave_source res" where
  "get_wave_source st = (case wave_source st of Some src \<Rightarrow> Inr src | None \<Rightarrow> Inl (Panic ''WAVE_SOURCE''))"

definition get_module_handle_cache :: "wave_state \<Rightarrow> (scope_ref \<times> ptr) list res" where
  "get_module_handle_cache st =
     (if initialized st then Inr (module_handle_cache st) else Inl (Panic ''MODULE_HANDLE_CACHE''))"

definition get_module_handle_ptr_map :: "wave_state \<Rightarrow> (ptr \<rightharpoonup> scope_ref) res" where
  "get_module_handle_ptr_map st =
     (if initialized st then Inr (module_handle_ptr_map st) else Inl (Panic ''MODULE_HANDLE_PTR_MAP''))"

definition get_iterator_handle_ptr_set :: "wave_state \<Rightarrow> ptr list res" where
  "get_iterator_handle_ptr_set st =
     (if initialized st then Inr (iterator_handle_ptr_set st) else Inl (Panic ''ITERATOR_HANDLE_PTR_SET''))"

lemmas wave_getters =
  get_time_table_def get_hierarchy_def get_signal_ref_cache_def get_signal_ref_cache_null_def
  get_signal_cache_def get_signal_name_cache_def get_module_handle_cache_def
  get_module_handle_ptr_map_def get_iterator_handle_ptr_set_def

text \<open>
  \<open>Box::into_raw(Box::new(b))\<close> at the address the allocator picks given the live ones, the
  dereferences, and \<open>Box::from_raw\<close>.
\<close>

definition box_new :: "allocator \<Rightarrow> box \<Rightarrow> wave_state \<Rightarrow> ptr \<times> wave_state" where
  "box_new alloc b st =
     (let p = alloc (map fst (boxes st)) in (p, st\<lparr>boxes := (p, b) # boxes st\<rparr>))"

definition box_free :: "ptr \<Rightarrow> wave_state \<Rightarrow> wave_state res" where
  "box_free p st =
     (if map_of (boxes st) p = None then Inl (Undefined ''from_raw of a dead pointer'')
      else Inr (st\<lparr>boxes := hm_remove p (boxes st)\<rparr>))"

definition signal_of_handle :: "ptr \<Rightarrow> wave_state \<Rightarrow> sig_ref res" where
  "signal_of_handle p st =
     (case map_of (boxes st) p of Some (SignalBox i) \<Rightarrow> Inr i | _ \<Rightarrow> Inl (Undefined ''not a signal handle''))"

definition module_of_handle :: "ptr \<Rightarrow> wave_state \<Rightarrow> string res" where
  "module_of_handle p st =
     (case map_of (boxes st) p of Some (ModuleBox n) \<Rightarrow> Inr n | _ \<Rightarrow> Inl (Undefined ''not a module handle''))"

definition iterator_of_handle :: "ptr \<Rightarrow> wave_state \<Rightarrow> (iterator_item list \<times> nat) res" where
  "iterator_of_handle p st =
     (case map_of (boxes st) p of Some (IteratorBox xs i) \<Rightarrow> Inr (xs, i)
      | _ \<Rightarrow> Inl (Undefined ''not an iterator''))"

subsection \<open>Initialisation\<close>

text \<open>
  What \<open>wellen_initialize\<close> reads from its environment: the header and body of the wave file, the
  \<open>WAVE_VPI_HIERARCHY_ONLY\<close> variable, the file's metadata (size, seconds).
\<close>

record wave_env =
  read_header_from_file :: "string \<Rightarrow> wave_hier option"
  read_body :: "string \<Rightarrow> (u64 list \<times> wave_source) option"
  hierarchy_only :: bool
  fs_metadata :: "string \<Rightarrow> file_modified_info option"

definition use_cached_data :: "file_modified_info \<Rightarrow> wave_vpi_meta file_content \<Rightarrow> wave_vpi_meta option" where
  "use_cached_data cur f =
     (case f of
        Holds meta \<Rightarrow>
          (if mod_time (modified meta) = mod_time cur \<and> mod_size (modified meta) = mod_size cur
              \<and> sigref_count meta \<ge> SIGNAL_REF_COUNT_THRESHOLD
           then Some meta else None)
      | _ \<Rightarrow> None)"

definition load_ref_caches :: "wave_vpi_meta option \<Rightarrow> wave_state \<Rightarrow> wave_state" where
  "load_ref_caches cached st =
     (if initialized st then st
      else case cached of
        Some meta \<Rightarrow> st\<lparr>signal_ref_cache := sigref meta, signal_ref_cache_null := sigref_null meta\<rparr>
      | None \<Rightarrow> st\<lparr>signal_ref_cache := [], signal_ref_cache_null := []\<rparr>)"

definition load_signal_cache ::
  "wave_vpi_meta option \<Rightarrow> (sig_ref \<rightharpoonup> signal_info) file_content \<Rightarrow> wave_state \<Rightarrow> wave_state" where
  "load_signal_cache cached f st =
     (if initialized st then st
      else case cached of
        Some _ \<Rightarrow> st\<lparr>signal_cache := (case f of Holds cache \<Rightarrow> cache | _ \<Rightarrow> Map.empty)\<rparr>
      | None \<Rightarrow> st\<lparr>signal_cache := Map.empty\<rparr>)"

definition load_empty_registries :: "wave_state \<Rightarrow> wave_state" where
  "load_empty_registries st =
     (if initialized st then st
      else st\<lparr>signal_name_cache := Map.empty, module_handle_cache := [],
        module_handle_ptr_map := Map.empty, iterator_handle_ptr_set := []\<rparr>)"

definition wellen_initialize :: "wave_env \<Rightarrow> disk \<Rightarrow> c_str \<Rightarrow> wave_state \<Rightarrow> wave_state res" where
  "wellen_initialize E d filename st =
     (case filename of
        None \<Rightarrow> Inl (Panic ''filename.is_null()'')
      | Some file \<Rightarrow>
        if \<not> utf8_valid file then Inl (Panic ''to_str'')
        else case read_header_from_file E file of
          None \<Rightarrow> Inl (Panic ''Failed to load file!'')
        | Some hier \<Rightarrow>
          if hierarchy_only E then
            Inr (st\<lparr>time_table := [], hierarchy := hier, signal_ref_cache := [],
              signal_ref_cache_null := [], signal_cache := Map.empty, signal_name_cache := Map.empty,
              module_handle_cache := [], module_handle_ptr_map := Map.empty,
              iterator_handle_ptr_set := [], initialized := True\<rparr>)
          else case read_body E file of
            None \<Rightarrow> Inl (Panic ''Failed to load body!'')
          | Some (table, source) \<Rightarrow>
            (case fs_metadata E file of
               None \<Rightarrow> Inl (Panic ''Failed to get file metadata'')
             | Some cur \<Rightarrow>
               let cached = use_cached_data cur (meta_file d) in
               Inr ((load_empty_registries (load_signal_cache cached (signal_file d) (load_ref_caches cached
                 (st\<lparr>time_table := table, hierarchy := hier, wave_source := Some source,
                   wave_file_modified := Some cur\<rparr>))))\<lparr>initialized := True\<rparr>)))"

subsection \<open>Finalisation\<close>

definition save_caches :: "bool \<Rightarrow> wave_state \<Rightarrow> disk \<Rightarrow> disk res" where
  "save_caches can_create st d =
     (if length (signal_ref_cache st) \<ge> SIGNAL_REF_COUNT_THRESHOLD \<and> has_newly_add_signal_ref st then
        if \<not> can_create then Inl (Panic ''File::create'')
        else Inr ((case wave_file_modified st of
              Some m \<Rightarrow> d\<lparr>meta_file := Holds \<lparr>modified = m, sigref_count = length (signal_ref_cache st),
                  sigref = signal_ref_cache st, sigref_null = signal_ref_cache_null st\<rparr>\<rparr>
            | None \<Rightarrow> d)\<lparr>signal_file := Holds (signal_cache st)\<rparr>)
      else Inr d)"

definition reclaim :: "wave_state \<Rightarrow> wave_state res" where
  "reclaim st =
     (if \<not> initialized st then Inr st
      else
        and_then (fold_res box_free (iterator_handle_ptr_set st) (st\<lparr>signal_name_cache := Map.empty\<rparr>)) (\<lambda>st.
        and_then (fold_res box_free (map snd (module_handle_cache st)) (st\<lparr>iterator_handle_ptr_set := []\<rparr>)) (\<lambda>st.
        Inr (st\<lparr>module_handle_cache := [], module_handle_ptr_map := Map.empty\<rparr>))))"

definition wellen_finalize :: "bool \<Rightarrow> disk \<Rightarrow> wave_state \<Rightarrow> (disk \<times> wave_state) res" where
  "wellen_finalize can_create d st =
     and_then (get_signal_ref_cache st) (\<lambda>_.
     and_then (save_caches can_create st d) (\<lambda>d.
     and_then (reclaim st) (\<lambda>st. Inr (d, st))))"

subsection \<open>Handles by name\<close>

text \<open>\<open>str::rsplit_once(".")\<close>, with the path already split at its dots.\<close>

definition rsplit_path :: "string \<Rightarrow> (string list \<times> string) option" where
  "rsplit_path name =
     (let segs = split_on CHR ''.'' name
      in if length segs < 2 then None else Some (butlast segs, last segs))"

definition lest_score :: "string \<Rightarrow> string \<Rightarrow> nat" where
  "lest_score target candidate =
     length (takeWhile (\<lambda>(a, b). a = b) (zip (split_on CHR ''.'' target) (split_on CHR ''.'' candidate)))"

text \<open>\<open>sort_unstable_by\<close> on pairs that compare equal only when they are equal.\<close>

definition get_most_likely_signal_name :: "wave_hier \<Rightarrow> string \<Rightarrow> nat \<Rightarrow> string list" where
  "get_most_likely_signal_name hier name n =
     (let match_vec = map (\<lambda>v. (lest_score name (var_full_name v), var_full_name v)) (all_vars hier)
      in map snd (take n (sort_key (\<lambda>(score, full). (- int score, full)) match_vec)))"

definition remember_signal :: "string \<Rightarrow> sig_ref \<Rightarrow> signal_info \<Rightarrow> wave_state \<Rightarrow> wave_state" where
  "remember_signal name i info st =
     st\<lparr>signal_cache := (signal_cache st)(i \<mapsto> info),
        signal_name_cache := (signal_name_cache st)(i \<mapsto> name),
        signal_ref_cache := hm_upd name (\<lambda>_. i) (signal_ref_cache st),
        has_newly_add_signal_ref := True\<rparr>"

definition wellen_vpi_handle_by_name :: "allocator \<Rightarrow> c_str \<Rightarrow> wave_state \<Rightarrow> (ptr \<times> wave_state) res" where
  "wellen_vpi_handle_by_name alloc name st =
     (case name of
        None \<Rightarrow> Inl (Panic ''name.is_null()'')
      | Some name \<Rightarrow>
        if \<not> utf8_valid name then Inl (Panic ''to_str'')
        else and_then (get_signal_ref_cache st) (\<lambda>refs.
          case map_of refs name of
            Some i \<Rightarrow>
              and_then (get_signal_name_cache st) (\<lambda>names.
                Inr (box_new alloc (SignalBox i) (st\<lparr>signal_name_cache := names(i \<mapsto> name)\<rparr>)))
          | None \<Rightarrow>
              and_then (get_signal_ref_cache_null st) (\<lambda>nulls.
                if name \<in> set nulls then Inr (0, st)
                else case rsplit_path name of
                  None \<Rightarrow> Inl (Panic ''not a valid name'')
                | Some (path, leaf) \<Rightarrow>
                    and_then (get_hierarchy st) (\<lambda>hier.
                      case lookup_var hier path leaf of
                        None \<Rightarrow> Inr (0, st\<lparr>signal_ref_cache_null := List.insert name nulls,
                                      has_newly_add_signal_ref := True\<rparr>)
                      | Some v \<Rightarrow>
                          and_then (get_wave_source st) (\<lambda>source.
                            let (loaded_id, loaded_signal) = source (signal_ref v)
                            in if loaded_id \<noteq> signal_ref v then Inl (Panic ''Failed to load signal'')
                               else Inr (box_new alloc (SignalBox loaded_id)
                                 (remember_signal name loaded_id
                                   \<lparr>signal = loaded_signal, var_type = var_type_of v\<rparr> st)))))))"

subsection \<open>Iteration\<close>

definition get_or_create_module_handle :: "allocator \<Rightarrow> scope_ref \<Rightarrow> wave_state \<Rightarrow> (ptr \<times> wave_state) res" where
  "get_or_create_module_handle alloc scope st =
     and_then (get_module_handle_cache st) (\<lambda>cache.
       case map_of cache scope of
         Some p \<Rightarrow> Inr (p, st)
       | None \<Rightarrow>
           and_then (get_hierarchy st) (\<lambda>hier.
             if has_nul (scope_name hier scope) then Inl (Panic ''scope name contains NUL'')
             else let (p, st') = box_new alloc (ModuleBox (scope_name hier scope)) st
                  in Inr (p, st'\<lparr>module_handle_cache := hm_upd scope (\<lambda>_. p) (module_handle_cache st'),
                         module_handle_ptr_map := (module_handle_ptr_map st')(p \<mapsto> scope)\<rparr>)))"

definition ends_with :: "string \<Rightarrow> string \<Rightarrow> bool" where
  "ends_with s suffix = (length suffix \<le> length s \<and> drop (length s - length suffix) s = suffix)"

definition is_valid_top_module_scope :: "wave_hier \<Rightarrow> scope_ref \<Rightarrow> bool" where
  "is_valid_top_module_scope hier scope =
     (scope_is_module hier scope
      \<and> \<not> (take 1 (scope_name hier scope) = ''$'' \<or> ends_with (scope_name hier scope) ''_pkg''))"

definition collect_module_scopes :: "nat \<Rightarrow> ptr \<Rightarrow> wave_state \<Rightarrow> scope_ref list res" where
  "collect_module_scopes ty ref st =
     (if ty \<noteq> vpiModule then Inr []
      else and_then (get_hierarchy st) (\<lambda>hier.
        if ref = 0 then Inr (filter (is_valid_top_module_scope hier) (top_scopes hier))
        else and_then (get_module_handle_ptr_map st) (\<lambda>ptrs.
          case ptrs ref of
            None \<Rightarrow> Inr []
          | Some scope \<Rightarrow> Inr (filter (scope_is_module hier) (sub_scopes hier scope)))))"

definition map_var_type_to_vpi_iter_type :: "var_type \<Rightarrow> nat" where
  "map_var_type_to_vpi_iter_type t =
     (case t of Wire \<Rightarrow> vpiNet | SparseArray \<Rightarrow> vpiMemory | _ \<Rightarrow> vpiReg)"

text \<open>The loop of \<open>collect_signal_handles\<close> over the remaining variables, with the visited signal refs.\<close>

fun collect_signals ::
  "allocator \<Rightarrow> nat \<Rightarrow> var list \<Rightarrow> sig_ref list \<Rightarrow> wave_state \<Rightarrow> (ptr list \<times> wave_state) res" where
  "collect_signals alloc ty [] visited st = Inr ([], st)"
| "collect_signals alloc ty (v # vs) visited st =
     (if map_var_type_to_vpi_iter_type (var_type_of v) \<noteq> ty then collect_signals alloc ty vs visited st
      else if signal_ref v \<in> set visited then collect_signals alloc ty vs visited st
      else if has_nul (var_full_name v) then Inl (Panic ''signal name contains NUL'')
      else and_then (wellen_vpi_handle_by_name alloc (Some (var_full_name v)) st) (\<lambda>(h, st).
        and_then (collect_signals alloc ty vs (signal_ref v # visited) st) (\<lambda>(hs, st).
          Inr (if h = 0 then hs else h # hs, st))))"

definition collect_signal_handles :: "allocator \<Rightarrow> nat \<Rightarrow> ptr \<Rightarrow> wave_state \<Rightarrow> (ptr list \<times> wave_state) res" where
  "collect_signal_handles alloc ty ref st =
     (if ty \<notin> {vpiNet, vpiReg, vpiMemory} then Inr ([], st)
      else if ref = 0 then Inr ([], st)
      else and_then (get_module_handle_ptr_map st) (\<lambda>ptrs.
        case ptrs ref of
          None \<Rightarrow> Inr ([], st)
        | Some scope \<Rightarrow>
            and_then (get_hierarchy st) (\<lambda>hier. collect_signals alloc ty (scope_vars hier scope) [] st)))"

definition iterator_items :: "allocator \<Rightarrow> nat \<Rightarrow> ptr \<Rightarrow> wave_state \<Rightarrow> (iterator_item list \<times> wave_state) res" where
  "iterator_items alloc ty ref st =
     (if ty = vpiModule then
        and_then (collect_module_scopes ty ref st) (\<lambda>scopes. Inr (map ModuleItem scopes, st))
      else if ty \<in> {vpiNet, vpiReg, vpiMemory} then
        and_then (collect_signal_handles alloc ty ref st) (\<lambda>(hs, st). Inr (map SignalItem hs, st))
      else Inr ([], st))"

definition wellen_vpi_iterate :: "allocator \<Rightarrow> nat \<Rightarrow> ptr \<Rightarrow> wave_state \<Rightarrow> (ptr \<times> wave_state) res" where
  "wellen_vpi_iterate alloc ty ref st =
     and_then (iterator_items alloc ty ref st) (\<lambda>(items, st).
       if items = [] then Inr (0, st)
       else let (p, st) = box_new alloc (IteratorBox items 0) st in
         and_then (get_iterator_handle_ptr_set st) (\<lambda>ptrs.
           Inr (p, st\<lparr>iterator_handle_ptr_set := List.insert p ptrs\<rparr>)))"

definition set_box :: "ptr \<Rightarrow> box \<Rightarrow> wave_state \<Rightarrow> wave_state" where
  "set_box p b st = st\<lparr>boxes := hm_upd p (\<lambda>_. b) (boxes st)\<rparr>"

definition wellen_vpi_scan :: "allocator \<Rightarrow> ptr \<Rightarrow> wave_state \<Rightarrow> (ptr \<times> wave_state) res" where
  "wellen_vpi_scan alloc p st =
     (if p = 0 then Inr (0, st)
      else and_then (get_iterator_handle_ptr_set st) (\<lambda>ptrs.
        if p \<notin> set ptrs then Inr (0, st)
        else and_then (iterator_of_handle p st) (\<lambda>(items, index).
          if length items \<le> index then
            and_then (box_free p (st\<lparr>iterator_handle_ptr_set := remove1 p ptrs\<rparr>)) (\<lambda>st. Inr (0, st))
          else let st = set_box p (IteratorBox items (Suc index)) st in
            case items ! index of
              ModuleItem scope \<Rightarrow> get_or_create_module_handle alloc scope st
            | SignalItem h \<Rightarrow> Inr (h, st))))"

subsection \<open>Values and properties of a handle\<close>

definition signal_info_of :: "ptr \<Rightarrow> wave_state \<Rightarrow> signal_info res" where
  "signal_info_of h st =
     and_then (signal_of_handle h st) (\<lambda>i.
     and_then (get_signal_cache st) (\<lambda>cache.
       case cache i of None \<Rightarrow> Inl (Panic ''get_signal_cache().get(handle).unwrap()'') | Some info \<Rightarrow> Inr info))"

definition wellen_get_int_value :: "ptr \<Rightarrow> u64 \<Rightarrow> wave_state \<Rightarrow> u32 res" where
  "wellen_get_int_value h idx st = and_then (signal_info_of h st) (\<lambda>info. signal_int_value (signal info) idx)"

definition wellen_vpi_get_value_from_index :: "ptr \<Rightarrow> u64 \<Rightarrow> nat \<Rightarrow> wave_state \<Rightarrow> vpi_union res" where
  "wellen_vpi_get_value_from_index h idx fmt st =
     and_then (signal_info_of h st) (\<lambda>info. signal_value_at (signal info) idx fmt)"

definition wellen_vpi_get_value :: "ptr \<Rightarrow> u64 \<Rightarrow> nat \<Rightarrow> wave_state \<Rightarrow> vpi_union res" where
  "wellen_vpi_get_value h time fmt st =
     and_then (get_time_table st) (\<lambda>table.
       wellen_vpi_get_value_from_index h (of_nat (find_nearest_time_index table time)) fmt st)"

definition wellen_get_value_str :: "ptr \<Rightarrow> u64 \<Rightarrow> wave_state \<Rightarrow> string res" where
  "wellen_get_value_str h idx st = and_then (signal_info_of h st) (\<lambda>info. signal_value_str (signal info) idx)"

definition wellen_vpi_get :: "nat \<Rightarrow> ptr \<Rightarrow> wave_state \<Rightarrow> u32 res" where
  "wellen_vpi_get prop h st = and_then (signal_info_of h st) (\<lambda>info. signal_property (signal info) prop)"

definition var_type_name :: "var_type \<Rightarrow> string" where
  "var_type_name t = (case t of Wire \<Rightarrow> ''vpiNet'' | RegVar \<Rightarrow> ''vpiReg'' | Logic \<Rightarrow> ''vpiReg'' | _ \<Rightarrow> ''vpiReg'')"

definition wellen_vpi_get_str :: "nat \<Rightarrow> ptr \<Rightarrow> wave_state \<Rightarrow> c_str res" where
  "wellen_vpi_get_str prop h st =
     and_then (get_module_handle_ptr_map st) (\<lambda>ptrs.
       if ptrs h \<noteq> None then
         and_then (module_of_handle h st) (\<lambda>name.
           Inr (if prop = vpiName then Some name
                else if prop = vpiDefName then None
                else if prop = vpiType then Some ''vpiModule''
                else None))
       else
         and_then (signal_of_handle h st) (\<lambda>i.
           if prop = vpiName then and_then (get_signal_name_cache st) (\<lambda>names. Inr (names i))
           else if prop = vpiType then
             and_then (signal_info_of h st) (\<lambda>info. Inr (Some (var_type_name (var_type info))))
           else Inr None))"

end
