(* ===== verification/WaveValueSpec.thy ===== *)
theory WaveValueSpec
  imports WaveValue
begin

text \<open>
  What the conversions of \<^verbatim>\<open>WaveValue\<close> compute: the word vector, the integer and the strings of one
  sample all denote the number its bit string denotes.
\<close>

subsection \<open>The numbers behind bytes, bits and digits\<close>

definition be_value :: "u8 list \<Rightarrow> nat" where
  "be_value bs = foldl (\<lambda>a b. a * 256 + unat b) 0 bs"

definition bit_of :: "char \<Rightarrow> nat" where
  "bit_of c = (if c = CHR ''1'' then 1 else 0)"

definition bits_value :: "string \<Rightarrow> nat" where
  "bits_value s = foldl (\<lambda>a c. a * 2 + bit_of c) 0 s"

definition binary :: "string \<Rightarrow> bool" where
  "binary s = list_all (\<lambda>c. c = CHR ''0'' \<or> c = CHR ''1'') s"

definition digits_value :: "string \<Rightarrow> nat" where
  "digits_value s = foldl (\<lambda>a c. a * 16 + (case hex_value c of Some d \<Rightarrow> d | None \<Rightarrow> 0)) 0 s"

text \<open>Horner sums over lists split at any point.\<close>

lemma foldl_horner: "foldl (\<lambda>a x. a * b + f x) (c::nat) xs = c * b ^ length xs + foldl (\<lambda>a x. a * b + f x) 0 xs"
proof (induction xs arbitrary: c)
  case Nil
  show ?case by simp
next
  case (Cons x xs)
  show ?case
    using Cons.IH [of "c * b + f x"] Cons.IH [of "f x"] by (simp add: algebra_simps)
qed

lemma horner_append:
  "foldl (\<lambda>a x. a * b + f x) (0::nat) (xs @ ys)
   = foldl (\<lambda>a x. a * b + f x) 0 xs * b ^ length ys + foldl (\<lambda>a x. a * b + f x) 0 ys"
  by (simp add: foldl_horner [where c = "foldl (\<lambda>a x. a * b + f x) 0 xs"])

lemma horner_Cons:
  "foldl (\<lambda>a x. a * b + f x) (0::nat) (x # xs) = f x * b ^ length xs + foldl (\<lambda>a x. a * b + f x) 0 xs"
  using horner_append [of b f "[x]" xs] by simp

lemma horner_bound:
  "(\<And>x. x \<in> set xs \<Longrightarrow> f x < b) \<Longrightarrow> foldl (\<lambda>a x. a * b + f x) (0::nat) xs < b ^ length xs"
proof (induction xs rule: rev_induct)
  case Nil
  show ?case by simp
next
  case (snoc x xs)
  let ?F = "foldl (\<lambda>a x. a * b + f x) 0 xs"
  have "?F + 1 \<le> b ^ length xs" using snoc by force
  then have "(?F + 1) * b \<le> b ^ length xs * b" by (rule mult_le_mono1)
  moreover have "f x < b" using snoc.prems by simp
  ultimately show ?case by (simp add: algebra_simps)
qed

lemma be_value_append: "be_value (xs @ ys) = be_value xs * 256 ^ length ys + be_value ys"
  unfolding be_value_def by (rule horner_append)

lemma be_value_Cons: "be_value (x # xs) = unat x * 256 ^ length xs + be_value xs"
  unfolding be_value_def by (rule horner_Cons)

lemma be_value_Nil [simp]: "be_value [] = 0"
  by (simp add: be_value_def)

lemma be_value_bound: "be_value bs < 256 ^ length bs"
proof -
  have "unat x < 256" for x :: u8 using unsigned_less [of x, where ?'a=nat] by simp
  then show ?thesis unfolding be_value_def by (intro horner_bound) simp
qed

lemma bits_value_append: "bits_value (xs @ ys) = bits_value xs * 2 ^ length ys + bits_value ys"
  unfolding bits_value_def by (rule horner_append)

lemma bits_value_Nil [simp]: "bits_value [] = 0"
  by (simp add: bits_value_def)

lemma bits_value_bound: "bits_value s < 2 ^ length s"
  unfolding bits_value_def by (rule horner_bound) (simp add: bit_of_def)

lemma bits_value_zeros [simp]: "bits_value (replicate n CHR ''0'' @ s) = bits_value s"
  by (induction n) (simp_all add: bits_value_def bit_of_def)

lemma digits_value_append: "digits_value (xs @ ys) = digits_value xs * 16 ^ length ys + digits_value ys"
  unfolding digits_value_def by (rule horner_append)

lemma digits_value_Nil [simp]: "digits_value [] = 0"
  by (simp add: digits_value_def)

subsection \<open>Bytes and words\<close>

lemma or_shifted_value:
  "length bs = k \<Longrightarrow> k \<le> 4 \<Longrightarrow> (\<And>n. bit w n \<Longrightarrow> 8 * k \<le> n)
   \<Longrightarrow> or_shifted k bs w = w + of_nat (be_value bs)"
proof (induction bs arbitrary: k w)
  case Nil
  then show ?case by simp
next
  case (Cons b bs)
  then obtain j where k: "k = Suc j" "length bs = j" by auto
  let ?p = "push_bit (j * 8) (ucast b) :: u32"
  have bits: "8 * j \<le> n \<and> n < 8 * k" if "bit ?p n" for n
  proof -
    from that have "j * 8 \<le> n" and "bit b (n - j * 8)" by (auto simp: bit_simps)
    moreover then have "n - j * 8 < 8" using bit_imp_le_length [of b "n - j * 8"] by simp
    ultimately show ?thesis using k by simp
  qed
  have "w AND ?p = 0"
    by (rule bit_word_eqI) (use bits Cons.prems(3) in \<open>force simp: bit_and_iff\<close>)
  then have plus: "w OR ?p = w + ?p" by (simp add: disjunctive_add_eq_or)
  have val: "?p = ucast b * 256 ^ j"
    using power_mult [of "2::u32" 8 j] by (simp add: push_bit_eq_mult mult.commute [of j])
  have "or_shifted j bs (w OR ?p) = (w OR ?p) + of_nat (be_value bs)"
    by (rule Cons.IH) (use k Cons.prems bits in \<open>auto simp: bit_or_iff dest: Cons.prems(3)\<close>)
  then show ?case using plus by (simp add: k val be_value_Cons of_nat_unat)
qed

lemma read_u32_be_value: "length bs = 4 \<Longrightarrow> read_u32_be bs = of_nat (be_value bs)"
proof -
  assume len: "length bs = 4"
  then obtain a b c d where bs: "bs = [a, b, c, d]" by (auto simp: numeral_eq_Suc length_Suc_conv)
  have "read_u32_be bs = or_shifted 4 bs 0" by (simp add: bs or.assoc)
  also have "\<dots> = of_nat (be_value bs)" using or_shifted_value [of bs 4 0] len by simp
  finally show ?thesis .
qed

lemma unat_be_word: "length bs \<le> 4 \<Longrightarrow> unat (of_nat (be_value bs) :: u32) = be_value bs"
proof -
  assume "length bs \<le> 4"
  then have "256 ^ length bs \<le> (256::nat) ^ 4" by (intro power_increasing) simp_all
  then have "be_value bs < 2 ^ 32" using be_value_bound [of bs] by simp
  then show ?thesis by (simp add: unat_of_nat take_bit_eq_mod)
qed

text \<open>The words, most significant first, and the reversed vector of a VPI value.\<close>

definition be_words :: "u32 list \<Rightarrow> nat" where
  "be_words ws = foldl (\<lambda>a w. a * 2 ^ 32 + unat w) 0 ws"

lemma words_value_append:
  "words_value (us @ vs) = words_value us + 2 ^ (32 * length us) * words_value vs"
  by (induction us) (simp_all add: algebra_simps power_add)

lemma words_value_rev: "words_value (rev (map (\<lambda>w. vecval w 0) ws)) = be_words ws"
proof (induction ws)
  case Nil
  show ?case by (simp add: be_words_def)
next
  case (Cons w ws)
  have "be_words (w # ws) = unat w * (2 ^ 32) ^ length ws + be_words ws"
    unfolding be_words_def by (rule horner_Cons)
  then show ?case using Cons by (simp add: words_value_append power_mult)
qed

lemma vector_rev: "fold (\<lambda>w vs. vecval w 0 # vs) ws vs = rev (map (\<lambda>w. vecval w 0) ws) @ vs"
  by (induction ws arbitrary: vs) simp_all

lemma be_words_Cons: "be_words (w # ws) = unat w * 2 ^ (32 * length ws) + be_words ws"
  using horner_Cons [of "2 ^ 32" unat w ws] by (simp add: be_words_def power_mult)

lemma chunks_exact4_value:
  "length bs mod 4 = 0 \<Longrightarrow>
   be_words (map read_u32_be (chunks_exact4 bs)) = be_value bs \<and> 4 * length (chunks_exact4 bs) = length bs"
proof (induction bs rule: chunks_exact4.induct)
  case (1 a b c d r)
  then have len: "length r mod 4 = 0" by simp
  have "unat (read_u32_be [a, b, c, d]) = be_value [a, b, c, d]"
    by (simp del: read_u32_be.simps add: read_u32_be_value unat_be_word)
  moreover have "be_value (a # b # c # d # r) = be_value [a, b, c, d] * 256 ^ length r + be_value r"
    using be_value_append [of "[a, b, c, d]" r] by simp
  moreover have "256 ^ length r = (2::nat) ^ (32 * length (chunks_exact4 r))"
  proof -
    have "256 ^ length r = (256::nat) ^ (4 * length (chunks_exact4 r))" using 1 len by simp
    also have "\<dots> = (2 ^ 8) ^ (4 * length (chunks_exact4 r))" by simp
    also have "\<dots> = 2 ^ (8 * (4 * length (chunks_exact4 r)))" by (rule power_mult [symmetric])
    finally show ?thesis by simp
  qed
  ultimately show ?case using 1 len by (simp del: read_u32_be.simps add: be_words_Cons)
qed (simp_all add: be_words_def)

lemma pad4: "(4 - n mod 4) mod 4 = (if n mod 4 = 0 then 0 else 4 - n mod 4)" for n :: nat
  by (cases "n mod 4 = 0") simp_all

lemma div4_up: "n mod 4 \<noteq> 0 \<Longrightarrow> (n + 3) div 4 = Suc (n div 4)" for n :: nat
proof -
  assume "n mod 4 \<noteq> 0"
  moreover have "n = 4 * (n div 4) + n mod 4" "n mod 4 < 4" by simp_all
  ultimately show ?thesis by linarith
qed

lemma bytes_to_u32s_be_value:
  "be_words (bytes_to_u32s_be bs) = be_value bs \<and> length (bytes_to_u32s_be bs) = (length bs + 3) div 4"
proof -
  define p where "p = (if length bs mod 4 = 0 then 0 else 4 - length bs mod 4)"
  show ?thesis
  proof (cases "length bs mod 4 = 0")
    case True
    moreover from this have "4 * ((length bs + 3) div 4) = length bs"
    proof -
      from True obtain k where "length bs = 4 * k" by (auto simp: mod_eq_0_iff_dvd)
      then show ?thesis by simp
    qed
    ultimately show ?thesis using chunks_exact4_value [of bs] by (simp add: bytes_to_u32s_be_def pad4)
  next
    case False
    have p: "4 - p = length bs mod 4" "0 < length bs mod 4" "0 < p" using False unfolding p_def by simp_all
    let ?f = "take (4 - p) bs" and ?r = "drop (4 - p) bs"
    have lf: "length ?f = 4 - p" using p by simp
    have lr: "length ?r = length bs - length bs mod 4" "length ?r mod 4 = 0"
      by (simp_all add: p minus_mod_eq_mult_div)
    have eq: "bytes_to_u32s_be bs = or_shifted (4 - p) ?f 0 # map read_u32_be (chunks_exact4 ?r)"
      using p(3) unfolding bytes_to_u32s_be_def Let_def pad4 p_def [symmetric] by simp
    have first: "or_shifted (4 - p) ?f 0 = of_nat (be_value ?f)"
      using or_shifted_value [OF lf, of 0] by simp
    have un: "unat (of_nat (be_value ?f) :: u32) = be_value ?f" using lf by (intro unat_be_word) simp
    note c = chunks_exact4_value [OF lr(2)]
    have "(2::nat) ^ (32 * length (chunks_exact4 ?r)) = 256 ^ length ?r"
    proof -
      have "256 ^ length ?r = (256::nat) ^ (4 * length (chunks_exact4 ?r))" using c by simp
      also have "\<dots> = (2 ^ 8) ^ (4 * length (chunks_exact4 ?r))" by simp
      also have "\<dots> = 2 ^ (8 * (4 * length (chunks_exact4 ?r)))" by (rule power_mult [symmetric])
      finally show ?thesis by simp
    qed
    then have "be_words (bytes_to_u32s_be bs) = be_value ?f * 256 ^ length ?r + be_value ?r"
      unfolding eq first be_words_Cons un using c by simp
    also have "\<dots> = be_value bs" using be_value_append [of ?f ?r] by simp
    finally have "be_words (bytes_to_u32s_be bs) = be_value bs" .
    moreover have "4 * length (chunks_exact4 ?r) = length bs - length bs mod 4" using c lr by simp
    then have "length (chunks_exact4 ?r) = length bs div 4"
      by (simp add: minus_mod_eq_mult_div)
    then have "length (bytes_to_u32s_be bs) = (length bs + 3) div 4"
      using False by (simp add: eq div4_up)
    ultimately show ?thesis ..
  qed
qed

lemma of_nat_low_word: "(of_nat (n * 2 ^ 32 + m) :: u32) = of_nat m"
  unfolding word_of_nat_eq_iff by (simp add: take_bit_eq_mod)

lemma be_words_last: "ws \<noteq> [] \<Longrightarrow> last ws = of_nat (be_words ws)"
proof (induction ws rule: rev_induct)
  case Nil
  then show ?case by simp
next
  case (snoc w ws)
  have "be_words (ws @ [w]) = be_words ws * 2 ^ 32 + unat w" by (simp add: be_words_def)
  then have "(of_nat (be_words (ws @ [w])) :: u32) = of_nat (unat w)" by (simp only: of_nat_low_word)
  then show ?case by (simp add: of_nat_unat)
qed

lemma last_word: "bs \<noteq> [] \<Longrightarrow> last (bytes_to_u32s_be bs) = of_nat (be_value bs)"
proof -
  assume "bs \<noteq> []"
  then have "bytes_to_u32s_be bs \<noteq> []" by (auto simp: bytes_to_u32s_be_def Let_def) (cases bs rule: chunks_exact4.cases; force)
  then show ?thesis using be_words_last bytes_to_u32s_be_value by metis
qed

lemma bytes_last_u32_be_value: "bytes_last_u32_be bs = of_nat (be_value bs)"
proof (cases "4 \<le> length bs")
  case True
  let ?l = "drop (length bs - 4) bs"
  have "be_value bs = be_value (take (length bs - 4) bs) * 2 ^ 32 + be_value ?l"
    using be_value_append [of "take (length bs - 4) bs" ?l] True by simp
  then have "(of_nat (be_value bs) :: u32) = of_nat (be_value ?l)" by (simp only: of_nat_low_word)
  moreover have "read_u32_be ?l = of_nat (be_value ?l)" using True by (intro read_u32_be_value) simp
  ultimately show ?thesis using True by (simp add: bytes_last_u32_be_def Let_def)
next
  case False
  have "be_value (replicate n 0 @ bs) = be_value bs" for n
    by (induction n) (simp_all add: be_value_def)
  moreover have "read_u32_be (replicate (4 - length bs) 0 @ bs) = of_nat (be_value (replicate (4 - length bs) 0 @ bs))"
    using False by (intro read_u32_be_value) simp
  ultimately show ?thesis using False by (simp add: bytes_last_u32_be_def Let_def)
qed

text \<open>The allocation-free reader of the last word agrees with the full conversion on every byte string.\<close>

lemma last_word_shortcut:
  "bytes_last_u32_be bs = (if bs = [] then 0 else last (bytes_to_u32s_be bs))"
  by (simp add: bytes_last_u32_be_value last_word)

subsection \<open>Nibbles and hexadecimal digits\<close>

definition hex_char :: "nat \<Rightarrow> char" where
  "hex_char v = char_of (if v < 10 then 48 + v else 87 + v)"

lemma binary_append [simp]: "binary (xs @ ys) \<longleftrightarrow> binary xs \<and> binary ys"
  by (simp add: binary_def)

lemma binary_zeros [simp]: "binary (replicate n CHR ''0'')"
  by (simp add: binary_def list_all_iff)

lemma binary_parts: "binary s \<Longrightarrow> binary (take n s) \<and> binary (drop n s)"
  by (auto simp: binary_def list_all_iff dest: in_set_takeD in_set_dropD)

lemma binary_char: "binary s \<Longrightarrow> c \<in> set s \<Longrightarrow> c = CHR ''0'' \<or> c = CHR ''1''"
  by (simp add: binary_def list_all_iff)

lemma nibble_of_binary: "binary s \<Longrightarrow> nibble_of s = of_nat (bits_value s)"
proof (induction s rule: rev_induct)
  case Nil
  show ?case by (simp add: nibble_of_def)
next
  case (snoc c s)
  let ?n = "nibble_of s"
  have "push_bit 1 ?n AND 1 = 0"
    unfolding and_one_eq even_iff_mod_2_eq_zero [symmetric] by (simp add: push_bit_eq_mult)
  then have one: "push_bit 1 ?n OR 1 = push_bit 1 ?n + 1" by (simp add: disjunctive_add_eq_or)
  have step: "nibble_of (s @ [c]) = push_bit 1 ?n OR (byte_of c - byte_of CHR ''0'')"
    by (simp add: nibble_of_def)
  have bv: "bits_value (s @ [c]) = bits_value s * 2 + bit_of c" by (simp add: bits_value_def)
  from snoc.prems have "c = CHR ''0'' \<or> c = CHR ''1''" and IH: "?n = of_nat (bits_value s)"
    using snoc.IH by (simp_all add: binary_def)
  then show ?case
    using one unfolding step bv by (auto simp: byte_of_def bit_of_def push_bit_eq_mult)
qed

lemma hex_digit_value: "v < 16 \<Longrightarrow> unat (hex_digit (of_nat v)) = (if v < 10 then 48 + v else 87 + v)"
proof -
  assume v: "v < 16"
  have un: "unat (of_nat v :: u8) = v" using v by (simp add: unat_of_nat_u8)
  then have lt: "(of_nat v :: u8) < 10 \<longleftrightarrow> v < 10" by (simp add: word_less_nat_alt)
  have "hex_digit (of_nat v) = of_nat (if v < 10 then 48 + v else 87 + v)"
    by (simp add: hex_digit_def lt byte_of_def)
  then show ?thesis using v by (simp add: unat_of_nat_u8)
qed

lemma hex_chunk_binary:
  assumes "binary s" "length s \<le> 4"
  shows "char_byte (hex_digit (nibble_of s)) = hex_char (bits_value s)"
    and "hex_char_xz s = [hex_char (bits_value s)]"
proof -
  have "(2::nat) ^ length s \<le> 2 ^ 4" using assms by (intro power_increasing) simp_all
  then have v: "bits_value s < 16" using bits_value_bound [of s] by simp
  note d = hex_digit_value [OF v, folded nibble_of_binary [OF assms(1)]]
  show c: "char_byte (hex_digit (nibble_of s)) = hex_char (bits_value s)"
    unfolding char_byte_def hex_char_def d by (rule refl)
  have "CHR ''x'' \<notin> set s" "CHR ''z'' \<notin> set s"
    using binary_char [OF assms(1), of "CHR ''x''"] binary_char [OF assms(1), of "CHR ''z''"] by force+
  moreover have "unat (hex_digit (nibble_of s)) < 128" unfolding d using v by simp
  ultimately show "hex_char_xz s = [hex_char (bits_value s)]"
    by (simp add: hex_char_xz_def push_char_def c)
qed

lemma hex_value_hex_char: "v < 16 \<Longrightarrow> hex_value (hex_char v) = Some v"
  by (simp add: hex_value_def hex_char_def Let_def)

text \<open>A string of hexadecimal digits, as the two loops produce it from a binary string.\<close>

definition hex_of :: "string \<Rightarrow> string \<Rightarrow> bool" where
  "hex_of h s \<longleftrightarrow> digits_value h = bits_value s \<and> list_all (\<lambda>c. hex_value c \<noteq> None) h"

lemma hex_of_append:
  "hex_of h s \<Longrightarrow> hex_of h' s' \<Longrightarrow> 4 * length h' = length s' \<Longrightarrow> hex_of (h @ h') (s @ s')"
proof -
  assume a: "hex_of h s" "hex_of h' s'" and l: "4 * length h' = length s'"
  have "(16::nat) ^ length h' = (2 ^ 4) ^ length h'" by simp
  also have "\<dots> = 2 ^ length s'" unfolding power_mult [symmetric] l by (rule refl)
  finally show ?thesis using a by (simp add: hex_of_def digits_value_append bits_value_append)
qed

lemma hex_of_chunk:
  "binary s \<Longrightarrow> length s \<le> 4 \<Longrightarrow> hex_of [hex_char (bits_value s)] s"
proof -
  assume "binary s" "length s \<le> 4"
  then have "(2::nat) ^ length s \<le> 2 ^ 4" by (intro power_increasing) simp_all
  then have "bits_value s < 16" using bits_value_bound [of s] by simp
  then show ?thesis by (simp add: hex_of_def digits_value_def hex_value_hex_char)
qed

lemma hex_loop_aligned:
  "length s mod 4 = 0 \<Longrightarrow> binary s \<Longrightarrow>
   hex_loop s = concat (map hex_char_xz (chunks4 s)) \<and> hex_of (hex_loop s) s \<and> 4 * length (hex_loop s) = length s"
proof (induction s rule: chunks4.induct)
  case (1 a b c d r)
  let ?k = "[a, b, c, d]"
  from 1 have r: "length r mod 4 = 0" "binary r" and k: "binary ?k" by (simp_all add: binary_def)
  note IH = 1(1) [OF r]
  then have hr: "hex_of (hex_loop r) r" "4 * length (hex_loop r) = length r" by blast+
  from IH have e: "concat (map hex_char_xz (chunks4 r)) = hex_loop r" by simp
  have k4: "length ?k \<le> 4" by simp
  have "hex_loop (?k @ r) = hex_char (bits_value ?k) # hex_loop r"
    using hex_chunk_binary(1) [OF k] by (subst hex_loop.simps) simp
  moreover have "hex_of ([hex_char (bits_value ?k)] @ hex_loop r) (?k @ r)"
    by (intro hex_of_append hex_of_chunk k k4 hr)
  ultimately show ?case using hr hex_chunk_binary(2) [OF k] by (simp add: e)
next
  case 2
  show ?case by (simp add: hex_loop.simps [of "[]"] hex_of_def)
qed simp_all

lemma chunks4_Cons4: "length k = 4 \<Longrightarrow> chunks4 (k @ r) = k # chunks4 r"
  by (auto simp: numeral_eq_Suc length_Suc_conv)

lemma fast_hex_spec:
  assumes "binary s" "s \<noteq> []"
  shows "fast_hex s = bit_string_to_hex_with_xz s \<and> hex_of (fast_hex s) s
    \<and> length (fast_hex s) = (length s + 3) div 4"
proof (cases "length s mod 4 = 0")
  case True
  then obtain k where k: "length s = 4 * k" by (auto simp: mod_eq_0_iff_dvd)
  have "fast_hex s = hex_loop s" "bit_string_to_hex_with_xz s = concat (map hex_char_xz (chunks4 s))"
    using True assms(2) by (simp_all add: fast_hex_def bit_string_to_hex_with_xz_def)
  moreover have "(length s + 3) div 4 = k" using k by simp
  ultimately show ?thesis using hex_loop_aligned [OF True assms(1)] k by auto
next
  case False
  define p where "p = 4 - length s mod 4"
  let ?f = "take (4 - p) s" and ?r = "drop (4 - p) s"
  have p: "4 - p = length s mod 4" "0 < p" "p < 4" "4 - p \<le> length s" using False unfolding p_def by auto
  have r: "length ?r mod 4 = 0" "binary ?r" and f: "binary ?f" "length ?f \<le> 4"
    using binary_parts [OF assms(1)] p by (simp_all add: minus_mod_eq_mult_div)
  let ?pf = "replicate p CHR ''0'' @ ?f"
  have pf: "binary ?pf" "length ?pf \<le> 4" "length ?pf = 4" using f p by simp_all
  note h = hex_loop_aligned [OF r]
  have fast: "fast_hex s = [hex_char (bits_value ?f)] @ hex_loop ?r"
    using False p hex_chunk_binary(1) [OF f] by (simp add: fast_hex_def pad4 p_def)
  have "replicate p CHR ''0'' @ s = ?pf @ ?r" by simp
  then have slow: "bit_string_to_hex_with_xz s = hex_char_xz ?pf @ concat (map hex_char_xz (chunks4 ?r))"
    using False assms(2) p chunks4_Cons4 [OF pf(3), of ?r]
    unfolding bit_string_to_hex_with_xz_def Let_def pad4 p_def [symmetric] by simp
  have "fast_hex s = bit_string_to_hex_with_xz s"
    using h hex_chunk_binary(2) [OF pf(1,2)] unfolding fast slow bits_value_zeros by simp
  moreover have "hex_of ([hex_char (bits_value ?f)] @ hex_loop ?r) (?f @ ?r)"
    using h by (intro hex_of_append hex_of_chunk f) blast+
  then have "hex_of (fast_hex s) s" unfolding fast append_take_drop_id .
  moreover have "length (fast_hex s) = (length s + 3) div 4"
  proof -
    have "4 * length (hex_loop ?r) = length ?r" using h by blast
    then have "length (hex_loop ?r) = length s div 4" using p by (simp add: minus_mod_eq_mult_div)
    then show ?thesis using div4_up [OF False] by (simp add: fast)
  qed
  ultimately show ?thesis by blast
qed

subsection \<open>Hexadecimal parsing\<close>

lemma hex_digits_value:
  "list_all (\<lambda>c. hex_value c \<noteq> None) h \<Longrightarrow>
   hex_digits h acc = (let v = acc * 16 ^ length h + digits_value h
     in if h \<noteq> [] \<and> 2 ^ 128 \<le> v then None else Some v)"
proof (induction h arbitrary: acc)
  case Nil
  show ?case by simp
next
  case (Cons c cs)
  then obtain d where d: "hex_value c = Some d" and cs: "list_all (\<lambda>c. hex_value c \<noteq> None) cs" by auto
  let ?v = "acc * 16 ^ length (c # cs) + digits_value (c # cs)"
  have "digits_value (c # cs) = d * 16 ^ length cs + digits_value cs"
    using digits_value_append [of "[c]" cs] d by (simp add: digits_value_def)
  then have v: "?v = (acc * 16 + d) * 16 ^ length cs + digits_value cs" by (simp add: algebra_simps)
  have "acc * 16 + d \<le> (acc * 16 + d) * 16 ^ length cs" by simp
  then have le: "acc * 16 + d \<le> ?v" unfolding v by linarith
  have nil: "cs = [] \<Longrightarrow> ?v = acc * 16 + d" unfolding v by simp
  show ?case
  proof (cases "acc * 16 + d < 2 ^ 128")
    case True
    then have "hex_digits (c # cs) acc = hex_digits cs (acc * 16 + d)" by (simp add: d)
    also have "\<dots> = (if cs \<noteq> [] \<and> 2 ^ 128 \<le> ?v then None else Some ?v)"
      using Cons.IH [OF cs] unfolding v Let_def by simp
    finally show ?thesis using True nil unfolding Let_def by (cases "cs = []") auto
  next
    case False
    then have "hex_digits (c # cs) acc = None" and "2 ^ 128 \<le> ?v" using le by (simp_all add: d)
    then show ?thesis unfolding Let_def by simp
  qed
qed

lemma from_str_radix16_hex:
  assumes "hex_of h s" "h \<noteq> []"
  shows "from_str_radix16 h = (if bits_value s < 2 ^ 128 then Some (bits_value s) else None)"
proof -
  have a: "list_all (\<lambda>c. hex_value c \<noteq> None) h" and v: "digits_value h = bits_value s"
    using assms(1) by (simp_all add: hex_of_def)
  have "hd h \<noteq> CHR ''+''" using a assms(2) by (cases h) (auto simp: hex_value_def Let_def)
  then have "from_str_radix16 h = hex_digits h 0" using assms(2) by (simp add: from_str_radix16_def)
  then show ?thesis using hex_digits_value [OF a, of 0] assms(2) unfolding v Let_def by auto
qed

subsection \<open>One sample in every format\<close>

text \<open>
  What \<open>wellen\<close> documents of a two-state sample: as many \<open>0\<close>/\<open>1\<close> characters as bits, most
  significant first, and the same number in big-endian bytes.
\<close>

definition two_state_sample :: "signal_value \<Rightarrow> string \<Rightarrow> bool" where
  "two_state_sample v s \<longleftrightarrow> sv_bit_string v = Some s \<and> s \<noteq> [] \<and> binary s \<and>
     (case sv_bits v of None \<Rightarrow> False
      | Some bv \<Rightarrow> bv_states bv = Two \<and> bv_width bv = length s \<and>
          (case bv_be_bytes bv of None \<Rightarrow> False
           | Some data \<Rightarrow> length data = (length s + 7) div 8 \<and> be_value data = bits_value s))"

lemma words_cover: "(n + 7) div 8 = m \<Longrightarrow> (m + 3) div 4 = cover_with_32 n" for n m :: nat
  unfolding cover_with_32_def by auto

lemma two_state_vector:
  assumes "length data = (n + 7) div 8" "be_value data = v"
  shows "two_state_value data bits vpiVectorVal = Inr (Vector (rev (map (\<lambda>w. vecval w 0) (bytes_to_u32s_be data))))"
    and "words_value (rev (map (\<lambda>w. vecval w 0) (bytes_to_u32s_be data))) = v"
    and "length (bytes_to_u32s_be data) = cover_with_32 n"
  using bytes_to_u32s_be_value [of data] words_cover [OF assms(1) [symmetric]] assms(2)
  by (simp_all add: two_state_value_def Let_def vector_rev words_value_rev)

lemma two_state_last:
  assumes "length data = (n + 7) div 8" "be_value data = v" "0 < n"
  shows "bytes_to_u32s_be data \<noteq> []"
    and "bytes_to_u32s_be data ! (length (bytes_to_u32s_be data) - 1) = of_nat v"
proof -
  have "data \<noteq> []" using assms(1,3) by auto
  then have "0 < (length data + 3) div 4" by (cases data) simp_all
  then show ne: "bytes_to_u32s_be data \<noteq> []" using bytes_to_u32s_be_value [of data] by auto
  show "bytes_to_u32s_be data ! (length (bytes_to_u32s_be data) - 1) = of_nat v"
    using last_word [OF \<open>data \<noteq> []\<close>] last_conv_nth [OF ne] assms(2) by simp
qed

text \<open>C27. All formats of a two-state sample denote the number of its bit string: the vector with one
  word per 32 bits and no unknown bit, the integers its low 32 bits, the hexadecimal string with one
  digit per nibble, and the binary string is the bits themselves. The decimal string is that of the
  low 32 bits only.\<close>

theorem two_state_formats_agree:
  assumes "get_offset sig (ucast i) = Some off" and "two_state_sample (get_value_at sig off) s"
  shows "\<exists>ws h. signal_value_at sig i vpiVectorVal = Inr (Vector ws) \<and> words_value ws = bits_value s
      \<and> no_x ws \<and> length ws = cover_with_32 (length s)
    \<and> signal_value_at sig i vpiIntVal = Inr (Integer (of_nat (bits_value s)))
    \<and> signal_int_value sig i = Inr (of_nat (bits_value s))
    \<and> signal_value_at sig i vpiHexStrVal = Inr (Str h) \<and> hex_of h s \<and> length h = (length s + 3) div 4
    \<and> signal_value_at sig i vpiBinStrVal = Inr (Str s) \<and> signal_value_str sig i = Inr s
    \<and> signal_value_at sig i vpiDecStrVal = Inr (Str (dec_string (bits_value s mod 2 ^ 32)))"
proof -
  let ?v = "get_value_at sig off"
  from assms(2) obtain bv data where bv: "sv_bits ?v = Some bv" "bv_states bv = Two"
      "bv_be_bytes bv = Some data" and len: "length data = (length s + 7) div 8" "be_value data = bits_value s"
    and s: "sv_bit_string ?v = Some s" "s \<noteq> []" "binary s"
    by (auto simp: two_state_sample_def split: option.splits)
  have at: "signal_value_at sig i fmt = two_state_value data (Some s) fmt" for fmt
    using assms(1) bv s by (simp add: signal_value_at_def Let_def)
  note vec = two_state_vector(1) [OF len, of "Some s"] two_state_vector(2,3) [OF len]
  note lst = two_state_last [OF len] and hex = fast_hex_spec [OF s(3,2), THEN conjunct2]
  let ?ws = "rev (map (\<lambda>w. vecval w 0) (bytes_to_u32s_be data))"
  have "no_x ?ws" by (simp add: no_x_def list_all_iff)
  moreover have "unat (of_nat (bits_value s) :: u32) = bits_value s mod 2 ^ 32"
    by (simp add: unat_of_nat take_bit_eq_mod)
  moreover have "signal_int_value sig i = Inr (of_nat (bits_value s))"
    using assms(1) bv len by (simp add: signal_int_value_def bytes_last_u32_be_value)
  moreover have "signal_value_str sig i = Inr s" using assms(1) s by (simp add: signal_value_str_def)
  ultimately show ?thesis
    using vec lst hex s(2) unfolding at by (intro exI [of _ ?ws] exI [of _ "fast_hex s"])
      (simp add: two_state_value_def Let_def)
qed

definition demo_sample :: signal_value where
  "demo_sample = \<lparr>sv_bits = Some \<lparr>bv_states = Two, bv_be_bytes = Some [1, 0, 0, 0, 5], bv_width = 33\<rparr>,
     sv_bit_string = Some (''1'' @ replicate 29 CHR ''0'' @ ''101''), sv_width = Some 33\<rparr>"

definition demo_signal :: loaded_signal where
  "demo_signal = \<lparr>get_offset = (\<lambda>i. if i = 0 then None else Some 0), get_value_at = (\<lambda>_. demo_sample),
     time_indices = [1], get_first_time_idx = Some 1\<rparr>"

lemma demo_bits: "bits_value (''1'' @ replicate 29 CHR ''0'' @ ''101'') = 4294967301"
  by (simp only: bits_value_append [of "''1''"] bits_value_zeros) (simp add: bits_value_def bit_of_def)

lemma demo_two_state: "two_state_sample demo_sample (''1'' @ replicate 29 CHR ''0'' @ ''101'')"
proof -
  have "binary (''1'' @ replicate 29 CHR ''0'' @ ''101'')"
    unfolding binary_append using binary_zeros [of 29] by (simp add: binary_def)
  then show ?thesis unfolding two_state_sample_def demo_bits by (simp add: demo_sample_def be_value_def)
qed

theorem two_state_formats_agree_witness:
  "signal_value_at demo_signal 1 vpiDecStrVal = Inr (Str ''5'')"
proof -
  have "get_offset demo_signal (ucast (1 :: u64)) = Some 0" by (simp add: demo_signal_def)
  moreover have "two_state_sample (get_value_at demo_signal 0) (''1'' @ replicate 29 CHR ''0'' @ ''101'')"
    using demo_two_state by (simp add: demo_signal_def)
  ultimately have "signal_value_at demo_signal 1 vpiDecStrVal
      = Inr (Str (dec_string (bits_value (''1'' @ replicate 29 CHR ''0'' @ ''101'') mod 2 ^ 32)))"
    using two_state_formats_agree by blast
  moreover have "char_of (53 :: nat) = CHR ''5''" by code_simp
  ultimately show ?thesis unfolding demo_bits by (simp add: dec_string.simps)
qed

subsection \<open>Samples with unknown bits\<close>

definition four_valued :: "string \<Rightarrow> bool" where
  "four_valued s = list_all (\<lambda>c. c \<in> {CHR ''0'', CHR ''1'', CHR ''x'', CHR ''z''}) s"

definition nibble_char :: "string \<Rightarrow> char" where
  "nibble_char chunk = (if CHR ''x'' \<in> set chunk then CHR ''x''
     else if CHR ''z'' \<in> set chunk then CHR ''z'' else hex_char (bits_value chunk))"

definition padded :: "string \<Rightarrow> string" where
  "padded s = replicate ((4 - length s mod 4) mod 4) CHR ''0'' @ s"

lemma four_valued_append: "four_valued (xs @ ys) \<longleftrightarrow> four_valued xs \<and> four_valued ys"
  by (simp add: four_valued_def)

lemma four_valued_zeros: "four_valued (replicate n CHR ''0'')"
  by (simp add: four_valued_def list_all_length)

lemma four_valued_binary: "four_valued s \<Longrightarrow> CHR ''x'' \<notin> set s \<Longrightarrow> CHR ''z'' \<notin> set s \<Longrightarrow> binary s"
  by (fastforce simp: four_valued_def binary_def list_all_iff)

lemma binary_no_xz: "binary s \<Longrightarrow> CHR ''x'' \<notin> set s \<and> CHR ''z'' \<notin> set s"
  using binary_char [of s "CHR ''x''"] binary_char [of s "CHR ''z''"] by force

lemma hex_char_xz_nibble:
  "four_valued k \<Longrightarrow> length k = 4 \<Longrightarrow> hex_char_xz k = [nibble_char k]"
proof -
  assume k: "four_valued k" "length k = 4"
  consider "CHR ''x'' \<in> set k" | "CHR ''x'' \<notin> set k" "CHR ''z'' \<in> set k"
    | "CHR ''x'' \<notin> set k" "CHR ''z'' \<notin> set k" by blast
  then show ?thesis
  proof cases
    case 3
    have "binary k" by (rule four_valued_binary [OF k(1) 3])
    moreover have "length k \<le> 4" using k(2) by simp
    ultimately have "hex_char_xz k = [hex_char (bits_value k)]" by (rule hex_chunk_binary(2))
    then show ?thesis unfolding nibble_char_def using 3 by simp
  qed (unfold nibble_char_def hex_char_xz_def, simp_all)
qed

lemma chunks4_parts:
  "length s mod 4 = 0 \<Longrightarrow> concat (chunks4 s) = s \<and> (\<forall>k \<in> set (chunks4 s). length k = 4)
     \<and> 4 * length (chunks4 s) = length s"
proof (induction s rule: chunks4.induct)
  case (1 a b c d r)
  from 1(2) have "length r mod 4 = 0" by simp
  from 1(1) [OF this] show ?case by simp
qed simp_all

lemma padded_length: "length (padded s) mod 4 = 0" "length (padded s) div 4 = (length s + 3) div 4"
proof -
  consider "length s mod 4 = 0" | "length s mod 4 \<noteq> 0" by blast
  then have "length (padded s) = 4 * ((length s + 3) div 4)"
  proof cases
    case 1
    then obtain k where "length s = 4 * k" by (auto simp: mod_eq_0_iff_dvd)
    then show ?thesis by (simp add: padded_def)
  next
    case 2
    have "length s = 4 * (length s div 4) + length s mod 4" "length s mod 4 < 4" by simp_all
    then have "4 - length s mod 4 + length s = 4 + 4 * (length s div 4)" by linarith
    then show ?thesis using 2 by (simp add: padded_def pad4 div4_up)
  qed
  then show "length (padded s) mod 4 = 0" "length (padded s) div 4 = (length s + 3) div 4" by simp_all
qed

lemma hex_of_four_valued:
  assumes "four_valued s" "s \<noteq> []"
  shows "bit_string_to_hex_with_xz s = map nibble_char (chunks4 (padded s))"
proof -
  note parts = chunks4_parts [OF padded_length(1) [of s]]
  have "four_valued (padded s)" using assms(1) unfolding padded_def four_valued_append
    using four_valued_zeros by blast
  then have "four_valued k" if "k \<in> set (chunks4 (padded s))" for k
  proof -
    from that have "set k \<subseteq> set (padded s)" using parts by (metis UN_upper set_concat)
    then show ?thesis using \<open>four_valued (padded s)\<close> by (auto simp: four_valued_def list_all_iff)
  qed
  then have "map hex_char_xz (chunks4 (padded s)) = map (\<lambda>k. [nibble_char k]) (chunks4 (padded s))"
    using parts by (intro map_cong refl hex_char_xz_nibble) auto
  then have "concat (map hex_char_xz (chunks4 (padded s))) = map nibble_char (chunks4 (padded s))"
    by (simp only: concat_map_singleton)
  then show ?thesis using assms(2)
    unfolding bit_string_to_hex_with_xz_def Let_def padded_def by simp
qed

lemma hex_char_neq_xz: "v < 16 \<Longrightarrow> hex_char v \<noteq> CHR ''x'' \<and> hex_char v \<noteq> CHR ''z''"
proof -
  assume "v < 16"
  then have "hex_value (hex_char v) = Some v" by (rule hex_value_hex_char)
  moreover have "hex_value CHR ''x'' = None" "hex_value CHR ''z'' = None" by (simp_all add: hex_value_def Let_def)
  ultimately show ?thesis by auto
qed

lemma nibble_char_x: "length k = 4 \<Longrightarrow> nibble_char k = CHR ''x'' \<longleftrightarrow> CHR ''x'' \<in> set k"
  and nibble_char_z: "length k = 4 \<Longrightarrow> nibble_char k = CHR ''z'' \<longleftrightarrow> CHR ''x'' \<notin> set k \<and> CHR ''z'' \<in> set k"
proof -
  assume "length k = 4"
  then have "bits_value k < 16" using bits_value_bound [of k] by simp
  note h = hex_char_neq_xz [OF this]
  then show "nibble_char k = CHR ''x'' \<longleftrightarrow> CHR ''x'' \<in> set k" unfolding nibble_char_def by auto
  show "nibble_char k = CHR ''z'' \<longleftrightarrow> CHR ''x'' \<notin> set k \<and> CHR ''z'' \<in> set k"
    using h unfolding nibble_char_def by auto
qed

lemma padded_set: "c \<noteq> CHR ''0'' \<Longrightarrow> c \<in> set (padded s) \<longleftrightarrow> c \<in> set s"
  unfolding padded_def by auto

lemma hex_has_xz:
  assumes "four_valued s" "s \<noteq> []"
  shows "(CHR ''x'' \<in> set (bit_string_to_hex_with_xz s) \<or> CHR ''z'' \<in> set (bit_string_to_hex_with_xz s))
    \<longleftrightarrow> \<not> binary s"
proof -
  let ?ks = "chunks4 (padded s)"
  note parts = chunks4_parts [OF padded_length(1) [of s]]
  have mem: "c \<in> set s \<longleftrightarrow> (\<exists>k \<in> set ?ks. c \<in> set k)" if "c \<noteq> CHR ''0''" for c
    using padded_set [OF that, of s] parts by (metis UN_iff set_concat)
  have len: "length k = 4" if "k \<in> set ?ks" for k using parts that by blast
  have im: "c \<in> nibble_char ` set ?ks \<longleftrightarrow> (\<exists>k \<in> set ?ks. nibble_char k = c)" for c by blast
  have x: "(\<exists>k \<in> set ?ks. nibble_char k = CHR ''x'') \<longleftrightarrow> (\<exists>k \<in> set ?ks. CHR ''x'' \<in> set k)"
    by (rule bex_cong) (simp_all add: nibble_char_x [OF len])
  have z: "(\<exists>k \<in> set ?ks. nibble_char k = CHR ''z'')
      \<longleftrightarrow> (\<exists>k \<in> set ?ks. CHR ''x'' \<notin> set k \<and> CHR ''z'' \<in> set k)"
    by (rule bex_cong) (simp_all add: nibble_char_z [OF len])
  have "(CHR ''x'' \<in> nibble_char ` set ?ks \<or> CHR ''z'' \<in> nibble_char ` set ?ks)
      \<longleftrightarrow> (\<exists>k \<in> set ?ks. CHR ''x'' \<in> set k \<or> CHR ''z'' \<in> set k)"
    unfolding im x z by blast
  also have "\<dots> \<longleftrightarrow> CHR ''x'' \<in> set s \<or> CHR ''z'' \<in> set s" 
    using mem [of "CHR ''x''"] mem [of "CHR ''z''"] by (simp add: bex_disj_distrib)
  also have "\<dots> \<longleftrightarrow> \<not> binary s" using four_valued_binary [OF assms(1)] binary_no_xz [of s] by blast
  finally show ?thesis unfolding hex_of_four_valued [OF assms] list.set_map .
qed

lemma four_state_dec_value:
  assumes "four_valued s" "s \<noteq> []"
  shows "four_state_dec (bit_string_to_hex_with_xz s)
    = (if binary s \<and> bits_value s < 2 ^ 128 then dec_string (bits_value s) else ''x'')"
proof (cases "binary s")
  case False
  then show ?thesis using hex_has_xz [OF assms] by (simp add: four_state_dec_def)
next
  case True
  have h: "hex_of (bit_string_to_hex_with_xz s) s" using fast_hex_spec [OF True assms(2)] by metis
  have "bit_string_to_hex_with_xz s \<noteq> []"
    using fast_hex_spec [OF True assms(2)] assms(2) by (cases s) auto
  note r = from_str_radix16_hex [OF h this]
  have "\<not> (CHR ''x'' \<in> set (bit_string_to_hex_with_xz s) \<or> CHR ''z'' \<in> set (bit_string_to_hex_with_xz s))"
    using hex_has_xz [OF assms] True by blast
  then show ?thesis using True unfolding four_state_dec_def r by simp
qed

definition multi_state_sample :: "signal_value \<Rightarrow> string \<Rightarrow> bool" where
  "multi_state_sample v s \<longleftrightarrow> sv_bit_string v = Some s \<and> s \<noteq> [] \<and> four_valued s \<and>
     (case sv_bits v of None \<Rightarrow> False | Some bv \<Rightarrow> bv_states bv \<noteq> Two \<and> bv_width bv = length s)"

text \<open>C28. A sample stored with four or nine states reads as zero in the numeric formats, with one zero
  word per 32 bits; the hexadecimal string has one digit per nibble, which is \<open>x\<close> when a bit of the
  nibble is \<open>x\<close>, else \<open>z\<close> when one is \<open>z\<close>; the decimal string is the number when all bits are known
  and it fits 128 bits, and \<open>x\<close> otherwise.\<close>

theorem multi_state_formats:
  assumes "get_offset sig (ucast i) = Some off" and "multi_state_sample (get_value_at sig off) s"
  shows "signal_value_at sig i vpiVectorVal = Inr (Vector (replicate (cover_with_32 (length s)) (vecval 0 0)))
    \<and> signal_value_at sig i vpiIntVal = Inr (Integer 0) \<and> signal_int_value sig i = Inr 0
    \<and> signal_value_at sig i vpiBinStrVal = Inr (Str s)
    \<and> signal_value_at sig i vpiHexStrVal = Inr (Str (map nibble_char (chunks4 (padded s))))
    \<and> length (chunks4 (padded s)) = (length s + 3) div 4
    \<and> signal_value_at sig i vpiDecStrVal
        = Inr (Str (if binary s \<and> bits_value s < 2 ^ 128 then dec_string (bits_value s) else ''x''))"
proof -
  let ?v = "get_value_at sig off"
  from assms(2) obtain bv where bv: "sv_bits ?v = Some bv" "bv_states bv \<noteq> Two" "bv_width bv = length s"
    and s: "sv_bit_string ?v = Some s" "s \<noteq> []" "four_valued s"
    by (auto simp: multi_state_sample_def split: option.splits)
  have at: "signal_value_at sig i fmt = multi_state_value (length s) (Some s) fmt" for fmt
    using assms(1) bv s by (simp add: signal_value_at_def Let_def)
  have "signal_int_value sig i = Inr 0" using assms(1) bv by (simp add: signal_int_value_def)
  moreover have "4 * length (chunks4 (padded s)) = length (padded s)"
    using chunks4_parts [OF padded_length(1) [of s]] by blast
  then have "length (chunks4 (padded s)) = (length s + 3) div 4"
    using padded_length(2) [of s] by linarith
  ultimately show ?thesis
    using hex_of_four_valued [OF s(3,2)] four_state_dec_value [OF s(3,2)] unfolding at
    by (simp add: multi_state_value_def)
qed

definition demo_xz_signal :: loaded_signal where
  "demo_xz_signal = \<lparr>get_offset = (\<lambda>i. Some 0),
     get_value_at = (\<lambda>_. \<lparr>sv_bits = Some \<lparr>bv_states = Four, bv_be_bytes = None, bv_width = 6\<rparr>,
        sv_bit_string = Some ''1z01x0'', sv_width = Some 6\<rparr>),
     time_indices = [0], get_first_time_idx = Some 0\<rparr>"

theorem multi_state_formats_witness:
  "signal_value_at demo_xz_signal 0 vpiHexStrVal = Inr (Str ''zx'')
   \<and> signal_value_at demo_xz_signal 0 vpiDecStrVal = Inr (Str ''x'')"
proof -
  have "multi_state_sample (get_value_at demo_xz_signal 0) ''1z01x0''"
    by (simp add: multi_state_sample_def demo_xz_signal_def four_valued_def)
  moreover have "get_offset demo_xz_signal (ucast (0 :: u64)) = Some 0" by (simp add: demo_xz_signal_def)
  ultimately have "signal_value_at demo_xz_signal 0 vpiHexStrVal
        = Inr (Str (map nibble_char (chunks4 (padded ''1z01x0''))))
      \<and> signal_value_at demo_xz_signal 0 vpiDecStrVal = Inr (Str (if binary ''1z01x0'' \<and> bits_value ''1z01x0'' < 2 ^ 128
          then dec_string (bits_value ''1z01x0'') else ''x''))"
    using multi_state_formats by blast
  moreover have "\<not> binary ''1z01x0''" by (simp add: binary_def)
  moreover have "padded ''1z01x0'' = ''001z01x0''" by code_simp
  moreover have "map nibble_char (chunks4 ''001z01x0'') = ''zx''" by code_simp
  ultimately show ?thesis by (simp only: if_False simp_thms)
qed

subsection \<open>The time table\<close>

lemma sorted_search:
  fixes xs :: "u64 list"
  assumes "sorted_wrt (<) xs" and k_def: "k = length (takeWhile (\<lambda>x. x < t) xs)"
  shows "k \<le> length xs" "j < k \<Longrightarrow> xs ! j < t" "k \<le> j \<Longrightarrow> j < length xs \<Longrightarrow> t \<le> xs ! j"
proof -
  show le: "k \<le> length xs" unfolding k_def by (rule length_takeWhile_le)
  show "xs ! j < t" if "j < k"
    using that nth_mem [of j "takeWhile (\<lambda>x. x < t) xs"] set_takeWhileD
    unfolding k_def by (metis takeWhile_nth)
  show "t \<le> xs ! j" if "k \<le> j" "j < length xs"
  proof -
    have "k < length xs" using that by simp
    then have "t \<le> xs ! k" using nth_length_takeWhile [of "\<lambda>x. x < t" xs] unfolding k_def
      by (simp add: linorder_not_less)
    moreover have "xs ! k \<le> xs ! j"
      using that assms(1) by (cases "k = j") (simp_all add: sorted_wrt_iff_nth_less order.strict_implies_order)
    ultimately show ?thesis by simp
  qed
qed

lemma sorted_nth_less: "sorted_wrt (<) xs \<Longrightarrow> i < length xs \<Longrightarrow> j < length xs \<Longrightarrow> xs ! i < xs ! j \<longleftrightarrow> i < j"
  for xs :: "'a::linorder list"
  by (metis linorder_neq_iff not_less_iff_gr_or_eq sorted_wrt_iff_nth_less)

lemma not_after_below_search:
  fixes tt :: "u64 list"
  assumes "sorted_wrt (<) tt" "k = length (takeWhile (\<lambda>x. x < t) tt)" "\<not> (k < length tt \<and> tt ! k = t)"
    and j: "j < length tt" "tt ! j \<le> t"
  shows "j < k"
proof (rule ccontr)
  assume "\<not> j < k"
  then have kj: "k \<le> j" by simp
  then have "t \<le> tt ! j" "t \<le> tt ! k" using sorted_search(3) [OF assms(1,2)] j(1) by simp_all
  then have "tt ! j = t" using j(2) by simp
  then have "k \<noteq> j" using assms(3) j(1) by auto
  then have "tt ! k < tt ! j" using kj j(1) assms(1) by (simp add: sorted_wrt_iff_nth_less)
  then show False using \<open>t \<le> tt ! k\<close> \<open>tt ! j = t\<close> by simp
qed

text \<open>C29. \<open>find_nearest_time_index\<close> on a time table (strictly increasing) is the last index whose time is
  not after the given one, and 0 when the given time is before the whole table.\<close>

theorem nearest_time_index:
  assumes "sorted_wrt (<) tt" "tt \<noteq> []"
  shows "find_nearest_time_index tt t < length tt
    \<and> (tt ! 0 \<le> t \<longrightarrow> tt ! find_nearest_time_index tt t \<le> t)
    \<and> (\<forall>j < length tt. tt ! j \<le> t \<longrightarrow> j \<le> find_nearest_time_index tt t)
    \<and> (t < tt ! 0 \<longrightarrow> find_nearest_time_index tt t = 0)"
proof -
  define k where "k = length (takeWhile (\<lambda>x. x < t) tt)"
  note k = sorted_search [OF assms(1) k_def]
  have ne: "0 < length tt" using assms(2) by simp
  show ?thesis
  proof (cases "k < length tt \<and> tt ! k = t")
    case True
    then have f: "find_nearest_time_index tt t = k"
      by (simp add: find_nearest_time_index_def binary_search_def Let_def k_def)
    have "j \<le> k" if "j < length tt" "tt ! j \<le> t" for j
      using sorted_nth_less [OF assms(1) _ that(1), of k] True that(2) by (metis leI not_less)
    moreover have "\<not> t < tt ! 0 \<or> k = 0"
      using sorted_nth_less [OF assms(1) ne, of k] True by (metis not_gr_zero not_less_iff_gr_or_eq)
    ultimately show ?thesis unfolding f using True by auto
  next
    case False
    have f: "find_nearest_time_index tt t = min (k - 1) (length tt - 1)"
      using False unfolding find_nearest_time_index_def binary_search_def Let_def k_def [symmetric] by auto
    then have f': "find_nearest_time_index tt t = k - 1" using k(1) by simp
    have le: "tt ! (k - 1) \<le> t" if "tt ! 0 \<le> t"
    proof (cases k)
      case 0
      then show ?thesis using that by simp
    next
      case (Suc m)
      then show ?thesis using k(2) [of m] by simp
    qed
    have last: "j \<le> k - 1" if "j < length tt" "tt ! j \<le> t" for j
      using not_after_below_search [OF assms(1) k_def False that] by simp
    have early: "k - 1 = 0" if "t < tt ! 0"
      using k(2) [of 0] that by (cases k) simp_all
    have "k - 1 < length tt" using k(1) ne by linarith
    then show ?thesis unfolding f' by (intro conjI allI impI le last early)
  qed
qed

theorem nearest_time_index_witness: "find_nearest_time_index [0, 10, 25] 24 = 1"
proof -
  have "(10::u64) \<le> 24" "\<not> (25::u64) \<le> 24" by simp_all
  with nearest_time_index [of "[0, 10, 25]" 24] show ?thesis
    by (simp add: find_nearest_time_index_def binary_search_def)
qed

lemma nearest_of_member:
  assumes "sorted_wrt (<) tt" "i < length tt"
  shows "find_nearest_time_index tt (tt ! i) = i"
proof -
  define k where "k = length (takeWhile (\<lambda>x. x < tt ! i) tt)"
  note k = sorted_search [OF assms(1) k_def]
  have "k = i"
  proof (rule linorder_cases [of k i])
    assume "k < i"
    then have "tt ! i \<le> tt ! k" "tt ! k < tt ! i"
      using k(3) [of k] assms by (simp_all add: sorted_wrt_iff_nth_less)
    then show ?thesis by simp
  next
    assume "i < k"
    then show ?thesis using k(2) [of i] by simp
  qed simp
  then show ?thesis using assms(2)
    unfolding find_nearest_time_index_def binary_search_def Let_def k_def [symmetric] by simp
qed

text \<open>Index and time convert back and forth: every index below the table's length is recovered from
  its time, and the largest such index is the one \<open>wellen_get_max_index\<close> reports.\<close>

theorem time_index_roundtrip:
  assumes "sorted_wrt (<) tt" "length tt < 2 ^ 64" "unat i < length tt"
  shows "\<exists>t. wellen_get_time_from_index tt i = Inr t \<and> wellen_get_index_from_time tt t = i
    \<and> i \<le> wellen_get_max_index tt \<and> ok (wellen_get_time_from_index tt (wellen_get_max_index tt))"
proof -
  have u: "unat (wellen_get_max_index tt) = length tt - 1"
    using assms(2) by (simp add: wellen_get_max_index_def unat_of_nat take_bit_eq_mod)
  have "i \<le> wellen_get_max_index tt" unfolding word_le_nat_alt u using assms(3) by simp
  moreover have "ok (wellen_get_time_from_index tt (wellen_get_max_index tt))"
    unfolding wellen_get_time_from_index_def u using assms(3) by simp
  ultimately show ?thesis using nearest_of_member [OF assms(1,3)] assms(3)
    by (simp add: wellen_get_time_from_index_def wellen_get_index_from_time_def)
qed

theorem time_index_roundtrip_witness:
  "\<exists>t. wellen_get_time_from_index [0, 10, 25] 2 = Inr t \<and> wellen_get_index_from_time [0, 10, 25] t = 2"
  using time_index_roundtrip [of "[0, 10, 25]" 2] by auto

end
