(* ===== verification/WaveSpec.thy ===== *)
theory WaveSpec
  imports WaveBackend WaveValueSpec
begin

text \<open>
  Properties of the waveform backend's state: the pointer registries describe exactly the live boxes,
  lookups do not depend on what is cached, iterators deliver their items once, and what a cache file
  holds after a restart.
\<close>

declare map_of_eq_Some_iff [simp del] Some_eq_map_of_iff [simp del]

subsection \<open>Allocation\<close>

abbreviation box_at :: "wave_state \<Rightarrow> ptr \<rightharpoonup> box" where
  "box_at st \<equiv> map_of (boxes st)"

lemma box_new_fresh:
  assumes "alloc_ok alloc" "box_new alloc b st = (p, st')"
  shows "p \<noteq> 0" "box_at st p = None" "p \<notin> fst ` set (boxes st)" "st' = st\<lparr>boxes := (p, b) # boxes st\<rparr>"
proof -
  have p: "p = alloc (map fst (boxes st))" and st': "st' = st\<lparr>boxes := (p, b) # boxes st\<rparr>"
    using assms(2) by (auto simp: box_new_def Let_def)
  have "p \<notin> set (map fst (boxes st))" "p \<noteq> 0" using assms(1) unfolding p alloc_ok_def by blast+
  then show "p \<noteq> 0" "box_at st p = None" "p \<notin> fst ` set (boxes st)" "st' = st\<lparr>boxes := (p, b) # boxes st\<rparr>"
    using st' by (simp_all add: map_of_eq_None_iff)
qed

subsection \<open>The invariant of the registries\<close>

text \<open>
  Each registry against the map \<open>B\<close> of live boxes: the module handles \<open>C\<close> and their reverse map \<open>P\<close>, the
  iterator set, and the signals behind handles and cached names.
\<close>

type_synonym box_map = "ptr \<rightharpoonup> box"

definition module_reg :: "(scope_ref \<rightharpoonup> ptr) \<Rightarrow> (ptr \<rightharpoonup> scope_ref) \<Rightarrow> (scope_ref \<Rightarrow> string) \<Rightarrow> box_map \<Rightarrow> bool" where
  "module_reg C P name B \<longleftrightarrow> (\<forall>s p. C s = Some p \<longleftrightarrow> P p = Some s)
     \<and> (\<forall>p s. P p = Some s \<longrightarrow> B p = Some (ModuleBox (name s)))
     \<and> (\<forall>p n. B p = Some (ModuleBox n) \<longrightarrow> P p \<noteq> None)"

definition items_live :: "box_map \<Rightarrow> iterator_item list \<Rightarrow> bool" where
  "items_live B xs \<longleftrightarrow> (\<forall>h. SignalItem h \<in> set xs \<longrightarrow> (\<exists>i. B h = Some (SignalBox i)))"

definition iterator_reg :: "ptr list \<Rightarrow> box_map \<Rightarrow> bool" where
  "iterator_reg its B \<longleftrightarrow> distinct its
     \<and> (\<forall>p. p \<in> set its \<longleftrightarrow> (\<exists>xs i. B p = Some (IteratorBox xs i)))
     \<and> (\<forall>p xs i. B p = Some (IteratorBox xs i) \<longrightarrow> items_live B xs)"

definition signal_reg :: "(string \<rightharpoonup> sig_ref) \<Rightarrow> (sig_ref \<rightharpoonup> signal_info) \<Rightarrow> box_map \<Rightarrow> bool" where
  "signal_reg R S B \<longleftrightarrow> (\<forall>p i. B p = Some (SignalBox i) \<longrightarrow> S i \<noteq> None) \<and> (\<forall>n i. R n = Some i \<longrightarrow> S i \<noteq> None)"

definition wave_inv :: "wave_state \<Rightarrow> bool" where
  "wave_inv st \<longleftrightarrow> initialized st \<and> distinct (map fst (boxes st)) \<and> box_at st 0 = None
     \<and> distinct (map fst (module_handle_cache st))
     \<and> module_reg (map_of (module_handle_cache st)) (module_handle_ptr_map st) (scope_name (hierarchy st)) (box_at st)
     \<and> iterator_reg (iterator_handle_ptr_set st) (box_at st)
     \<and> signal_reg (map_of (signal_ref_cache st)) (signal_cache st) (box_at st)"

lemma wave_inv_initialized: "wave_inv st \<Longrightarrow> initialized st"
  by (simp add: wave_inv_def)

lemma module_reg_new:
  "module_reg C P name B \<Longrightarrow> B p = None \<Longrightarrow> (\<And>n. b \<noteq> ModuleBox n) \<Longrightarrow> module_reg C P name (B(p \<mapsto> b))"
proof -
  assume m: "module_reg C P name B" and p: "B p = None" and b: "\<And>n. b \<noteq> ModuleBox n"
  have "P p = None" using m p unfolding module_reg_def by (cases "P p") auto
  moreover have "(B(p \<mapsto> b)) q = Some (ModuleBox n) \<longleftrightarrow> B q = Some (ModuleBox n)" for q n using p b by auto
  moreover have "P q = Some s \<Longrightarrow> q \<noteq> p" for q s using \<open>P p = None\<close> by auto
  ultimately show ?thesis using m unfolding module_reg_def by simp
qed

lemma module_reg_cong:
  "(\<And>q n. B' q = Some (ModuleBox n) \<longleftrightarrow> B q = Some (ModuleBox n)) \<Longrightarrow> module_reg C P name B \<Longrightarrow> module_reg C P name B'"
  unfolding module_reg_def by simp

lemma module_reg_create:
  assumes "module_reg C P name B" "B p = None" "C s = None"
  shows "module_reg (C(s \<mapsto> p)) (P(p \<mapsto> s)) name (B(p \<mapsto> ModuleBox (name s)))"
proof -
  have C: "C t = Some q \<longleftrightarrow> P q = Some t" for t q using assms(1) unfolding module_reg_def by blast
  have B: "P q = Some t \<Longrightarrow> B q = Some (ModuleBox (name t))" for q t using assms(1) unfolding module_reg_def by blast
  have M: "B q = Some (ModuleBox n) \<Longrightarrow> P q \<noteq> None" for q n using assms(1) unfolding module_reg_def by blast
  have "P p = None" using B [of p] assms(2) by (cases "P p") auto
  moreover have "P q \<noteq> Some s" for q using C [of s q] assms(3) by simp
  moreover have "C t \<noteq> Some p" for t using C [of t p] \<open>P p = None\<close> by simp
  ultimately show ?thesis unfolding module_reg_def using B M by (auto simp: C)
qed

lemma items_live_new: "items_live B xs \<Longrightarrow> B p = None \<Longrightarrow> items_live (B(p \<mapsto> b)) xs"
  unfolding items_live_def by auto

lemma iterator_reg_new:
  "iterator_reg its B \<Longrightarrow> B p = None \<Longrightarrow> (\<And>xs i. b \<noteq> IteratorBox xs i) \<Longrightarrow> iterator_reg its (B(p \<mapsto> b))"
proof -
  assume r: "iterator_reg its B" and p: "B p = None" and b: "\<And>xs i. b \<noteq> IteratorBox xs i"
  have "(B(p \<mapsto> b)) q = Some (IteratorBox xs i) \<longleftrightarrow> B q = Some (IteratorBox xs i)" for q xs i using p b by auto
  then show ?thesis using r p unfolding iterator_reg_def by (simp add: items_live_new)
qed

lemma iterator_reg_create:
  "iterator_reg its B \<Longrightarrow> B p = None \<Longrightarrow> items_live B xs \<Longrightarrow>
   iterator_reg (List.insert p its) (B(p \<mapsto> IteratorBox xs i))"
proof -
  assume r: "iterator_reg its B" and p: "B p = None" and xs: "items_live B xs"
  let ?B = "B(p \<mapsto> IteratorBox xs i)"
  have "?B q = Some (IteratorBox ys j) \<longleftrightarrow> (if q = p then ys = xs \<and> j = i else B q = Some (IteratorBox ys j))" for q ys j
    by auto
  moreover have "p \<notin> set its" using r p unfolding iterator_reg_def by simp
  moreover have "items_live ?B ys" if "?B q = Some (IteratorBox ys j)" for q ys j
    using that r xs p unfolding iterator_reg_def by (intro items_live_new) (auto split: if_splits)
  ultimately show ?thesis using r unfolding iterator_reg_def by (simp del: fun_upd_apply) auto
qed

lemma signal_reg_new:
  "signal_reg R S B \<Longrightarrow> (\<And>i. b = SignalBox i \<Longrightarrow> S i \<noteq> None) \<Longrightarrow> signal_reg R S (B(p \<mapsto> b))"
  unfolding signal_reg_def by auto

lemma signal_box_inv:
  assumes "alloc_ok alloc" "box_new alloc (SignalBox i) st = (p, st')" "wave_inv st" "signal_cache st i \<noteq> None"
  shows "wave_inv st'"
proof -
  have "signal_reg (map_of (signal_ref_cache st)) (signal_cache st) ((box_at st)(p \<mapsto> SignalBox i))"
    using assms(3,4) unfolding wave_inv_def by (auto intro: signal_reg_new)
  then show ?thesis
    using box_new_fresh [OF assms(1,2)] assms(3) unfolding wave_inv_def
    by (simp add: module_reg_new iterator_reg_new)
qed

text \<open>Fields an update may touch without disturbing the registries.\<close>

lemma wave_inv_names: "wave_inv (st\<lparr>signal_name_cache := m\<rparr>) = wave_inv st"
  by (simp add: wave_inv_def)

lemma wave_inv_nulls:
  "wave_inv (st\<lparr>signal_ref_cache_null := n, has_newly_add_signal_ref := b\<rparr>) = wave_inv st"
  by (simp add: wave_inv_def)

lemma wave_inv_remember: "wave_inv st \<Longrightarrow> wave_inv (remember_signal name i info st)"
  by (simp add: wave_inv_def remember_signal_def hm_upd_lookup signal_reg_def)

subsection \<open>Every call keeps the invariant\<close>

text \<open>\<open>keeps\<close>: what a lookup leaves alone. Boxes are only added.\<close>

definition keeps :: "wave_state \<Rightarrow> wave_state \<Rightarrow> bool" where
  "keeps st st' \<longleftrightarrow> hierarchy st' = hierarchy st \<and> wave_source st' = wave_source st \<and> initialized st' = initialized st
     \<and> module_handle_cache st' = module_handle_cache st \<and> module_handle_ptr_map st' = module_handle_ptr_map st
     \<and> iterator_handle_ptr_set st' = iterator_handle_ptr_set st \<and> box_at st \<subseteq>\<^sub>m box_at st'"

lemma keeps_refl [simp]: "keeps st st"
  by (simp add: keeps_def)

lemma keeps_trans: "keeps a b \<Longrightarrow> keeps b c \<Longrightarrow> keeps a c"
  unfolding keeps_def using map_le_trans by force

lemma box_new_keeps:
  assumes "alloc_ok alloc" "box_new alloc b st = (p, st')"
  shows "keeps st st'"
  using box_new_fresh [OF assms] by (auto simp: keeps_def map_le_def)

lemma keeps_box: "keeps st st' \<Longrightarrow> box_at st p = Some b \<Longrightarrow> box_at st' p = Some b"
  unfolding keeps_def map_le_def by force

text \<open>The three ways a lookup ends: no handle, a cached signal, a newly loaded one.\<close>

lemma handle_by_name_cases:
  assumes "wellen_vpi_handle_by_name alloc name st = Inr (p, st')"
  obtains
    (missing) n nulls b where "p = 0" "name = Some n"
      "st' = st\<lparr>signal_ref_cache_null := nulls, has_newly_add_signal_ref := b\<rparr>"
      "map_of (signal_ref_cache st) n = None"
      "n \<in> set (signal_ref_cache_null st) \<and> nulls = signal_ref_cache_null st
       \<or> (\<exists>path leaf. rsplit_path n = Some (path, leaf) \<and> lookup_var (hierarchy st) path leaf = None)
         \<and> nulls = List.insert n (signal_ref_cache_null st)"
  | (cached) n i where "name = Some n" "map_of (signal_ref_cache st) n = Some i"
      "box_new alloc (SignalBox i) (st\<lparr>signal_name_cache := (signal_name_cache st)(i \<mapsto> n)\<rparr>) = (p, st')"
  | (loaded) n path leaf v source loaded where "name = Some n" "map_of (signal_ref_cache st) n = None"
      "n \<notin> set (signal_ref_cache_null st)"
      "rsplit_path n = Some (path, leaf)" "lookup_var (hierarchy st) path leaf = Some v"
      "wave_source st = Some source" "source (signal_ref v) = (signal_ref v, loaded)"
      "box_new alloc (SignalBox (signal_ref v)) (remember_signal n (signal_ref v)
         \<lparr>signal = loaded, var_type = var_type_of v\<rparr> st) = (p, st')"
proof -
  from assms obtain n where n: "name = Some n" "initialized st"
    by (auto simp: wellen_vpi_handle_by_name_def wave_getters split: option.splits if_splits)
  note step = assms [unfolded wellen_vpi_handle_by_name_def n(1), simplified, unfolded wave_getters, simplified n(2), simplified]
  show ?thesis
  proof (cases "map_of (signal_ref_cache st) n")
    case (Some i)
    then show ?thesis using step n by (intro cached [of n i]) (auto split: if_splits)
  next
    case None
    show ?thesis
    proof (cases "n \<in> set (signal_ref_cache_null st)")
      case True
      then show ?thesis
        using step None n by (intro missing [where n = n and nulls = "signal_ref_cache_null st" and b = "has_newly_add_signal_ref st"]) (auto split: if_splits)
    next
      case False
      then show ?thesis
        using step None n
        by (auto split: if_splits option.splits prod.splits simp: get_wave_source_def res_simps
            intro: missing loaded)
    qed
  qed
qed

lemma handle_by_name_inv:
  assumes "alloc_ok alloc" "wave_inv st" "wellen_vpi_handle_by_name alloc name st = Inr (p, st')"
  shows "wave_inv st' \<and> keeps st st' \<and> (p \<noteq> 0 \<longrightarrow> (\<exists>i. box_at st' p = Some (SignalBox i)))"
  using assms(3)
proof (cases rule: handle_by_name_cases)
  case (missing n nulls b)
  then show ?thesis using assms(2) by (simp add: wave_inv_nulls keeps_def)
next
  case (cached n i)
  let ?st = "st\<lparr>signal_name_cache := (signal_name_cache st)(i \<mapsto> n)\<rparr>"
  have "signal_cache st i \<noteq> None" using cached assms(2) by (auto simp: wave_inv_def signal_reg_def)
  then have "wave_inv st'" using signal_box_inv [OF assms(1) cached(3)] assms(2) by (simp add: wave_inv_names)
  moreover have "keeps ?st st'" by (rule box_new_keeps [OF assms(1) cached(3)])
  moreover have "keeps st ?st" by (simp add: keeps_def)
  moreover have "box_at st' p = Some (SignalBox i)" using box_new_fresh [OF assms(1) cached(3)] by simp
  ultimately show ?thesis using keeps_trans by blast
next
  case (loaded n path leaf v source sig)
  let ?st = "remember_signal n (signal_ref v) \<lparr>signal = sig, var_type = var_type_of v\<rparr> st"
  have "signal_cache ?st (signal_ref v) \<noteq> None" by (simp add: remember_signal_def)
  then have "wave_inv st'"
    by (rule signal_box_inv [OF assms(1) loaded(8) wave_inv_remember [OF assms(2)]])
  moreover have "keeps ?st st'" by (rule box_new_keeps [OF assms(1) loaded(8)])
  moreover have "keeps st ?st" by (simp add: keeps_def remember_signal_def)
  moreover have "box_at st' p = Some (SignalBox (signal_ref v))" using box_new_fresh [OF assms(1) loaded(8)] by simp
  ultimately show ?thesis using keeps_trans by blast
qed

lemma collect_signals_inv:
  assumes "alloc_ok alloc" "wave_inv st" "collect_signals alloc ty vs visited st = Inr (hs, st')"
  shows "wave_inv st' \<and> keeps st st' \<and> (\<forall>h \<in> set hs. \<exists>i. box_at st' h = Some (SignalBox i))"
  using assms(2,3)
proof (induction vs arbitrary: visited st hs)
  case Nil
  then show ?case by simp
next
  case (Cons v vs)
  show ?case
  proof (cases "map_var_type_to_vpi_iter_type (var_type_of v) \<noteq> ty \<or> signal_ref v \<in> set visited")
    case True
    then have "collect_signals alloc ty vs visited st = Inr (hs, st')" using Cons.prems(2) by (auto split: if_splits)
    with Cons.prems(1) show ?thesis by (rule Cons.IH)
  next
    case False
    with Cons.prems(2) obtain h st1 hs1 where
      h: "wellen_vpi_handle_by_name alloc (Some (var_full_name v)) st = Inr (h, st1)"
      and rest: "collect_signals alloc ty vs (signal_ref v # visited) st1 = Inr (hs1, st')"
      and hs: "hs = (if h = 0 then hs1 else h # hs1)"
      by (auto simp: res_simps split: if_splits)
    from handle_by_name_inv [OF assms(1) Cons.prems(1) h]
    have st1: "wave_inv st1" "keeps st st1" "h \<noteq> 0 \<longrightarrow> (\<exists>i. box_at st1 h = Some (SignalBox i))" by blast+
    from Cons.IH [OF st1(1) rest]
    have st': "wave_inv st'" "keeps st1 st'" "\<forall>h \<in> set hs1. \<exists>i. box_at st' h = Some (SignalBox i)" by blast+
    have "h \<noteq> 0 \<longrightarrow> (\<exists>i. box_at st' h = Some (SignalBox i))" using st1(3) keeps_box [OF st'(2)] by blast
    then show ?thesis using st' keeps_trans [OF st1(2) st'(2)] hs by simp
  qed
qed

lemma iterator_items_inv:
  assumes "alloc_ok alloc" "wave_inv st" "iterator_items alloc ty ref st = Inr (items, st')"
  shows "wave_inv st' \<and> keeps st st' \<and> items_live (box_at st') items"
proof -
  consider (modules) "ty = vpiModule" | (signals) "ty \<noteq> vpiModule" "ty \<in> {vpiNet, vpiReg, vpiMemory}"
    | (none) "ty \<noteq> vpiModule" "ty \<notin> {vpiNet, vpiReg, vpiMemory}" by blast
  then show ?thesis
  proof cases
    case modules
    then have "and_then (collect_module_scopes ty ref st) (\<lambda>scopes. Inr (map ModuleItem scopes, st)) = Inr (items, st')"
      using assms(3) unfolding iterator_items_def by simp
    then show ?thesis using assms(2) by (auto simp: and_then_eq_Inr items_live_def)
  next
    case signals
    then have "and_then (collect_signal_handles alloc ty ref st) (\<lambda>(hs, st). Inr (map SignalItem hs, st)) = Inr (items, st')"
      using assms(3) unfolding iterator_items_def by auto
    then obtain hs where hs: "collect_signal_handles alloc ty ref st = Inr (hs, st')" "items = map SignalItem hs"
      by (auto simp: and_then_eq_Inr)
    have "hs = [] \<and> st' = st \<or> (\<exists>vs. collect_signals alloc ty vs [] st = Inr (hs, st'))"
      using hs(1) unfolding collect_signal_handles_def wave_getters
      by (simp split: option.splits if_splits) blast
    then show ?thesis using collect_signals_inv [OF assms(1,2)] assms(2) hs(2) by (fastforce simp: items_live_def)
  next
    case none
    then have "Inr ([], st) = (Inr (items, st') :: (iterator_item list \<times> wave_state) res)"
      using assms(3) unfolding iterator_items_def by simp
    then show ?thesis using assms(2) by (simp add: items_live_def)
  qed
qed

lemma iterate_inv:
  assumes "alloc_ok alloc" "wave_inv st" "wellen_vpi_iterate alloc ty ref st = Inr (p, st')"
  shows "wave_inv st' \<and> (p \<noteq> 0 \<longrightarrow> (\<exists>items. items \<noteq> [] \<and> box_at st' p = Some (IteratorBox items 0)))"
proof -
  from assms(3) obtain items st1 where items: "iterator_items alloc ty ref st = Inr (items, st1)"
    and rest: "if items = [] then (p, st') = (0, st1)
      else \<exists>st2. box_new alloc (IteratorBox items 0) st1 = (p, st2) \<and> initialized st2
        \<and> st' = st2\<lparr>iterator_handle_ptr_set := List.insert p (iterator_handle_ptr_set st2)\<rparr>"
    by (auto simp: wellen_vpi_iterate_def res_simps wave_getters split: if_splits prod.splits)
  note inv = iterator_items_inv [OF assms(1,2) items]
  show ?thesis
  proof (cases "items = []")
    case True
    then show ?thesis using rest inv by simp
  next
    case False
    with rest obtain st2 where st2: "box_new alloc (IteratorBox items 0) st1 = (p, st2)"
      and st': "st' = st2\<lparr>iterator_handle_ptr_set := List.insert p (iterator_handle_ptr_set st2)\<rparr>" by auto
    note f = box_new_fresh [OF assms(1) st2]
    have "signal_reg (map_of (signal_ref_cache st1)) (signal_cache st1) ((box_at st1)(p \<mapsto> IteratorBox items 0))"
      using inv unfolding wave_inv_def by (auto intro: signal_reg_new)
    then have "wave_inv st'" using inv f unfolding wave_inv_def st'
      by (simp add: module_reg_new iterator_reg_create)
    then show ?thesis using f False st' by simp
  qed
qed

lemma module_handle_inv:
  assumes "alloc_ok alloc" "wave_inv st" "get_or_create_module_handle alloc scope st = Inr (p, st')"
  shows "wave_inv st' \<and> module_handle_ptr_map st' p = Some scope \<and> box_at st \<subseteq>\<^sub>m box_at st'
    \<and> module_handle_ptr_map st \<subseteq>\<^sub>m module_handle_ptr_map st'
    \<and> hierarchy st' = hierarchy st \<and> iterator_handle_ptr_set st' = iterator_handle_ptr_set st"
proof (cases "map_of (module_handle_cache st) scope")
  case (Some q)
  then show ?thesis using assms(2,3)
    by (auto simp: get_or_create_module_handle_def wave_getters wave_inv_def module_reg_def)
next
  case None
  with assms(2,3) obtain st1 where b: "box_new alloc (ModuleBox (scope_name (hierarchy st) scope)) st = (p, st1)"
    and st': "st' = st1\<lparr>module_handle_cache := hm_upd scope (\<lambda>_. p) (module_handle_cache st1),
       module_handle_ptr_map := (module_handle_ptr_map st1)(p \<mapsto> scope)\<rparr>"
    by (auto simp: get_or_create_module_handle_def wave_getters wave_inv_def split: if_splits prod.splits)
  note f = box_new_fresh [OF assms(1) b]
  have "signal_reg (map_of (signal_ref_cache st)) (signal_cache st)
      ((box_at st)(p \<mapsto> ModuleBox (scope_name (hierarchy st) scope)))"
    using assms(2) unfolding wave_inv_def by (auto intro: signal_reg_new)
  moreover have "module_reg ((map_of (module_handle_cache st))(scope \<mapsto> p)) ((module_handle_ptr_map st)(p \<mapsto> scope))
      (scope_name (hierarchy st)) ((box_at st)(p \<mapsto> ModuleBox (scope_name (hierarchy st) scope)))"
    using assms(2) f None unfolding wave_inv_def by (intro module_reg_create) simp_all
  ultimately have "wave_inv st'" using assms(2) f unfolding wave_inv_def st'
    by (simp add: hm_upd_lookup hm_upd_distinct iterator_reg_new)
  moreover have "module_handle_ptr_map st p = None"
    using f assms(2) unfolding wave_inv_def module_reg_def by (cases "module_handle_ptr_map st p") auto
  ultimately show ?thesis using f st' by (auto simp: map_le_def)
qed

text \<open>One \<open>scan\<close> of a live iterator: exhausted, it is freed; otherwise it advances.\<close>

definition advance :: "ptr \<Rightarrow> wave_state \<Rightarrow> iterator_item list \<Rightarrow> nat \<Rightarrow> wave_state" where
  "advance p st items index = set_box p (IteratorBox items (Suc index)) st"

definition scan_item :: "allocator \<Rightarrow> iterator_item \<Rightarrow> wave_state \<Rightarrow> (ptr \<times> wave_state) res" where
  "scan_item alloc item st =
     (case item of ModuleItem scope \<Rightarrow> get_or_create_module_handle alloc scope st | SignalItem h \<Rightarrow> Inr (h, st))"

definition release :: "ptr \<Rightarrow> wave_state \<Rightarrow> wave_state" where
  "release p st = st\<lparr>iterator_handle_ptr_set := remove1 p (iterator_handle_ptr_set st), boxes := hm_remove p (boxes st)\<rparr>"

lemma scan_live:
  assumes "wave_inv st" "box_at st p = Some (IteratorBox items index)"
  shows "wellen_vpi_scan alloc p st =
    (if index < length items then scan_item alloc (items ! index) (advance p st items index) else Inr (0, release p st))"
proof -
  have "p \<noteq> 0" using assms unfolding wave_inv_def by (cases "p = 0") simp_all
  moreover have "p \<in> set (iterator_handle_ptr_set st)" "initialized st"
    using assms unfolding wave_inv_def iterator_reg_def by blast+
  ultimately show ?thesis using assms(2)
    by (simp add: wellen_vpi_scan_def wave_getters iterator_of_handle_def box_free_def release_def
        scan_item_def advance_def Let_def)
qed

lemma scan_dead:
  assumes "wave_inv st" "\<nexists>items index. box_at st p = Some (IteratorBox items index)"
  shows "wellen_vpi_scan alloc p st = Inr (0, st)"
proof -
  have "p \<notin> set (iterator_handle_ptr_set st)" "initialized st"
    using assms by (auto simp: wave_inv_def iterator_reg_def)
  then show ?thesis by (simp add: wellen_vpi_scan_def wave_getters)
qed

lemma items_live_cong:
  "(\<And>h i. B h = Some (SignalBox i) \<Longrightarrow> \<exists>j. B' h = Some (SignalBox j)) \<Longrightarrow> items_live B xs \<Longrightarrow> items_live B' xs"
  unfolding items_live_def by blast

lemma advance_inv:
  assumes "wave_inv st" "box_at st p = Some (IteratorBox items index)"
  shows "wave_inv (advance p st items index)"
proof -
  let ?b = "IteratorBox items (Suc index)" let ?B = "(box_at st)(p \<mapsto> ?b)"
  have live: "items_live (box_at st) xs \<Longrightarrow> items_live ?B xs" for xs
    using assms(2) by (elim items_live_cong [rotated]) auto
  have "module_reg (map_of (module_handle_cache st)) (module_handle_ptr_map st) (scope_name (hierarchy st)) ?B"
    by (rule module_reg_cong [where B = "box_at st"]) (use assms in \<open>auto simp: wave_inv_def\<close>)
  moreover have "iterator_reg (iterator_handle_ptr_set st) ?B"
  proof -
    have it: "(\<exists>xs i. ?B q = Some (IteratorBox xs i)) \<longleftrightarrow> (\<exists>xs i. box_at st q = Some (IteratorBox xs i))" for q
      using assms(2) by auto
    have "\<exists>j. box_at st q = Some (IteratorBox xs j)" if "?B q = Some (IteratorBox xs i)" for q xs i
      using that assms(2) by (auto split: if_splits)
    then show ?thesis using assms(1) live unfolding wave_inv_def iterator_reg_def it by blast
  qed
  moreover have "signal_reg (map_of (signal_ref_cache st)) (signal_cache st) ?B"
    using assms(1) unfolding wave_inv_def by (auto intro: signal_reg_new)
  moreover have "p \<noteq> 0" using assms unfolding wave_inv_def by (cases "p = 0") simp_all
  ultimately show ?thesis using assms(1) unfolding wave_inv_def advance_def set_box_def
    by (simp add: hm_upd_lookup hm_upd_distinct)
qed

lemma iterator_release_inv:
  assumes "wave_inv st" "box_at st p = Some (IteratorBox items index)"
  shows "wave_inv (release p st)"
proof -
  let ?B = "(box_at st)(p := None)"
  have live: "items_live (box_at st) xs \<Longrightarrow> items_live ?B xs" for xs
    using assms(2) by (elim items_live_cong [rotated]) auto
  have "module_reg (map_of (module_handle_cache st)) (module_handle_ptr_map st) (scope_name (hierarchy st)) ?B"
    by (rule module_reg_cong [where B = "box_at st"]) (use assms in \<open>auto simp: wave_inv_def\<close>)
  moreover have "iterator_reg (remove1 p (iterator_handle_ptr_set st)) ?B"
  proof -
    have "distinct (iterator_handle_ptr_set st)" using assms(1) unfolding wave_inv_def iterator_reg_def by blast
    moreover have "?B q = Some (IteratorBox xs i) \<longleftrightarrow> q \<noteq> p \<and> box_at st q = Some (IteratorBox xs i)" for q xs i by auto
    ultimately show ?thesis using assms(1) live unfolding wave_inv_def iterator_reg_def
      by (simp del: fun_upd_apply) blast
  qed
  moreover have "signal_reg (map_of (signal_ref_cache st)) (signal_cache st) ?B"
    using assms(1) unfolding wave_inv_def signal_reg_def by auto
  ultimately show ?thesis using assms(1) unfolding wave_inv_def release_def
    by (simp add: hm_remove_lookup hm_remove_distinct)
qed

lemma scan_inv:
  assumes "alloc_ok alloc" "wave_inv st" "wellen_vpi_scan alloc p st = Inr (h, st')"
  shows "wave_inv st'"
proof (cases "\<exists>items index. box_at st p = Some (IteratorBox items index)")
  case False
  then show ?thesis using scan_dead [OF assms(2) False] assms by simp
next
  case True
  then obtain items index where b: "box_at st p = Some (IteratorBox items index)" by blast
  show ?thesis
  proof (cases "index < length items")
    case False
    then show ?thesis using scan_live [OF assms(2) b] assms(3) iterator_release_inv [OF assms(2) b] by simp
  next
    case True
    then have "scan_item alloc (items ! index) (advance p st items index) = Inr (h, st')"
      using scan_live [OF assms(2) b] assms(3) by simp
    then show ?thesis using module_handle_inv [OF assms(1) advance_inv [OF assms(2) b]] advance_inv [OF assms(2) b]
      by (auto simp: scan_item_def split: iterator_item.splits)
  qed
qed

text \<open>The exported calls that change the backend's state, in any order the C++ side makes them.\<close>

datatype wave_call = HandleByName c_str | Iterate nat ptr | Scan ptr

definition run_call :: "allocator \<Rightarrow> wave_call \<Rightarrow> wave_state \<Rightarrow> (ptr \<times> wave_state) res" where
  "run_call alloc c st =
     (case c of
        HandleByName name \<Rightarrow> wellen_vpi_handle_by_name alloc name st
      | Iterate ty ref \<Rightarrow> wellen_vpi_iterate alloc ty ref st
      | Scan p \<Rightarrow> wellen_vpi_scan alloc p st)"

definition run_calls :: "allocator \<Rightarrow> wave_call list \<Rightarrow> wave_state \<Rightarrow> wave_state res" where
  "run_calls alloc = fold_res (\<lambda>c st. and_then (run_call alloc c st) (\<lambda>(_, st). Inr st))"

lemma run_call_inv:
  assumes "alloc_ok alloc" "wave_inv st" "run_call alloc c st = Inr (h, st')"
  shows "wave_inv st'"
proof (cases c)
  case (HandleByName name)
  then show ?thesis using handle_by_name_inv [OF assms(1,2)] assms(3) by (simp add: run_call_def)
next
  case (Iterate ty ref)
  then show ?thesis using iterate_inv [OF assms(1,2)] assms(3) by (simp add: run_call_def)
next
  case (Scan p)
  then show ?thesis using scan_inv [OF assms(1,2)] assms(3) by (simp add: run_call_def)
qed

text \<open>C23. Whatever sequence of lookups, iterations and scans the simulator makes, the pointer registries
  describe exactly the live boxes: module handles and their reverse map are a bijection onto the live
  module boxes, the iterator set is the set of live iterators, and every signal handle's signal is
  loaded.\<close>

theorem wave_calls_keep_inv:
  assumes "alloc_ok alloc" "wave_inv st" "run_calls alloc cs st = Inr st'"
  shows "wave_inv st'"
proof (rule fold_res_invariant [of _ cs st st' wave_inv])
  show "fold_res (\<lambda>c st. and_then (run_call alloc c st) (\<lambda>(_, st). Inr st)) cs st = Inr st'"
    using assms(3) by (simp add: run_calls_def)
  show "wave_inv st" by (rule assms(2))
  fix c s t
  assume "wave_inv s" "and_then (run_call alloc c s) (\<lambda>(_, st). Inr st) = Inr t"
  then show "wave_inv t" using run_call_inv [OF assms(1)] by (auto simp: res_simps)
qed

subsection \<open>Iterators deliver their items once\<close>

fun scans :: "allocator \<Rightarrow> nat \<Rightarrow> ptr \<Rightarrow> wave_state \<Rightarrow> (ptr list \<times> wave_state) res" where
  "scans alloc 0 p st = Inr ([], st)"
| "scans alloc (Suc n) p st =
     and_then (wellen_vpi_scan alloc p st) (\<lambda>(h, st).
       and_then (scans alloc n p st) (\<lambda>(hs, st). Inr (h # hs, st)))"

definition item_denotes :: "wave_state \<Rightarrow> iterator_item \<Rightarrow> ptr \<Rightarrow> bool" where
  "item_denotes st x h \<longleftrightarrow> h \<noteq> 0 \<and>
     (case x of ModuleItem s \<Rightarrow> module_handle_ptr_map st h = Some s | SignalItem g \<Rightarrow> h = g)"

lemma live_neq_0: "wave_inv st \<Longrightarrow> box_at st h = Some b \<Longrightarrow> h \<noteq> 0"
  unfolding wave_inv_def by (cases "h = 0") simp_all

lemma scan_item_denotes:
  assumes "alloc_ok alloc" "wave_inv st" "\<forall>h. x = SignalItem h \<longrightarrow> (\<exists>i. box_at st h = Some (SignalBox i))"
    and "\<forall>s. \<not> has_nul (scope_name (hierarchy st) s)"
  shows "\<exists>h st'. scan_item alloc x st = Inr (h, st') \<and> wave_inv st' \<and> item_denotes st' x h
    \<and> box_at st \<subseteq>\<^sub>m box_at st' \<and> module_handle_ptr_map st \<subseteq>\<^sub>m module_handle_ptr_map st' \<and> hierarchy st' = hierarchy st"
proof (cases x)
  case (SignalItem h)
  then have "h \<noteq> 0" using assms(3) live_neq_0 [OF assms(2)] by blast
  then show ?thesis using SignalItem assms(2) by (simp add: scan_item_def item_denotes_def)
next
  case (ModuleItem s)
  have "ok (get_or_create_module_handle alloc s st)"
    using assms(2,4) by (simp add: get_or_create_module_handle_def wave_getters wave_inv_def split: option.splits prod.splits)
  then obtain h st' where h: "get_or_create_module_handle alloc s st = Inr (h, st')" by (auto simp: ok_iff)
  note inv = module_handle_inv [OF assms(1,2) h]
  then have "box_at st' h = Some (ModuleBox (scope_name (hierarchy st') s))"
    unfolding wave_inv_def module_reg_def by blast
  then have "h \<noteq> 0" using live_neq_0 inv by blast
  then show ?thesis using ModuleItem h inv by (simp add: scan_item_def item_denotes_def)
qed

lemma item_denotes_mono:
  "module_handle_ptr_map st \<subseteq>\<^sub>m module_handle_ptr_map st' \<Longrightarrow> item_denotes st x h \<Longrightarrow> item_denotes st' x h"
  by (auto simp: item_denotes_def map_le_def split: iterator_item.splits) (metis domI)

lemma scans_drain:
  assumes "alloc_ok alloc" "wave_inv st" "box_at st p = Some (IteratorBox items index)" "index \<le> length items"
    and "\<forall>s. \<not> has_nul (scope_name (hierarchy st) s)"
  shows "\<exists>hs st'. scans alloc (Suc (length items - index)) p st = Inr (hs @ [0], st') \<and> wave_inv st'
    \<and> list_all2 (item_denotes st') (drop index items) hs \<and> box_at st' p = None
    \<and> module_handle_ptr_map st \<subseteq>\<^sub>m module_handle_ptr_map st'"
  using assms(2-5)
proof (induction "length items - index" arbitrary: index st)
  case 0
  then have "wellen_vpi_scan alloc p st = Inr (0, release p st)" "drop index items = []"
    using scan_live [OF 0(2,3)] by simp_all
  moreover have "box_at (release p st) p = None" "module_handle_ptr_map (release p st) = module_handle_ptr_map st"
    by (simp_all add: release_def hm_remove_lookup)
  ultimately show ?case using iterator_release_inv [OF 0(2,3)] 0(1)
    by (intro exI [of _ "[]"] exI [of _ "release p st"]) simp
next
  case (Suc n)
  then have lt: "index < length items" by simp
  let ?st = "advance p st items index"
  have adv: "box_at ?st = (box_at st)(p \<mapsto> IteratorBox items (Suc index))" "hierarchy ?st = hierarchy st"
      "module_handle_ptr_map ?st = module_handle_ptr_map st"
    by (simp_all add: advance_def set_box_def hm_upd_lookup)
  have live: "items_live (box_at ?st) items"
  proof -
    have "items_live (box_at st) items" using Suc(3,4) unfolding wave_inv_def iterator_reg_def by blast
    then show ?thesis using Suc(4) unfolding adv by (elim items_live_cong [rotated]) auto
  qed
  then have "\<forall>h. items ! index = SignalItem h \<longrightarrow> (\<exists>i. box_at ?st h = Some (SignalBox i))"
    using nth_mem [OF lt] unfolding items_live_def by metis
  moreover have "\<forall>s. \<not> has_nul (scope_name (hierarchy ?st) s)" using Suc(6) adv by simp
  ultimately obtain h st1 where h: "scan_item alloc (items ! index) ?st = Inr (h, st1)" "wave_inv st1"
      "item_denotes st1 (items ! index) h" "box_at ?st \<subseteq>\<^sub>m box_at st1"
      "module_handle_ptr_map ?st \<subseteq>\<^sub>m module_handle_ptr_map st1" "hierarchy st1 = hierarchy ?st"
    using scan_item_denotes [OF assms(1) advance_inv [OF Suc(3,4)]] by blast
  have b1: "box_at st1 p = Some (IteratorBox items (Suc index))"
    using h(4) adv(1) by (auto simp: map_le_def)
  have "n = length items - Suc index" "Suc index \<le> length items" using Suc(2) lt by simp_all
  moreover have "\<forall>s. \<not> has_nul (scope_name (hierarchy st1) s)" using Suc(6) adv h(6) by simp
  ultimately obtain hs st' where
    r: "scans alloc (Suc (length items - Suc index)) p st1 = Inr (hs @ [0], st')" "wave_inv st'"
       "list_all2 (item_denotes st') (drop (Suc index) items) hs" "box_at st' p = None"
       "module_handle_ptr_map st1 \<subseteq>\<^sub>m module_handle_ptr_map st'"
    using Suc(1) [OF _ h(2) b1] by blast
  have "wellen_vpi_scan alloc p st = Inr (h, st1)" using scan_live [OF Suc(3,4)] lt h(1) by simp
  moreover have "length items - index = Suc (length items - Suc index)" using lt by simp
  ultimately have "scans alloc (Suc (length items - index)) p st = Inr ((h # hs) @ [0], st')" using r(1) by simp
  moreover have "list_all2 (item_denotes st') (drop index items) (h # hs)"
    using r(3) item_denotes_mono [OF r(5) h(3)] Cons_nth_drop_Suc [OF lt] by (metis list_all2_Cons)
  moreover have "module_handle_ptr_map st \<subseteq>\<^sub>m module_handle_ptr_map st'"
    using map_le_trans [OF h(5) r(5)] adv(3) by simp
  ultimately show ?case using r(2,4) by blast
qed

text \<open>C24. Iterating returns NULL when there is nothing to iterate over; otherwise scanning the iterator
  returns a handle for each item, in order, then NULL, after which the iterator is freed and further
  scans of it return NULL. Module handles found before stay valid.\<close>

theorem iterate_then_scan:
  assumes "alloc_ok alloc" "wave_inv st" "\<forall>s. \<not> has_nul (scope_name (hierarchy st) s)"
    and "iterator_items alloc ty ref st = Inr (items, st1)" "wellen_vpi_iterate alloc ty ref st = Inr (p, st2)"
  shows "(p = 0 \<longleftrightarrow> items = []) \<and> (p \<noteq> 0 \<longrightarrow>
    (\<exists>hs st3. scans alloc (Suc (length items)) p st2 = Inr (hs @ [0], st3)
      \<and> list_all2 (item_denotes st3) items hs \<and> wellen_vpi_scan alloc p st3 = Inr (0, st3)
      \<and> module_handle_ptr_map st \<subseteq>\<^sub>m module_handle_ptr_map st3))"
proof -
  note it = iterator_items_inv [OF assms(1,2,4)]
  have k: "hierarchy st1 = hierarchy st" "module_handle_ptr_map st1 = module_handle_ptr_map st" "initialized st1"
    using it assms(2) by (auto simp: keeps_def wave_inv_def)
  show ?thesis
  proof (cases "items = []")
    case True
    then show ?thesis using assms(4,5) by (simp add: wellen_vpi_iterate_def)
  next
    case False
    from assms(4,5) False k(3) obtain st1' where n: "box_new alloc (IteratorBox items 0) st1 = (p, st1')"
      and st2: "st2 = st1'\<lparr>iterator_handle_ptr_set := List.insert p (iterator_handle_ptr_set st1')\<rparr>"
      by (auto simp: wellen_vpi_iterate_def wave_getters split: prod.splits if_splits)
    note f = box_new_fresh [OF assms(1) n]
    have b: "box_at st2 p = Some (IteratorBox items 0)" and hm: "hierarchy st2 = hierarchy st"
        "module_handle_ptr_map st2 = module_handle_ptr_map st"
      using f st2 k by simp_all
    have inv2: "wave_inv st2" using iterate_inv [OF assms(1,2,5)] by blast
    obtain hs st3 where s: "scans alloc (Suc (length items)) p st2 = Inr (hs @ [0], st3)" "wave_inv st3"
        "list_all2 (item_denotes st3) items hs" "box_at st3 p = None"
        "module_handle_ptr_map st2 \<subseteq>\<^sub>m module_handle_ptr_map st3"
      using scans_drain [OF assms(1) inv2 b] assms(3) hm by auto
    have "wellen_vpi_scan alloc p st3 = Inr (0, st3)" using scan_dead [OF s(2)] s(4) by simp
    then show ?thesis using s hm f(1) False by auto
  qed
qed

definition demo_hier :: wave_hier where
  "demo_hier = \<lparr>top_scopes = [0, 1], sub_scopes = (\<lambda>_. []), scope_is_module = (\<lambda>_. True),
     scope_name = (\<lambda>s. if s = 0 then ''top'' else ''$unit''),
     scope_vars = (\<lambda>s. if s = 0 then [\<lparr>var_type_of = Wire, signal_ref = 7, var_full_name = ''top.clk''\<rparr>] else []),
     all_vars = [], lookup_var = (\<lambda>path leaf. if path = [''top''] \<and> leaf = ''clk''
       then Some \<lparr>var_type_of = Wire, signal_ref = 7, var_full_name = ''top.clk''\<rparr> else None),
     timescale = None\<rparr>"

definition demo_state :: wave_state where
  "demo_state = new_process\<lparr>initialized := True, hierarchy := demo_hier,
     wave_source := Some (\<lambda>i. (i, demo_signal))\<rparr>"

lemma demo_state_inv: "wave_inv demo_state"
  by (simp add: wave_inv_def demo_state_def new_process_def module_reg_def iterator_reg_def signal_reg_def)

definition demo_iterating :: wave_state where
  "demo_iterating = demo_state\<lparr>boxes := [(1, IteratorBox [ModuleItem 0] 0)], iterator_handle_ptr_set := [1]\<rparr>"

lemma demo_items: "iterator_items bump_alloc vpiModule 0 demo_state = Inr ([ModuleItem 0], demo_state)"
  by (simp add: iterator_items_def collect_module_scopes_def wave_getters demo_state_def demo_hier_def
      is_valid_top_module_scope_def ends_with_def)

lemma demo_iterate: "wellen_vpi_iterate bump_alloc vpiModule 0 demo_state = Inr (1, demo_iterating)"
  unfolding wellen_vpi_iterate_def demo_items
  by (simp add: box_new_def bump_alloc_def wave_getters demo_iterating_def demo_state_def new_process_def List.insert_def)

theorem wave_calls_keep_inv_witness:
  "\<exists>st'. run_calls bump_alloc [Iterate vpiModule 0, Scan 0] demo_state = Inr st' \<and> wave_inv st'"
proof -
  have "run_calls bump_alloc [Iterate vpiModule 0, Scan 0] demo_state = Inr demo_iterating"
    by (simp add: run_calls_def run_call_def demo_iterate wellen_vpi_scan_def)
  with wave_calls_keep_inv [OF alloc_ok_bump demo_state_inv this] show ?thesis by blast
qed

theorem iterate_then_scan_witness:
  "\<exists>h st3. scans bump_alloc 2 1 demo_iterating = Inr ([h, 0], st3)"
proof -
  have nul: "\<forall>s. \<not> has_nul (scope_name (hierarchy demo_state) s)"
    by (simp add: demo_state_def demo_hier_def has_nul_def)
  from iterate_then_scan [OF alloc_ok_bump demo_state_inv nul demo_items demo_iterate]
  obtain hs st3 where "scans bump_alloc 2 1 demo_iterating = Inr (hs @ [0], st3)"
      "list_all2 (item_denotes st3) [ModuleItem 0] hs"
    by (auto simp: numeral_2_eq_2)
  moreover from this(2) obtain h where "hs = [h]" by (auto simp: list_all2_Cons1)
  ultimately show ?thesis by auto
qed

subsection \<open>Lookups do not depend on the caches\<close>

definition resolve :: "wave_hier \<Rightarrow> string \<Rightarrow> sig_ref option" where
  "resolve hier n = (case rsplit_path n of None \<Rightarrow> None
     | Some (path, leaf) \<Rightarrow> map_option signal_ref (lookup_var hier path leaf))"

definition faithful :: "wave_state \<Rightarrow> bool" where
  "faithful st \<longleftrightarrow> (\<forall>n i. map_of (signal_ref_cache st) n = Some i \<longrightarrow> resolve (hierarchy st) n = Some i)
     \<and> (\<forall>n \<in> set (signal_ref_cache_null st). resolve (hierarchy st) n = None)"

lemma split_on_length: "2 \<le> length (split_on c s) \<longleftrightarrow> c \<in> set s"
proof (induction s)
  case Nil
  show ?case by simp
next
  case (Cons x xs)
  obtain y ys where "split_on c xs = y # ys" by (cases "split_on c xs") simp_all
  then show ?case using Cons by auto
qed

lemma rsplit_path_dot: "rsplit_path n = None \<longleftrightarrow> CHR ''.'' \<notin> set n"
  using split_on_length [of "CHR ''.''" n] by (auto simp: rsplit_path_def Let_def not_le)

text \<open>A lookup answers what the hierarchy says and leaves the caches faithful to it.\<close>

lemma lookup_resolves:
  assumes "alloc_ok alloc" "faithful st" "rsplit_path n = Some (path, leaf)"
    and r: "wellen_vpi_handle_by_name alloc (Some n) st = Inr (p, st')"
  shows "faithful st' \<and> (case resolve (hierarchy st) n of None \<Rightarrow> p = 0
    | Some i \<Rightarrow> box_at st' p = Some (SignalBox i) \<and> box_at st p = None \<and> signal_name_cache st' i = Some n)"
  using r
proof (cases rule: handle_by_name_cases)
  case (missing m nulls b)
  then have "resolve (hierarchy st) n = None" using assms(2,3) by (auto simp: faithful_def resolve_def)
  moreover have "faithful st'" using missing assms(2) by (auto simp: faithful_def resolve_def)
  ultimately show ?thesis using missing(1) by simp
next
  case (cached m i)
  note f = box_new_fresh [OF assms(1) cached(3)]
  have "resolve (hierarchy st) n = Some i" using cached assms(2) by (auto simp: faithful_def)
  moreover have "faithful st'" using f assms(2) by (simp add: faithful_def)
  ultimately show ?thesis using f cached(1) by simp
next
  case (loaded m pa le v src sig)
  note f = box_new_fresh [OF assms(1) loaded(8)]
  have res: "resolve (hierarchy st) n = Some (signal_ref v)" using loaded(1,4,5) by (simp add: resolve_def)
  moreover have "faithful st'" using f assms(2) res loaded(1)
    by (auto simp: faithful_def remember_signal_def hm_upd_lookup)
  ultimately show ?thesis using f loaded(1) by (simp add: remember_signal_def)
qed

text \<open>C22. Looking a signal up by name gives what the hierarchy says, whatever earlier lookups and the cache
  file left in the two name caches: NULL for a name the hierarchy does not have, otherwise a new handle of
  the signal that reports the queried name; earlier handles keep denoting their signals.\<close>

theorem lookup_transparent:
  assumes "alloc_ok alloc" "wave_inv st" "faithful st" "wave_source st = Some source" "\<forall>i. fst (source i) = i"
    and "utf8_valid n" "CHR ''.'' \<in> set n"
  shows "\<exists>p st'. wellen_vpi_handle_by_name alloc (Some n) st = Inr (p, st') \<and> faithful st' \<and> keeps st st'
    \<and> (case resolve (hierarchy st) n of
         None \<Rightarrow> p = 0
       | Some i \<Rightarrow> p \<noteq> 0 \<and> box_at st p = None \<and> signal_of_handle p st' = Inr i \<and> ok (signal_info_of p st')
           \<and> wellen_vpi_get_str vpiName p st' = Inr (Some n))"
proof -
  have init: "initialized st" by (rule wave_inv_initialized [OF assms(2)])
  obtain path leaf where rs: "rsplit_path n = Some (path, leaf)" using assms(7) rsplit_path_dot by fastforce
  have "ok (wellen_vpi_handle_by_name alloc (Some n) st)"
    using assms(4-6) init rs
    by (auto simp: wellen_vpi_handle_by_name_def wave_getters get_wave_source_def Let_def
        split: option.splits prod.splits) (metis fst_conv)
  then obtain p st' where r: "wellen_vpi_handle_by_name alloc (Some n) st = Inr (p, st')" by (auto simp: ok_iff)
  note inv = handle_by_name_inv [OF assms(1,2) r]
  have "faithful st' \<and> (case resolve (hierarchy st) n of None \<Rightarrow> p = 0
    | Some i \<Rightarrow> box_at st' p = Some (SignalBox i) \<and> box_at st p = None \<and> signal_name_cache st' i = Some n)"
    by (rule lookup_resolves [OF assms(1,3) rs r])
  moreover have "module_handle_ptr_map st' p = None \<and> signal_cache st' i \<noteq> None \<and> p \<noteq> 0"
    if "box_at st' p = Some (SignalBox i)" for i
  proof -
    have m: "module_reg (map_of (module_handle_cache st')) (module_handle_ptr_map st') (scope_name (hierarchy st')) (box_at st')"
      and sg: "signal_reg (map_of (signal_ref_cache st')) (signal_cache st') (box_at st')"
      using inv unfolding wave_inv_def by blast+
    have "module_handle_ptr_map st' p = None"
      using m that unfolding module_reg_def by (cases "module_handle_ptr_map st' p") auto
    then show ?thesis using sg that live_neq_0 inv unfolding signal_reg_def by blast
  qed
  moreover have "initialized st'" using inv wave_inv_initialized by blast
  ultimately have "(case resolve (hierarchy st) n of None \<Rightarrow> p = 0
    | Some i \<Rightarrow> p \<noteq> 0 \<and> box_at st p = None \<and> signal_of_handle p st' = Inr i \<and> ok (signal_info_of p st')
        \<and> wellen_vpi_get_str vpiName p st' = Inr (Some n)) \<and> faithful st'"
    by (auto simp: signal_of_handle_def signal_info_of_def wellen_vpi_get_str_def wave_getters split: option.splits)
  then show ?thesis using r inv by blast
qed

theorem lookup_transparent_witness:
  "\<exists>p st'. wellen_vpi_handle_by_name bump_alloc (Some ''top.clk'') demo_state = Inr (p, st')
    \<and> wellen_vpi_get_str vpiName p st' = Inr (Some ''top.clk'')"
proof -
  have f: "faithful demo_state" by (simp add: faithful_def demo_state_def new_process_def)
  have src: "wave_source demo_state = Some (\<lambda>i. (i, demo_signal))" by (simp add: demo_state_def)
  have ids: "\<forall>i. fst ((\<lambda>i. (i, demo_signal)) i) = i" by simp
  have utf: "utf8_valid ''top.clk''" by (rule utf8_valid_ascii) simp
  have dot: "CHR ''.'' \<in> set ''top.clk''" by simp
  note lookup_transparent [OF alloc_ok_bump demo_state_inv f src ids utf dot]
  moreover have "resolve (hierarchy demo_state) ''top.clk'' = Some 7"
    by (simp add: resolve_def rsplit_path_def demo_state_def demo_hier_def)
  ultimately show ?thesis by auto
qed

subsection \<open>Finalisation\<close>

lemma hm_remove_all_lookup:
  "map_of (fold hm_remove ps m) k = (if k \<in> set ps then None else map_of m k)"
  by (induction ps arbitrary: m) (auto simp: hm_remove_lookup)

lemma hm_remove_all_distinct: "distinct (map fst m) \<Longrightarrow> distinct (map fst (fold hm_remove ps m))"
  by (induction ps arbitrary: m) (simp_all add: hm_remove_distinct)

lemma free_all:
  "distinct ps \<Longrightarrow> (\<And>p. p \<in> set ps \<Longrightarrow> box_at st p \<noteq> None) \<Longrightarrow>
   fold_res box_free ps st = Inr (st\<lparr>boxes := fold hm_remove ps (boxes st)\<rparr>)"
proof (induction ps arbitrary: st)
  case Nil
  show ?case by simp
next
  case (Cons p ps)
  let ?st = "st\<lparr>boxes := hm_remove p (boxes st)\<rparr>"
  have "box_at ?st q \<noteq> None" if "q \<in> set ps" for q
    using Cons.prems(1) Cons.prems(2) [of q] that by (auto simp: hm_remove_lookup)
  then have "fold_res box_free ps ?st = Inr (?st\<lparr>boxes := fold hm_remove ps (boxes ?st)\<rparr>)"
    using Cons.prems(1) by (intro Cons.IH) auto
  moreover have "box_free p st = Inr ?st" using Cons.prems(2) [of p] by (simp add: box_free_def)
  ultimately show ?case by simp
qed

lemma distinct_values:
  "distinct (map fst m) \<Longrightarrow> (\<And>s t p. (s, p) \<in> set m \<Longrightarrow> (t, p) \<in> set m \<Longrightarrow> s = t) \<Longrightarrow> distinct (map snd m)"
  by (auto simp: distinct_map inj_on_def)

lemma module_handles_distinct:
  assumes "wave_inv st"
  shows "distinct (map snd (module_handle_cache st))"
    and "p \<in> set (map snd (module_handle_cache st)) \<longleftrightarrow> module_handle_ptr_map st p \<noteq> None"
proof -
  have d: "distinct (map fst (module_handle_cache st))"
    and C: "map_of (module_handle_cache st) s = Some p \<longleftrightarrow> module_handle_ptr_map st p = Some s" for s p
    using assms unfolding wave_inv_def module_reg_def by blast+
  have mem: "(s, q) \<in> set (module_handle_cache st) \<longleftrightarrow> module_handle_ptr_map st q = Some s" for s q
    using d C [of s q] by (simp add: map_of_eq_Some_iff)
  then show "distinct (map snd (module_handle_cache st))" by (intro distinct_values [OF d]) simp
  show "p \<in> set (map snd (module_handle_cache st)) \<longleftrightarrow> module_handle_ptr_map st p \<noteq> None"
    using mem by force
qed

text \<open>C25. Finalisation frees every iterator and every module handle exactly once (no pointer is freed twice,
  none of these boxes stays behind) and leaves the signal handles alone; the registries are again in
  order, so calls after it, including a second finalisation, find no dangling pointer.\<close>

theorem finalize_reclaims:
  assumes "wave_inv st" "can_create"
  shows "\<exists>d' st'. wellen_finalize can_create d st = Inr (d', st') \<and> wave_inv st'
    \<and> (\<forall>p b. box_at st' p = Some b \<longleftrightarrow> box_at st p = Some b \<and> (\<exists>i. b = SignalBox i))"
proof -
  let ?its = "iterator_handle_ptr_set st" and ?ms = "map snd (module_handle_cache st)"
  have init: "initialized st" by (rule wave_inv_initialized [OF assms(1)])
  have B: "module_reg (map_of (module_handle_cache st)) (module_handle_ptr_map st) (scope_name (hierarchy st)) (box_at st)"
      "iterator_reg ?its (box_at st)" "signal_reg (map_of (signal_ref_cache st)) (signal_cache st) (box_at st)"
      "distinct (map fst (boxes st))" "box_at st 0 = None"
    using assms(1) unfolding wave_inv_def by blast+
  have it: "p \<in> set ?its \<longleftrightarrow> (\<exists>xs i. box_at st p = Some (IteratorBox xs i))" and dist: "distinct ?its" for p
    using B(2) unfolding iterator_reg_def by blast+
  have mo: "p \<in> set ?ms \<longleftrightarrow> (\<exists>n. box_at st p = Some (ModuleBox n))" for p
    using B(1) module_handles_distinct(2) [OF assms(1)] unfolding module_reg_def by blast
  let ?m1 = "fold hm_remove ?its (boxes st)" let ?m2 = "fold hm_remove ?ms ?m1"
  have one: "fold_res box_free ?its (st\<lparr>signal_name_cache := Map.empty\<rparr>)
      = Inr (st\<lparr>signal_name_cache := Map.empty, boxes := ?m1\<rparr>)"
    using free_all [OF dist, of "st\<lparr>signal_name_cache := Map.empty\<rparr>"] it by fastforce
  have "map_of ?m1 p \<noteq> None" if "p \<in> set ?ms" for p
    using that mo [of p] it [of p] unfolding hm_remove_all_lookup by auto
  then have two: "fold_res box_free ?ms (st\<lparr>signal_name_cache := Map.empty, boxes := ?m1, iterator_handle_ptr_set := []\<rparr>)
      = Inr (st\<lparr>signal_name_cache := Map.empty, boxes := ?m2, iterator_handle_ptr_set := []\<rparr>)"
    using free_all [OF module_handles_distinct(1) [OF assms(1)],
        of "st\<lparr>signal_name_cache := Map.empty, boxes := ?m1, iterator_handle_ptr_set := []\<rparr>"] by simp
  let ?st' = "st\<lparr>signal_name_cache := Map.empty, boxes := ?m2, iterator_handle_ptr_set := [],
     module_handle_cache := [], module_handle_ptr_map := Map.empty\<rparr>"
  have rec: "reclaim st = Inr ?st'" using init one two by (simp add: reclaim_def)
  have look: "box_at ?st' p = Some b \<longleftrightarrow> box_at st p = Some b \<and> (\<exists>i. b = SignalBox i)" for p b
    using it [of p] mo [of p] by (cases b) (auto simp: hm_remove_all_lookup)
  have "module_reg Map.empty Map.empty (scope_name (hierarchy st)) (box_at ?st')" using look by (simp add: module_reg_def)
  moreover have "iterator_reg [] (box_at ?st')" using look by (simp add: iterator_reg_def)
  moreover have "signal_reg (map_of (signal_ref_cache st)) (signal_cache st) (box_at ?st')"
    using B(3) look unfolding signal_reg_def by auto
  moreover have "box_at ?st' 0 = None" using look [of 0] B(5) by (cases "box_at ?st' 0") auto
  ultimately have "wave_inv ?st'" using B(4) init unfolding wave_inv_def by (simp add: hm_remove_all_distinct)
  moreover have "ok (save_caches can_create st d)" using assms(2) by (simp add: save_caches_def)
  then obtain d' where "save_caches can_create st d = Inr d'" by (auto simp: ok_iff)
  then have "wellen_finalize can_create d st = Inr (d', ?st')"
    using rec init by (simp add: wellen_finalize_def wave_getters)
  ultimately show ?thesis using look by blast
qed

theorem finalize_reclaims_witness:
  "\<exists>d' st'. wellen_finalize True \<lparr>meta_file = Missing, signal_file = Missing\<rparr> demo_state = Inr (d', st')"
  using finalize_reclaims [OF demo_state_inv, of True "\<lparr>meta_file = Missing, signal_file = Missing\<rparr>"] by blast

subsection \<open>Restart from the cache files\<close>

lemma initialize_body:
  assumes "wellen_initialize E d (Some file) new_process = Inr st" "\<not> hierarchy_only E"
  obtains hier table source cur where "read_header_from_file E file = Some hier"
    "read_body E file = Some (table, source)" "fs_metadata E file = Some cur"
    "initialized st" "hierarchy st = hier" "wave_source st = Some source" "wave_file_modified st = Some cur"
    "boxes st = []" "module_handle_cache st = []" "module_handle_ptr_map st = Map.empty"
    "iterator_handle_ptr_set st = []"
    "signal_ref_cache st = (case use_cached_data cur (meta_file d) of Some meta \<Rightarrow> sigref meta | None \<Rightarrow> [])"
    "signal_ref_cache_null st = (case use_cached_data cur (meta_file d) of Some meta \<Rightarrow> sigref_null meta | None \<Rightarrow> [])"
    "signal_cache st = (case use_cached_data cur (meta_file d) of None \<Rightarrow> Map.empty
       | Some _ \<Rightarrow> (case signal_file d of Holds cache \<Rightarrow> cache | _ \<Rightarrow> Map.empty))"
proof -
  from assms obtain hier table source cur where e: "utf8_valid file" "read_header_from_file E file = Some hier"
    "read_body E file = Some (table, source)" "fs_metadata E file = Some cur"
    by (auto simp: wellen_initialize_def split: if_splits option.splits prod.splits)
  note st = assms(1) [unfolded wellen_initialize_def, simplified e assms(2), simplified e assms(2) Let_def, simplified]
  then show ?thesis using e
    by (intro that [of hier table source cur])
      (auto simp: load_ref_caches_def load_signal_cache_def load_empty_registries_def new_process_def
        split: option.splits)
qed

lemma initialized_inv:
  assumes "wellen_initialize E d (Some file) new_process = Inr st" "\<not> hierarchy_only E"
    and "\<forall>n i. map_of (signal_ref_cache st) n = Some i \<longrightarrow> signal_cache st i \<noteq> None"
  shows "wave_inv st"
  using assms(1,2)
proof (cases rule: initialize_body)
  case (1 hier table source cur)
  then show ?thesis using assms(3)
    by (simp add: wave_inv_def module_reg_def iterator_reg_def signal_reg_def)
qed

text \<open>The files a run leaves are coherent: accepted metadata names only signals of the signal cache file.\<close>

definition disk_coherent :: "disk \<Rightarrow> bool" where
  "disk_coherent d \<longleftrightarrow> (\<forall>meta. meta_file d = Holds meta \<longrightarrow> sigref_count meta \<ge> SIGNAL_REF_COUNT_THRESHOLD \<longrightarrow>
     (\<exists>cache. signal_file d = Holds cache \<and> (\<forall>n i. map_of (sigref meta) n = Some i \<longrightarrow> cache i \<noteq> None)))"

definition saves_caches :: "wave_state \<Rightarrow> bool" where
  "saves_caches st \<longleftrightarrow> SIGNAL_REF_COUNT_THRESHOLD \<le> length (signal_ref_cache st) \<and> has_newly_add_signal_ref st"

lemma use_cached_data_Some:
  "use_cached_data cur (meta_file d) = Some meta \<Longrightarrow>
   meta_file d = Holds meta \<and> sigref_count meta \<ge> SIGNAL_REF_COUNT_THRESHOLD"
  by (simp add: use_cached_data_def split: file_content.splits if_splits)

lemma initialized_coherent:
  assumes "wellen_initialize E d (Some file) new_process = Inr st" "\<not> hierarchy_only E" "disk_coherent d"
  shows "wave_inv st"
  using assms(1,2)
proof (cases rule: initialize_body)
  case (1 hier table source cur)
  have "map_of (signal_ref_cache st) n = Some i \<Longrightarrow> signal_cache st i \<noteq> None" for n i
  proof (cases "use_cached_data cur (meta_file d)")
    case None
    then show "map_of (signal_ref_cache st) n = Some i \<Longrightarrow> signal_cache st i \<noteq> None" using 1(12) by simp
  next
    case (Some meta)
    then show "map_of (signal_ref_cache st) n = Some i \<Longrightarrow> signal_cache st i \<noteq> None"
      using assms(3) use_cached_data_Some [OF Some] 1(12,14) unfolding disk_coherent_def by fastforce
  qed
  then show ?thesis by (intro initialized_inv [OF assms(1,2)]) blast
qed

text \<open>C26. A process that resolved at least \<open>SIGNAL_REF_COUNT_THRESHOLD\<close> names, one of them new, saves its
  caches at its end, and the next process over the same wave file starts from them: the same name
  caches and the same loaded signals, with the registries in order and lookups as the hierarchy says.
  If the file's size or modification time differ, it starts from empty caches. A process below the
  threshold, or without a new name, leaves the files as they were; with no file there, the next
  process starts from empty caches. (The comment on the constant says that data above the threshold
  is not used. The saving code, the loading code and the message \<^verbatim>\<open>signal ref count is too small, not
  save cache file\<close> agree on the opposite, which is what is stated.)\<close>

theorem restart_roundtrip:
  assumes "wave_inv st" "wave_file_modified st = Some m" "wellen_finalize True d st = Inr (d', st')"
    and "wellen_initialize E d' (Some file) new_process = Inr st2" "\<not> hierarchy_only E"
  shows "(saves_caches st \<longrightarrow> wave_inv st2 \<and> disk_coherent d'
      \<and> (fs_metadata E file = Some m \<longrightarrow> signal_ref_cache st2 = signal_ref_cache st
           \<and> signal_ref_cache_null st2 = signal_ref_cache_null st \<and> signal_cache st2 = signal_cache st
           \<and> (faithful st \<and> read_header_from_file E file = Some (hierarchy st) \<longrightarrow> faithful st2))
      \<and> (fs_metadata E file \<noteq> Some m \<longrightarrow> signal_ref_cache st2 = [] \<and> signal_ref_cache_null st2 = []
           \<and> signal_cache st2 = Map.empty \<and> faithful st2))
    \<and> (\<not> saves_caches st \<longrightarrow> d' = d \<and> (disk_coherent d \<longrightarrow> wave_inv st2)
      \<and> (meta_file d = Missing \<longrightarrow> signal_ref_cache st2 = [] \<and> signal_ref_cache_null st2 = []
           \<and> signal_cache st2 = Map.empty \<and> faithful st2))"
  using assms(4,5)
proof (cases rule: initialize_body)
  case (1 hier table source cur)
  show ?thesis
  proof (cases "saves_caches st")
    case saves: True
    then have d': "meta_file d' = Holds \<lparr>modified = m, sigref_count = length (signal_ref_cache st),
        sigref = signal_ref_cache st, sigref_null = signal_ref_cache_null st\<rparr>" "signal_file d' = Holds (signal_cache st)"
      using assms(2,3) by (auto simp: wellen_finalize_def save_caches_def saves_caches_def res_simps wave_getters)
    have "disk_coherent d'"
      using assms(1) unfolding disk_coherent_def d' wave_inv_def signal_reg_def by simp
    moreover from this have "wave_inv st2" by (rule initialized_coherent [OF assms(4,5)])
    moreover have "use_cached_data cur (meta_file d') = (if cur = m then Some \<lparr>modified = m,
        sigref_count = length (signal_ref_cache st), sigref = signal_ref_cache st,
        sigref_null = signal_ref_cache_null st\<rparr> else None)"
      using saves by (cases cur; cases m) (auto simp: use_cached_data_def d'(1) saves_caches_def)
    ultimately show ?thesis
      using saves 1(1,3,5,12-14) d'(2) by (simp add: faithful_def)
  next
    case False
    then have "d' = d" using assms(3) by (auto simp: wellen_finalize_def save_caches_def saves_caches_def res_simps wave_getters)
    moreover have "use_cached_data cur Missing = None" by (simp add: use_cached_data_def)
    ultimately show ?thesis
      using False 1(12-14) initialized_coherent [OF assms(4,5)] by (auto simp: faithful_def)
  qed
qed

text \<open>If the metadata file is accepted but the signal cache file is missing or unreadable, the name cache
  is filled while the signal cache is empty: a name found in it gives a handle, and every read through
  that handle panics.\<close>

theorem lost_signal_file_panics:
  assumes "meta_file d = Holds meta" "fs_metadata E file = Some (modified meta)"
    and "sigref_count meta \<ge> SIGNAL_REF_COUNT_THRESHOLD" "signal_file d = Missing \<or> signal_file d = Corrupt"
    and "wellen_initialize E d (Some file) new_process = Inr st" "\<not> hierarchy_only E"
    and "map_of (sigref meta) n = Some i" "utf8_valid n" "alloc_ok alloc"
  shows "\<exists>p st'. wellen_vpi_handle_by_name alloc (Some n) st = Inr (p, st') \<and> p \<noteq> 0
    \<and> \<not> ok (wellen_vpi_get_value_from_index p idx fmt st') \<and> \<not> ok (wellen_get_int_value p idx st')
    \<and> \<not> ok (wellen_get_value_str p idx st') \<and> \<not> ok (wellen_vpi_get vpiSize p st')"
  using assms(5,6)
proof (cases rule: initialize_body)
  case (1 hier table source cur)
  have c: "use_cached_data cur (meta_file d) = Some meta" using 1(3) assms(1-3) by (simp add: use_cached_data_def)
  have refs: "map_of (signal_ref_cache st) n = Some i" and sc: "signal_cache st = Map.empty"
    using 1(12,14) assms(4,7) unfolding c by auto
  let ?st = "st\<lparr>signal_name_cache := (signal_name_cache st)(i \<mapsto> n)\<rparr>"
  obtain p st' where b: "box_new alloc (SignalBox i) ?st = (p, st')" by (cases "box_new alloc (SignalBox i) ?st") auto
  note f = box_new_fresh [OF assms(9) b]
  have "wellen_vpi_handle_by_name alloc (Some n) st = Inr (p, st')"
    using 1(4) refs b assms(8) by (simp add: wellen_vpi_handle_by_name_def wave_getters)
  moreover have "\<not> ok (signal_info_of p st')"
    using f sc 1(4) by (simp add: signal_info_of_def signal_of_handle_def wave_getters)
  then obtain e where "signal_info_of p st' = Inl e" by (cases "signal_info_of p st'") auto
  ultimately show ?thesis using f(1)
    by (simp add: wellen_vpi_get_value_from_index_def wellen_get_int_value_def wellen_get_value_str_def wellen_vpi_get_def)
qed

definition demo_env :: wave_env where
  "demo_env = \<lparr>read_header_from_file = (\<lambda>_. Some demo_hier), read_body = (\<lambda>_. Some ([0, 5], \<lambda>i. (i, demo_signal))),
     hierarchy_only = False, fs_metadata = (\<lambda>_. Some \<lparr>mod_size = 9, mod_time = 3\<rparr>)\<rparr>"

definition demo_meta :: wave_vpi_meta where
  "demo_meta = \<lparr>modified = \<lparr>mod_size = 9, mod_time = 3\<rparr>, sigref_count = 15,
     sigref = [(''top.clk'', 7)], sigref_null = []\<rparr>"

lemma demo_initializes: "\<exists>st. wellen_initialize demo_env d (Some ''w'') new_process = Inr st"
proof -
  have "utf8_valid ''w''" by (rule utf8_valid_ascii) simp
  then show ?thesis by (simp add: wellen_initialize_def demo_env_def Let_def)
qed

theorem lost_signal_file_panics_witness:
  "\<exists>st p st'. wellen_initialize demo_env \<lparr>meta_file = Holds demo_meta, signal_file = Corrupt\<rparr> (Some ''w'') new_process
      = Inr st \<and> wellen_vpi_handle_by_name bump_alloc (Some ''top.clk'') st = Inr (p, st')
    \<and> \<not> ok (wellen_get_int_value p 0 st')"
proof -
  let ?d = "\<lparr>meta_file = Holds demo_meta, signal_file = Corrupt\<rparr>"
  obtain st where st: "wellen_initialize demo_env ?d (Some ''w'') new_process = Inr st" using demo_initializes by blast
  have utf: "utf8_valid ''top.clk''" by (rule utf8_valid_ascii) simp
  have "\<exists>p st'. wellen_vpi_handle_by_name bump_alloc (Some ''top.clk'') st = Inr (p, st') \<and> p \<noteq> 0
    \<and> \<not> ok (wellen_vpi_get_value_from_index p 0 vpiIntVal st') \<and> \<not> ok (wellen_get_int_value p 0 st')
    \<and> \<not> ok (wellen_get_value_str p 0 st') \<and> \<not> ok (wellen_vpi_get vpiSize p st')"
    by (rule lost_signal_file_panics [of ?d demo_meta demo_env "''w''" st "''top.clk''" 7, OF _ _ _ _ st _ _ utf alloc_ok_bump])
      (simp_all add: demo_env_def demo_meta_def SIGNAL_REF_COUNT_THRESHOLD_def)
  then show ?thesis using st by blast
qed

definition demo_session :: wave_state where
  "demo_session = demo_state\<lparr>wave_file_modified := Some \<lparr>mod_size = 9, mod_time = 3\<rparr>,
     has_newly_add_signal_ref := True,
     signal_ref_cache := map (\<lambda>k. (replicate k CHR ''a'', 7)) [0..<15],
     signal_cache := [7 \<mapsto> \<lparr>signal = demo_signal, var_type = Wire\<rparr>]\<rparr>"

theorem restart_roundtrip_witness:
  "\<exists>d' st' st2. wellen_finalize True \<lparr>meta_file = Missing, signal_file = Missing\<rparr> demo_session = Inr (d', st')
    \<and> wellen_initialize demo_env d' (Some ''w'') new_process = Inr st2
    \<and> signal_ref_cache st2 = signal_ref_cache demo_session"
proof -
  let ?d = "\<lparr>meta_file = Missing, signal_file = Missing\<rparr>"
  have "map_of (map (\<lambda>k. (replicate k CHR ''a'', 7)) xs) n = Some i \<Longrightarrow> i = 7" for xs n and i :: nat
    by (induction xs) (auto split: if_splits)
  then have inv: "wave_inv demo_session" using demo_state_inv
    by (auto simp: demo_session_def wave_inv_def signal_reg_def demo_state_def new_process_def)
  have s: "wave_file_modified demo_session = Some \<lparr>mod_size = 9, mod_time = 3\<rparr>" "saves_caches demo_session"
    by (simp_all add: demo_session_def saves_caches_def SIGNAL_REF_COUNT_THRESHOLD_def)
  have "ok (wellen_finalize True ?d demo_session)"
    by (simp add: wellen_finalize_def save_caches_def reclaim_def wave_getters demo_session_def demo_state_def new_process_def)
  then obtain d' st' where fin: "wellen_finalize True ?d demo_session = Inr (d', st')" by (auto simp: ok_iff)
  obtain st2 where st2: "wellen_initialize demo_env d' (Some ''w'') new_process = Inr st2" using demo_initializes by blast
  have "\<not> hierarchy_only demo_env" "fs_metadata demo_env ''w'' = Some \<lparr>mod_size = 9, mod_time = 3\<rparr>"
    by (simp_all add: demo_env_def)
  then show ?thesis using restart_roundtrip [OF inv s(1) fin st2] s(2) fin st2 by blast
qed

end
