(* ===== verification/SqlBridge.thy ===== *)
theory SqlBridge
  imports Boxes Text
begin

text \<open>
  \<^verbatim>\<open>src/turso_ffi/src/lib.rs\<close>: a small SQLite interface for LuaJIT over the \<open>turso\<close> crate. Databases
  and statements are boxes whose addresses are handed to Lua; registries of live addresses decide which
  pointers may be dereferenced. The crate is the parameter \<open>sdk\<close>: its methods act on an engine state
  \<open>'e\<close> and name connections and statements by numbers.
\<close>

subsection \<open>The turso crate\<close>

datatype open_result = OpenDone nat | OpenPending | OpenErr string
datatype status = Done | Row | OtherStatus string

text \<open>A float is represented by what the code makes of it: its cast to \<open>i64\<close> and its \<open>Display\<close> text.\<close>

datatype sql_value = SqlInt int | SqlFloat int string | SqlText string | SqlNull | SqlBlob

record 'e sdk =
  db_open :: "string \<Rightarrow> 'e \<Rightarrow> open_result \<times> 'e"
  db_connect :: "nat \<Rightarrow> 'e \<Rightarrow> (string + nat) \<times> 'e"
  conn_close :: "nat \<Rightarrow> 'e \<Rightarrow> string option \<times> 'e"
  prepare_first :: "nat \<Rightarrow> string \<Rightarrow> 'e \<Rightarrow> (string + (nat \<times> nat) option) \<times> 'e"
  prepare_single :: "nat \<Rightarrow> string \<Rightarrow> 'e \<Rightarrow> (string + nat) \<times> 'e"
  stmt_execute :: "nat \<Rightarrow> 'e \<Rightarrow> (string + status) \<times> 'e"
  stmt_finalize :: "nat \<Rightarrow> 'e \<Rightarrow> (string + status) \<times> 'e"
  bind_positional :: "nat \<Rightarrow> nat \<Rightarrow> sql_value \<Rightarrow> 'e \<Rightarrow> string option \<times> 'e"
  stmt_step :: "nat \<Rightarrow> 'e \<Rightarrow> (string + status) \<times> 'e"
  stmt_reset :: "nat \<Rightarrow> 'e \<Rightarrow> string option \<times> 'e"
  row_value :: "nat \<Rightarrow> nat \<Rightarrow> 'e \<Rightarrow> string + sql_value"
  utf8_error :: "string \<Rightarrow> string"

subsection \<open>State\<close>

definition TURSO_FFI_OK :: int where "TURSO_FFI_OK = 0"
definition TURSO_FFI_ROW :: int where "TURSO_FFI_ROW = 100"
definition TURSO_FFI_DONE :: int where "TURSO_FFI_DONE = 101"
definition TURSO_FFI_ERR :: int where "TURSO_FFI_ERR = 1"

lemmas turso_codes = TURSO_FFI_OK_def TURSO_FFI_ROW_def TURSO_FFI_DONE_def TURSO_FFI_ERR_def

record db =
  conn :: nat
  errmsg :: string
  errmsg_c :: string
  col_text_c :: string

record stmt =
  stmt_db :: ptr
  stmt_obj :: nat

record 'e sql_state =
  last_global_err :: "string \<times> string"
  live_dbs :: "ptr list"
  live_stmts :: "ptr list"
  db_boxes :: "(ptr \<times> db) list"
  stmt_boxes :: "(ptr \<times> stmt) list"
  engine :: 'e

definition sql_start :: "'e \<Rightarrow> 'e sql_state" where
  "sql_start e = \<lparr>last_global_err = ([], []), live_dbs = [], live_stmts = [], db_boxes = [], stmt_boxes = [],
     engine = e\<rparr>"

text \<open>\<open>CString::new(msg.replace('\0', "")).unwrap_or_default()\<close>.\<close>

definition c_text :: "string \<Rightarrow> string" where
  "c_text msg = filter (\<lambda>c. of_char c \<noteq> (0::nat)) msg"

definition set_global_err :: "string \<Rightarrow> 'e sql_state \<Rightarrow> 'e sql_state" where
  "set_global_err msg st = st\<lparr>last_global_err := (msg, c_text msg)\<rparr>"

definition clear_global_err :: "'e sql_state \<Rightarrow> 'e sql_state" where
  "clear_global_err st = st\<lparr>last_global_err := ([], [])\<rparr>"

definition register_db :: "ptr \<Rightarrow> 'e sql_state \<Rightarrow> 'e sql_state" where
  "register_db p st = st\<lparr>live_dbs := List.insert p (live_dbs st)\<rparr>"

definition unregister_db :: "ptr \<Rightarrow> 'e sql_state \<Rightarrow> bool \<times> 'e sql_state" where
  "unregister_db p st = (p \<in> set (live_dbs st), st\<lparr>live_dbs := removeAll p (live_dbs st)\<rparr>)"

definition is_live_db :: "ptr \<Rightarrow> 'e sql_state \<Rightarrow> bool" where
  "is_live_db p st = (p \<noteq> 0 \<and> p \<in> set (live_dbs st))"

definition register_stmt :: "ptr \<Rightarrow> 'e sql_state \<Rightarrow> 'e sql_state" where
  "register_stmt p st = st\<lparr>live_stmts := List.insert p (live_stmts st)\<rparr>"

definition unregister_stmt :: "ptr \<Rightarrow> 'e sql_state \<Rightarrow> bool \<times> 'e sql_state" where
  "unregister_stmt p st = (p \<in> set (live_stmts st), st\<lparr>live_stmts := removeAll p (live_stmts st)\<rparr>)"

definition is_live_stmt :: "ptr \<Rightarrow> 'e sql_state \<Rightarrow> bool" where
  "is_live_stmt p st = (p \<noteq> 0 \<and> p \<in> set (live_stmts st))"

text \<open>Dereferencing a pointer: undefined unless a box of the right kind lives there.\<close>

definition deref_db :: "ptr \<Rightarrow> 'e sql_state \<Rightarrow> db res" where
  "deref_db p st = (case map_of (db_boxes st) p of Some d \<Rightarrow> Inr d | None \<Rightarrow> Inl (Undefined ''dangling Db''))"

definition deref_stmt :: "ptr \<Rightarrow> 'e sql_state \<Rightarrow> stmt res" where
  "deref_stmt p st = (case map_of (stmt_boxes st) p of Some s \<Rightarrow> Inr s | None \<Rightarrow> Inl (Undefined ''dangling Stmt''))"

definition put_db :: "ptr \<Rightarrow> db \<Rightarrow> 'e sql_state \<Rightarrow> 'e sql_state" where
  "put_db p d st = st\<lparr>db_boxes := hm_upd p (\<lambda>_. d) (db_boxes st)\<rparr>"

definition live_addresses :: "'e sql_state \<Rightarrow> ptr list" where
  "live_addresses st = map fst (db_boxes st) @ map fst (stmt_boxes st)"

definition set_err_str :: "ptr \<Rightarrow> string \<Rightarrow> 'e sql_state \<Rightarrow> 'e sql_state res" where
  "set_err_str p msg st =
     and_then (deref_db p st) (\<lambda>d.
       Inr (set_global_err msg (put_db p (d\<lparr>errmsg := msg, errmsg_c := c_text msg\<rparr>) st)))"

text \<open>\<open>db.errmsg.clear(); db.errmsg_c = CString::default(); clear_global_err()\<close>.\<close>

definition clear_err :: "ptr \<Rightarrow> 'e sql_state \<Rightarrow> 'e sql_state res" where
  "clear_err p st =
     and_then (deref_db p st) (\<lambda>d. Inr (clear_global_err (put_db p (d\<lparr>errmsg := [], errmsg_c := []\<rparr>) st)))"

text \<open>The pattern \<open>if is_live_db(p) { set_err(..) } else { set_global_err(..) }\<close>.\<close>

definition report_err :: "ptr \<Rightarrow> string \<Rightarrow> 'e sql_state \<Rightarrow> 'e sql_state res" where
  "report_err p msg st = (if is_live_db p st then set_err_str p msg st else Inr (set_global_err msg st))"

definition cstr_to_str :: "'e sdk \<Rightarrow> c_str \<Rightarrow> string + string" where
  "cstr_to_str S p =
     (case p of None \<Rightarrow> Inl ''null string''
      | Some s \<Rightarrow> if utf8_valid s then Inr s else Inl (utf8_error S s))"

subsection \<open>Opening and executing\<close>

definition open_db :: "'e sdk \<Rightarrow> string \<Rightarrow> 'e \<Rightarrow> (string + db) \<times> 'e" where
  "open_db S path e =
     (case db_open S path e of
        (OpenErr msg, e) \<Rightarrow> (Inl msg, e)
      | (OpenPending, e) \<Rightarrow> (Inl ''open returned pending IO with async_io=false'', e)
      | (OpenDone database, e) \<Rightarrow>
          (case db_connect S database e of
             (Inl msg, e) \<Rightarrow> (Inl msg, e)
           | (Inr c, e) \<Rightarrow> (Inr \<lparr>conn = c, errmsg = [], errmsg_c = [], col_text_c = []\<rparr>, e)))"

definition char_boundary :: "string \<Rightarrow> nat \<Rightarrow> bool" where
  "char_boundary s i \<longleftrightarrow> i = 0 \<or> i = length s \<or> (i < length s \<and> \<not> cont_byte (of_char (s ! i)))"

definition status_text :: "status \<Rightarrow> string" where
  "status_text st = (case st of Done \<Rightarrow> ''Done'' | Row \<Rightarrow> ''Row'' | OtherStatus s \<Rightarrow> s)"

text \<open>
  One statement of \<open>exec_sql\<close>: prepare, execute, finalise. \<open>Inl\<close> is \<open>return Err(msg)\<close>, \<open>Inr None\<close> is
  \<open>break\<close>, \<open>Inr (Some tail)\<close> the offset after the statement.
\<close>

definition exec_one :: "'e sdk \<Rightarrow> nat \<Rightarrow> string \<Rightarrow> 'e \<Rightarrow> (string + nat option) \<times> 'e" where
  "exec_one S c remaining e =
     (case prepare_first S c remaining e of
        (Inl msg, e) \<Rightarrow> (Inl msg, e)
      | (Inr None, e) \<Rightarrow> (Inr None, e)
      | (Inr (Some (s, tail)), e) \<Rightarrow>
          (case stmt_execute S s e of
             (Inl msg, e) \<Rightarrow> (Inl msg, snd (stmt_finalize S s e))
           | (Inr st, e) \<Rightarrow>
               if st \<noteq> Done then (Inl (''execute status: '' @ status_text st), snd (stmt_finalize S s e))
               else (case stmt_finalize S s e of
                  (Inr Done, e) \<Rightarrow> (Inr (Some tail), e)
                | (Inr other, e) \<Rightarrow> (Inl (''finalize status: '' @ status_text other), e)
                | (Inl msg, e) \<Rightarrow> (Inl msg, e))))"

text \<open>
  The loop of \<open>exec_sql\<close>; \<open>None\<close> is a loop that does not end. The tail is sliced at a byte offset, which
  panics off a character boundary.
\<close>

partial_function (option) exec_sql :: "'e sdk \<Rightarrow> nat \<Rightarrow> string \<Rightarrow> 'e \<Rightarrow> ((string option \<times> 'e) res) option" where
  "exec_sql S c remaining e =
     (if trim remaining = [] then Some (Inr (None, e))
      else case exec_one S c remaining e of
        (Inl msg, e) \<Rightarrow> Some (Inr (Some msg, e))
      | (Inr None, e) \<Rightarrow> Some (Inr (None, e))
      | (Inr (Some tail), e) \<Rightarrow>
          if length remaining \<le> tail then Some (Inr (None, e))
          else if \<not> char_boundary remaining tail then Some (Inl (Panic ''byte index is not a char boundary''))
          else exec_sql S c (drop tail remaining) e)"

subsection \<open>Handles from Lua\<close>

definition db_mut :: "ptr \<Rightarrow> 'e sql_state \<Rightarrow> db option res" where
  "db_mut p st = (if is_live_db p st then and_then (deref_db p st) (\<lambda>d. Inr (Some d)) else Inr None)"

definition stmt_mut :: "ptr \<Rightarrow> 'e sql_state \<Rightarrow> stmt option res" where
  "stmt_mut p st =
     (if is_live_stmt p st then
        and_then (deref_stmt p st) (\<lambda>s. Inr (if is_live_db (stmt_db s) st then Some s else None))
      else Inr None)"

text \<open>Result codes with the pointer written through the out parameter, if any.\<close>

type_synonym 'e rc_out = "((int \<times> ptr option) \<times> 'e sql_state) res"
type_synonym 'e rc = "(int \<times> 'e sql_state) res"

definition fail :: "string \<Rightarrow> 'e sql_state \<Rightarrow> (int \<times> 'e sql_state) res" where
  "fail msg st = Inr (TURSO_FFI_ERR, set_global_err msg st)"

definition turso_ffi_open :: "'e sdk \<Rightarrow> allocator \<Rightarrow> c_str \<Rightarrow> bool \<Rightarrow> 'e sql_state \<Rightarrow> 'e rc_out" where
  "turso_ffi_open S alloc path out_null st =
     (if out_null then Inr ((TURSO_FFI_ERR, None), set_global_err ''out_db is null'' st)
      else case cstr_to_str S path of
        Inl msg \<Rightarrow> Inr ((TURSO_FFI_ERR, Some 0), set_global_err msg st)
      | Inr path \<Rightarrow>
          (case open_db S path (engine st) of
             (Inr d, e) \<Rightarrow>
               let raw = alloc (live_addresses st);
                   st = clear_global_err (st\<lparr>engine := e\<rparr>)
               in Inr ((TURSO_FFI_OK, Some raw), register_db raw (st\<lparr>db_boxes := (raw, d) # db_boxes st\<rparr>))
           | (Inl msg, e) \<Rightarrow> Inr ((TURSO_FFI_ERR, Some 0), set_global_err msg (st\<lparr>engine := e\<rparr>))))"

definition turso_ffi_close :: "'e sdk \<Rightarrow> ptr \<Rightarrow> 'e sql_state \<Rightarrow> 'e rc" where
  "turso_ffi_close S p st =
     (case unregister_db p st of
        (False, st) \<Rightarrow> fail ''close: null or already closed db'' st
      | (True, st) \<Rightarrow>
          and_then (deref_db p st) (\<lambda>d.
            case conn_close S (conn d) (engine st) of
              (r, e) \<Rightarrow>
                let st = st\<lparr>db_boxes := hm_remove p (db_boxes st), engine := e\<rparr>
                in (case r of None \<Rightarrow> Inr (TURSO_FFI_OK, clear_global_err st) | Some msg \<Rightarrow> fail msg st)))"

definition turso_ffi_exec :: "'e sdk \<Rightarrow> ptr \<Rightarrow> c_str \<Rightarrow> 'e sql_state \<Rightarrow> 'e rc" where
  "turso_ffi_exec S p sql st =
     and_then (db_mut p st) (\<lambda>db.
       case db of
         None \<Rightarrow> fail ''exec: null or closed db'' st
       | Some d \<Rightarrow>
           (case cstr_to_str S sql of
              Inl msg \<Rightarrow> and_then (set_err_str p msg st) (\<lambda>st. Inr (TURSO_FFI_ERR, st))
            | Inr sql \<Rightarrow>
                (case exec_sql S (conn d) sql (engine st) of
                   None \<Rightarrow> Inl Hang
                 | Some r \<Rightarrow> and_then r (\<lambda>(err, e).
                     let st = st\<lparr>engine := e\<rparr> in
                     case err of
                       None \<Rightarrow> and_then (clear_err p st) (\<lambda>st. Inr (TURSO_FFI_OK, st))
                     | Some msg \<Rightarrow> and_then (set_err_str p msg st) (\<lambda>st. Inr (TURSO_FFI_ERR, st))))))"

definition turso_ffi_prepare :: "'e sdk \<Rightarrow> allocator \<Rightarrow> ptr \<Rightarrow> c_str \<Rightarrow> bool \<Rightarrow> 'e sql_state \<Rightarrow> 'e rc_out" where
  "turso_ffi_prepare S alloc p sql out_null st =
     (if out_null then Inr ((TURSO_FFI_ERR, None), set_global_err ''prepare: out_stmt is null'' st)
      else and_then (db_mut p st) (\<lambda>db.
        case db of
          None \<Rightarrow> Inr ((TURSO_FFI_ERR, Some 0), set_global_err ''prepare: null or closed db'' st)
        | Some d \<Rightarrow>
            (case cstr_to_str S sql of
               Inl msg \<Rightarrow> and_then (set_err_str p msg st) (\<lambda>st. Inr ((TURSO_FFI_ERR, Some 0), st))
             | Inr sql \<Rightarrow>
                 (case prepare_single S (conn d) sql (engine st) of
                    (Inr s, e) \<Rightarrow>
                      and_then (clear_err p (st\<lparr>engine := e\<rparr>)) (\<lambda>st.
                        let raw = alloc (live_addresses st) in
                        Inr ((TURSO_FFI_OK, Some raw),
                             register_stmt raw (st\<lparr>stmt_boxes := (raw, \<lparr>stmt_db = p, stmt_obj = s\<rparr>) # stmt_boxes st\<rparr>)))
                  | (Inl msg, e) \<Rightarrow>
                      and_then (set_err_str p msg (st\<lparr>engine := e\<rparr>)) (\<lambda>st. Inr ((TURSO_FFI_ERR, Some 0), st))))))"

text \<open>\<open>Ok(()) => OK, Err(e) => report\<close> after a call on the statement's object.\<close>

definition ok_or_report :: "ptr \<Rightarrow> string option \<times> 'e \<Rightarrow> 'e sql_state \<Rightarrow> 'e rc" where
  "ok_or_report p r st =
     (case r of
        (None, e) \<Rightarrow> Inr (TURSO_FFI_OK, st\<lparr>engine := e\<rparr>)
      | (Some msg, e) \<Rightarrow> and_then (report_err p msg (st\<lparr>engine := e\<rparr>)) (\<lambda>st. Inr (TURSO_FFI_ERR, st)))"

definition turso_ffi_bind_int :: "'e sdk \<Rightarrow> ptr \<Rightarrow> int \<Rightarrow> int \<Rightarrow> 'e sql_state \<Rightarrow> 'e rc" where
  "turso_ffi_bind_int S p idx v st =
     (if idx \<le> 0 then fail ''bind_int: index must be >= 1'' st
      else and_then (stmt_mut p st) (\<lambda>s.
        case s of
          None \<Rightarrow> fail ''bind_int: null/finalized stmt or closed db'' st
        | Some s \<Rightarrow> ok_or_report (stmt_db s) (bind_positional S (stmt_obj s) (nat idx) (SqlInt v) (engine st)) st))"

text \<open>The bytes behind \<open>text\<close>: up to the NUL for a negative length, else the first \<open>len\<close>.\<close>

definition text_arg :: "'e sdk \<Rightarrow> string \<Rightarrow> int \<Rightarrow> (string + string) res" where
  "text_arg S bytes len =
     (if len < 0 then Inr (cstr_to_str S (Some (takeWhile (\<lambda>c. of_char c \<noteq> (0::nat)) bytes)))
      else if length bytes < nat len then Inl (Undefined ''from_raw_parts past the buffer'')
      else let s = take (nat len) bytes in Inr (if utf8_valid s then Inr s else Inl (utf8_error S s)))"

definition turso_ffi_bind_text :: "'e sdk \<Rightarrow> ptr \<Rightarrow> int \<Rightarrow> string option \<Rightarrow> int \<Rightarrow> 'e sql_state \<Rightarrow> 'e rc" where
  "turso_ffi_bind_text S p idx text len st =
     (case text of
        None \<Rightarrow> fail ''bind_text: bad args'' st
      | Some bytes \<Rightarrow>
          if idx \<le> 0 then fail ''bind_text: bad args'' st
          else and_then (stmt_mut p st) (\<lambda>s.
            case s of
              None \<Rightarrow> fail ''bind_text: null/finalized stmt or closed db'' st
            | Some s \<Rightarrow>
                and_then (text_arg S bytes len) (\<lambda>arg.
                  case arg of
                    Inl msg \<Rightarrow> and_then (report_err (stmt_db s) msg st) (\<lambda>st. Inr (TURSO_FFI_ERR, st))
                  | Inr v \<Rightarrow>
                      ok_or_report (stmt_db s) (bind_positional S (stmt_obj s) (nat idx) (SqlText v) (engine st)) st)))"

definition turso_ffi_step :: "'e sdk \<Rightarrow> ptr \<Rightarrow> 'e sql_state \<Rightarrow> 'e rc" where
  "turso_ffi_step S p st =
     and_then (stmt_mut p st) (\<lambda>s.
       case s of
         None \<Rightarrow> fail ''step: null/finalized stmt or closed db'' st
       | Some s \<Rightarrow>
           (case stmt_step S (stmt_obj s) (engine st) of
              (r, e) \<Rightarrow>
                let st = st\<lparr>engine := e\<rparr> in
                (case r of
                   Inr Row \<Rightarrow> Inr (TURSO_FFI_ROW, st)
                 | Inr Done \<Rightarrow> Inr (TURSO_FFI_DONE, st)
                 | Inr other \<Rightarrow>
                     and_then (report_err (stmt_db s) (''step status: '' @ status_text other) st)
                       (\<lambda>st. Inr (TURSO_FFI_ERR, st))
                 | Inl msg \<Rightarrow> and_then (report_err (stmt_db s) msg st) (\<lambda>st. Inr (TURSO_FFI_ERR, st)))))"

definition turso_ffi_reset :: "'e sdk \<Rightarrow> ptr \<Rightarrow> 'e sql_state \<Rightarrow> 'e rc" where
  "turso_ffi_reset S p st =
     and_then (stmt_mut p st) (\<lambda>s.
       case s of
         None \<Rightarrow> fail ''reset: null/finalized stmt or closed db'' st
       | Some s \<Rightarrow> ok_or_report (stmt_db s) (stmt_reset S (stmt_obj s) (engine st)) st)"

definition turso_ffi_finalize :: "'e sdk \<Rightarrow> ptr \<Rightarrow> 'e sql_state \<Rightarrow> 'e rc" where
  "turso_ffi_finalize S p st =
     (case unregister_stmt p st of
        (False, st) \<Rightarrow> fail ''finalize: null or already finalized stmt'' st
      | (True, st) \<Rightarrow>
          and_then (deref_stmt p st) (\<lambda>s.
            case stmt_finalize S (stmt_obj s) (engine st) of
              (r, e) \<Rightarrow>
                let st = st\<lparr>stmt_boxes := hm_remove p (stmt_boxes st), engine := e\<rparr> in
                (case r of
                   Inr Done \<Rightarrow> Inr (TURSO_FFI_OK, clear_global_err st)
                 | Inr other \<Rightarrow>
                     and_then (report_err (stmt_db s) (''finalize status: '' @ status_text other) st)
                       (\<lambda>st. Inr (TURSO_FFI_ERR, st))
                 | Inl msg \<Rightarrow> and_then (report_err (stmt_db s) msg st) (\<lambda>st. Inr (TURSO_FFI_ERR, st)))))"

definition turso_ffi_errmsg :: "ptr \<Rightarrow> 'e sql_state \<Rightarrow> string res" where
  "turso_ffi_errmsg p st =
     (if is_live_db p st then and_then (deref_db p st) (\<lambda>d. Inr (errmsg_c d))
      else Inr (snd (last_global_err st)))"

definition turso_ffi_column_int :: "'e sdk \<Rightarrow> ptr \<Rightarrow> int \<Rightarrow> 'e sql_state \<Rightarrow> 'e rc" where
  "turso_ffi_column_int S p idx st =
     (if idx < 0 then Inr (0, set_global_err ''column_int: index must be >= 0'' st)
      else and_then (stmt_mut p st) (\<lambda>s.
        case s of
          None \<Rightarrow> Inr (0, set_global_err ''column_int: null/finalized stmt or closed db'' st)
        | Some s \<Rightarrow>
            (case row_value S (stmt_obj s) (nat idx) (engine st) of
               Inr (SqlInt v) \<Rightarrow> Inr (v, st)
             | Inr (SqlFloat v _) \<Rightarrow> Inr (v, st)
             | Inr _ \<Rightarrow>
                 and_then (if is_live_db (stmt_db s) st
                           then set_err_str (stmt_db s) ''column_int: value is not numeric'' st else Inr st)
                   (\<lambda>st. Inr (0, st))
             | Inl msg \<Rightarrow> and_then (report_err (stmt_db s) msg st) (\<lambda>st. Inr (0, st)))))"

text \<open>The text of a column value, or the message for a value that has none.\<close>

definition column_value_text :: "sql_value \<Rightarrow> string + string" where
  "column_value_text v =
     (case v of
        SqlText t \<Rightarrow> Inr t
      | SqlInt i \<Rightarrow> Inr (int_string i)
      | SqlFloat _ t \<Rightarrow> Inr t
      | SqlNull \<Rightarrow> Inl ''column_text: NULL''
      | _ \<Rightarrow> Inl ''column_text: unsupported type'')"

definition turso_ffi_column_text :: "'e sdk \<Rightarrow> ptr \<Rightarrow> int \<Rightarrow> 'e sql_state \<Rightarrow> (string \<times> 'e sql_state) res" where
  "turso_ffi_column_text S p idx st =
     (if idx < 0 then Inr ([], set_global_err ''column_text: index must be >= 0'' st)
      else and_then (stmt_mut p st) (\<lambda>s.
        case s of
          None \<Rightarrow> Inr ([], set_global_err ''column_text: null/finalized stmt or closed db'' st)
        | Some s \<Rightarrow>
            (case row_value S (stmt_obj s) (nat idx) (engine st) of
               Inl msg \<Rightarrow> and_then (report_err (stmt_db s) msg st) (\<lambda>st. Inr ([], st))
             | Inr v \<Rightarrow>
                 (case column_value_text v of
                    Inl msg \<Rightarrow>
                      and_then (if is_live_db (stmt_db s) st then set_err_str (stmt_db s) msg st else Inr st)
                        (\<lambda>st. Inr ([], st))
                  | Inr t \<Rightarrow>
                      if \<not> is_live_db (stmt_db s) st
                      then Inr ([], set_global_err ''column_text: parent db closed'' st)
                      else and_then (deref_db (stmt_db s) st) (\<lambda>d.
                        Inr (c_text t, put_db (stmt_db s) (d\<lparr>col_text_c := c_text t\<rparr>) st))))))"

end
