(* ===== verification/SqlSpec.thy ===== *)
theory SqlSpec
  imports SqlBridge
begin

text \<open>
  What the SQLite interface promises: whatever pointers Lua passes, no call dereferences a dead box,
  panics or loops; a pointer that is not live is refused and changes nothing; and what the registries
  cannot promise, because they know addresses only.
\<close>

subsection \<open>The invariant\<close>

declare map_of_eq_Some_iff [simp del] Some_eq_map_of_iff [simp del]

definition sql_inv :: "'e sql_state \<Rightarrow> bool" where
  "sql_inv st \<longleftrightarrow> set (live_dbs st) = fst ` set (db_boxes st) \<and> set (live_stmts st) = fst ` set (stmt_boxes st)
     \<and> distinct (live_addresses st) \<and> 0 \<notin> set (live_addresses st)"

lemma sql_inv_start: "sql_inv (sql_start e)"
  by (simp add: sql_inv_def sql_start_def live_addresses_def)

text \<open>Steps that leave the registries and the addresses alone.\<close>

definition same_boxes :: "'e sql_state \<Rightarrow> 'e sql_state \<Rightarrow> bool" where
  "same_boxes st st' \<longleftrightarrow> live_dbs st' = live_dbs st \<and> live_stmts st' = live_stmts st
     \<and> map fst (db_boxes st') = map fst (db_boxes st) \<and> stmt_boxes st' = stmt_boxes st"

named_theorems sql_same \<open>steps under \<open>same_boxes\<close>\<close>

lemma same_boxes_refl [sql_same]: "same_boxes st st"
  by (simp add: same_boxes_def)

lemma same_boxes_trans: "same_boxes a b \<Longrightarrow> same_boxes b c \<Longrightarrow> same_boxes a c"
  by (simp add: same_boxes_def)

lemma same_boxes_inv: "same_boxes st st' \<Longrightarrow> sql_inv st \<Longrightarrow> sql_inv st'"
proof -
  assume s: "same_boxes st st'" and i: "sql_inv st"
  have "fst ` set (db_boxes st') = fst ` set (db_boxes st)"
    using s unfolding same_boxes_def by (metis list.set_map)
  then show "sql_inv st'" using s i unfolding sql_inv_def live_addresses_def same_boxes_def by simp
qed

lemma same_boxes_live: "same_boxes st st' \<Longrightarrow> is_live_db p st' = is_live_db p st"
  by (simp add: same_boxes_def is_live_db_def)

lemma same_boxes_engine [sql_same]: "same_boxes st (st\<lparr>engine := e\<rparr>)"
  by (simp add: same_boxes_def)

lemma same_boxes_global [sql_same]: "same_boxes st (set_global_err msg st)" "same_boxes st (clear_global_err st)"
  by (simp_all add: same_boxes_def set_global_err_def clear_global_err_def)

lemma hm_upd_same_keys: "k \<in> fst ` set m \<Longrightarrow> map fst (hm_upd k f m) = map fst m"
  by (induction m) force+

lemma deref_live_db: "sql_inv st \<Longrightarrow> is_live_db p st \<Longrightarrow> \<exists>d. map_of (db_boxes st) p = Some d"
  unfolding sql_inv_def is_live_db_def by (metis map_of_eq_None_iff not_None_eq)

lemma same_boxes_put_db: "map_of (db_boxes st) p = Some d \<Longrightarrow> same_boxes st (put_db p d' st)"
  unfolding same_boxes_def put_db_def by (simp add: hm_upd_same_keys) (metis hm_upd_same_keys map_of_eq_None_iff option.distinct(1))

lemma set_err_str_live:
  assumes "sql_inv st" "is_live_db p st"
  shows "\<exists>st'. set_err_str p msg st = Inr st' \<and> same_boxes st st' \<and> engine st' = engine st
    \<and> turso_ffi_errmsg p st' = Inr (c_text msg)"
proof -
  obtain d where d: "map_of (db_boxes st) p = Some d" using deref_live_db [OF assms] by blast
  have "same_boxes st (put_db p (d\<lparr>errmsg := msg, errmsg_c := c_text msg\<rparr>) st)" by (rule same_boxes_put_db [OF d])
  then show ?thesis using d assms(2)
    by (simp add: set_err_str_def deref_db_def same_boxes_def set_global_err_def put_db_def turso_ffi_errmsg_def
        is_live_db_def hm_upd_lookup)
qed

lemma clear_err_live:
  assumes "sql_inv st" "is_live_db p st"
  shows "\<exists>st'. clear_err p st = Inr st' \<and> same_boxes st st' \<and> engine st' = engine st
    \<and> turso_ffi_errmsg p st' = Inr []"
proof -
  obtain d where d: "map_of (db_boxes st) p = Some d" using deref_live_db [OF assms] by blast
  have "same_boxes st (put_db p (d\<lparr>errmsg := [], errmsg_c := []\<rparr>) st)" by (rule same_boxes_put_db [OF d])
  then show ?thesis using d assms(2)
    by (simp add: clear_err_def deref_db_def same_boxes_def clear_global_err_def put_db_def turso_ffi_errmsg_def
        is_live_db_def hm_upd_lookup)
qed

lemma report_err_ok:
  assumes "sql_inv st"
  shows "\<exists>st'. report_err p msg st = Inr st' \<and> same_boxes st st'"
  using set_err_str_live [OF assms, of p msg] same_boxes_global(1) [of st msg] unfolding report_err_def by auto

lemma db_mut_ok: "sql_inv st \<Longrightarrow> \<exists>d. db_mut p st = Inr d \<and> (d \<noteq> None \<longleftrightarrow> is_live_db p st)"
  using deref_live_db [of st p] by (auto simp: db_mut_def deref_db_def)

lemma stmt_mut_ok:
  assumes "sql_inv st"
  shows "\<exists>s. stmt_mut p st = Inr s \<and> (s \<noteq> None \<longrightarrow> is_live_stmt p st \<and> is_live_db (stmt_db (the s)) st)"
proof (cases "is_live_stmt p st")
  case True
  then obtain s where "map_of (stmt_boxes st) p = Some s"
    using assms unfolding sql_inv_def is_live_stmt_def by (metis map_of_eq_None_iff not_None_eq)
  then show ?thesis using True by (simp add: stmt_mut_def deref_stmt_def)
next
  case False
  then show ?thesis by (simp add: stmt_mut_def)
qed

subsection \<open>The SQL loop ends\<close>

text \<open>\<open>prepare_first\<close> consumes at least one byte of the text and stops at a character boundary.\<close>

definition sdk_ok :: "'e sdk \<Rightarrow> bool" where
  "sdk_ok S \<longleftrightarrow> (\<forall>c s e k t e'. prepare_first S c s e = (Inr (Some (k, t)), e') \<longrightarrow>
     0 < t \<and> (t < length s \<longrightarrow> char_boundary s t))"

lemma exec_one_tail:
  assumes "sdk_ok S" "exec_one S c s e = (Inr (Some t), e')"
  shows "0 < t \<and> (t < length s \<longrightarrow> char_boundary s t)"
proof -
  have "\<exists>k e2. prepare_first S c s e = (Inr (Some (k, t)), e2)"
    using assms(2) unfolding exec_one_def
    by (auto split: prod.splits sum.splits option.splits if_splits status.splits)
  then show ?thesis using assms(1) unfolding sdk_ok_def by blast
qed

lemma exec_sql_returns:
  assumes "sdk_ok S"
  shows "\<exists>r e'. exec_sql S c s e = Some (Inr (r, e'))"
proof (induction "length s" arbitrary: s e rule: less_induct)
  case less
  obtain r e1 where one: "exec_one S c s e = (r, e1)" by (cases "exec_one S c s e")
  show ?case
  proof (cases "trim s = [] \<or> (\<forall>t. r \<noteq> Inr (Some t) \<or> length s \<le> t)")
    case True
    then show ?thesis using one
      by (subst exec_sql.simps) (auto split: sum.splits option.splits)
  next
    case False
    then obtain t where t: "r = Inr (Some t)" "t < length s" "trim s \<noteq> []" by auto
    then have "0 < t" "char_boundary s t" using exec_one_tail [OF assms] one by auto
    moreover have "length (drop t s) < length s" using t \<open>0 < t\<close> by simp
    then have "\<exists>r e'. exec_sql S c (drop t s) e1 = Some (Inr (r, e'))" by (rule less)
    ultimately show ?thesis using one t by (subst exec_sql.simps) simp
  qed
qed

subsection \<open>Every call returns\<close>

datatype sql_call =
    Open c_str bool
  | Close ptr
  | Exec ptr c_str
  | Prepare ptr c_str bool
  | BindInt ptr int int
  | BindText ptr int "string option" int
  | Step ptr
  | Reset ptr
  | Finalize ptr
  | Errmsg ptr
  | ColumnInt ptr int
  | ColumnText ptr int

datatype sql_ret = Code int | Out int "ptr option" | Txt string

definition code_of :: "'e rc \<Rightarrow> (sql_ret \<times> 'e sql_state) res" where
  "code_of r = and_then r (\<lambda>(c, st). Inr (Code c, st))"

definition out_of :: "'e rc_out \<Rightarrow> (sql_ret \<times> 'e sql_state) res" where
  "out_of r = and_then r (\<lambda>((c, p), st). Inr (Out c p, st))"

fun run_sql :: "'e sdk \<Rightarrow> allocator \<Rightarrow> sql_call \<Rightarrow> 'e sql_state \<Rightarrow> (sql_ret \<times> 'e sql_state) res" where
  "run_sql S alloc (Open path nul) st = out_of (turso_ffi_open S alloc path nul st)"
| "run_sql S alloc (Close p) st = code_of (turso_ffi_close S p st)"
| "run_sql S alloc (Exec p sql) st = code_of (turso_ffi_exec S p sql st)"
| "run_sql S alloc (Prepare p sql nul) st = out_of (turso_ffi_prepare S alloc p sql nul st)"
| "run_sql S alloc (BindInt p i v) st = code_of (turso_ffi_bind_int S p i v st)"
| "run_sql S alloc (BindText p i t n) st = code_of (turso_ffi_bind_text S p i t n st)"
| "run_sql S alloc (Step p) st = code_of (turso_ffi_step S p st)"
| "run_sql S alloc (Reset p) st = code_of (turso_ffi_reset S p st)"
| "run_sql S alloc (Finalize p) st = code_of (turso_ffi_finalize S p st)"
| "run_sql S alloc (Errmsg p) st = and_then (turso_ffi_errmsg p st) (\<lambda>s. Inr (Txt s, st))"
| "run_sql S alloc (ColumnInt p i) st = code_of (turso_ffi_column_int S p i st)"
| "run_sql S alloc (ColumnText p i) st = and_then (turso_ffi_column_text S p i st) (\<lambda>(s, st). Inr (Txt s, st))"

text \<open>The one obligation of the caller: \<open>text\<close> has \<open>len\<close> readable bytes.\<close>

fun well_called :: "sql_call \<Rightarrow> bool" where
  "well_called (BindText p i (Some bytes) n) = (n \<le> int (length bytes))"
| "well_called _ = True"

text \<open>A call returned a value and left the registries in order.\<close>

definition fine :: "('a \<times> 'e sql_state) res \<Rightarrow> bool" where
  "fine r \<longleftrightarrow> (case r of Inl _ \<Rightarrow> False | Inr (_, st) \<Rightarrow> sql_inv st)"

lemma fine_Inr [simp]: "fine (Inr (c, st)) = sql_inv st"
  by (simp add: fine_def)

lemma fine_code_of: "fine r \<Longrightarrow> fine (code_of r)" and fine_out_of: "fine r' \<Longrightarrow> fine (out_of r')"
  by (auto simp: fine_def code_of_def out_of_def split: sum.splits)

lemma fine_fail: "sql_inv st \<Longrightarrow> fine (fail msg st)"
  using same_boxes_inv [OF same_boxes_global(1)] by (simp add: fail_def)

lemma fine_report:
  assumes "sql_inv st"
  shows "fine (and_then (report_err p msg st) (\<lambda>st. Inr (c, st)))"
  using report_err_ok [OF assms, of p msg] same_boxes_inv assms by auto

lemma fine_set_err:
  assumes "sql_inv st" "is_live_db p st"
  shows "fine (and_then (set_err_str p msg st) (\<lambda>st. Inr (c, st)))"
  using set_err_str_live [OF assms, of msg] same_boxes_inv assms by auto

lemma sql_inv_engine [simp]: "sql_inv (st\<lparr>engine := e\<rparr>) = sql_inv st"
  by (simp add: sql_inv_def live_addresses_def)

lemma sql_inv_global [simp]: "sql_inv (set_global_err msg st) = sql_inv st" "sql_inv (clear_global_err st) = sql_inv st"
  by (simp_all add: sql_inv_def live_addresses_def set_global_err_def clear_global_err_def)

lemma is_live_db_engine [simp]: "is_live_db p (st\<lparr>engine := e\<rparr>) = is_live_db p st"
  by (simp add: is_live_db_def)

lemma fine_ok_or_report: "sql_inv st \<Longrightarrow> fine (ok_or_report p r st)"
  by (auto simp: ok_or_report_def fine_report split: prod.splits option.splits)

text \<open>Calls on a statement: refuse, or act on a live one.\<close>

lemma fine_stmt:
  assumes "sql_inv st" "fine (f None)"
    and "\<And>s. is_live_db (stmt_db s) st \<Longrightarrow> fine (f (Some s))"
  shows "fine (and_then (stmt_mut p st) f)"
proof -
  obtain s where "stmt_mut p st = Inr s" "s \<noteq> None \<longrightarrow> is_live_db (stmt_db (the s)) st"
    using stmt_mut_ok [OF assms(1), of p] by auto
  then show ?thesis using assms(2,3) by (cases s) auto
qed

lemma sql_inv_new_db:
  assumes "alloc_ok alloc" "sql_inv st"
  shows "sql_inv (register_db (alloc (live_addresses st)) (st\<lparr>db_boxes := (alloc (live_addresses st), d) # db_boxes st\<rparr>))"
  using assms unfolding alloc_ok_def sql_inv_def register_db_def live_addresses_def
  by (simp, metis Un_iff list.set_map set_append)

lemma sql_inv_new_stmt:
  assumes "alloc_ok alloc" "sql_inv st"
  shows "sql_inv (register_stmt (alloc (live_addresses st)) (st\<lparr>stmt_boxes := (alloc (live_addresses st), s) # stmt_boxes st\<rparr>))"
  using assms unfolding alloc_ok_def sql_inv_def register_stmt_def live_addresses_def
  by (simp, metis Un_iff list.set_map set_append)

lemma hm_remove_keys: "fst ` set (hm_remove k m) = fst ` set m - {k}"
  unfolding hm_remove_def by force

lemma sql_inv_free_db:
  "sql_inv st \<Longrightarrow> sql_inv (st\<lparr>live_dbs := removeAll p (live_dbs st), db_boxes := hm_remove p (db_boxes st)\<rparr>)"
  unfolding sql_inv_def live_addresses_def
  by (auto simp add: hm_remove_keys hm_remove_distinct)

lemma sql_inv_free_stmt:
  "sql_inv st \<Longrightarrow> sql_inv (st\<lparr>live_stmts := removeAll p (live_stmts st), stmt_boxes := hm_remove p (stmt_boxes st)\<rparr>)"
  unfolding sql_inv_def live_addresses_def
  by (auto simp add: hm_remove_keys hm_remove_distinct)

lemma fine_open: "alloc_ok alloc \<Longrightarrow> sql_inv st \<Longrightarrow> fine (turso_ffi_open S alloc path nul st)"
proof -
  assume a: "alloc_ok alloc" and i: "sql_inv st"
  have "sql_inv (register_db (alloc (live_addresses st)) ((clear_global_err (st\<lparr>engine := e\<rparr>))
      \<lparr>db_boxes := (alloc (live_addresses st), d) # db_boxes (clear_global_err (st\<lparr>engine := e\<rparr>))\<rparr>))" for e d
  proof -
    let ?s = "clear_global_err (st\<lparr>engine := e\<rparr>)"
    have "live_addresses ?s = live_addresses st" by (simp add: live_addresses_def clear_global_err_def)
    then show ?thesis using sql_inv_new_db [OF a, of ?s d] i by simp
  qed
  then show ?thesis using i by (auto simp: turso_ffi_open_def Let_def split: sum.splits prod.splits)
qed

lemma fine_close: "sql_inv st \<Longrightarrow> fine (turso_ffi_close S p st)"
proof -
  assume i: "sql_inv st"
  have f: "sql_inv (st\<lparr>live_dbs := removeAll p (live_dbs st), db_boxes := hm_remove p (db_boxes st), engine := e\<rparr>)" for e
    using sql_inv_free_db [OF i, of p] sql_inv_engine by force
  show ?thesis
  proof (cases "p \<in> set (live_dbs st)")
    case True
    then obtain d where "map_of (db_boxes st) p = Some d"
      using i unfolding sql_inv_def by (metis map_of_eq_None_iff not_None_eq)
    then show ?thesis using True f fine_fail [OF f]
      by (auto simp: turso_ffi_close_def unregister_db_def deref_db_def Let_def split: prod.splits option.splits)
  next
    case False
    then have "st\<lparr>live_dbs := removeAll p (live_dbs st)\<rparr> = st" by (simp add: removeAll_id)
    then show ?thesis using False fine_fail [OF i] by (simp add: turso_ffi_close_def unregister_db_def)
  qed
qed

lemma fine_finalize: "sql_inv st \<Longrightarrow> fine (turso_ffi_finalize S p st)"
proof -
  assume i: "sql_inv st"
  have f: "sql_inv (st\<lparr>live_stmts := removeAll p (live_stmts st), stmt_boxes := hm_remove p (stmt_boxes st), engine := e\<rparr>)" for e
    using sql_inv_free_stmt [OF i, of p] sql_inv_engine by force
  show ?thesis
  proof (cases "p \<in> set (live_stmts st)")
    case True
    then obtain s where "map_of (stmt_boxes st) p = Some s"
      using i unfolding sql_inv_def by (metis map_of_eq_None_iff not_None_eq)
    then show ?thesis using True f fine_report [OF f]
      by (auto simp: turso_ffi_finalize_def unregister_stmt_def deref_stmt_def Let_def
          split: prod.splits sum.splits status.splits)
  next
    case False
    then have "st\<lparr>live_stmts := removeAll p (live_stmts st)\<rparr> = st" by (simp add: removeAll_id)
    then show ?thesis using False fine_fail [OF i] by (simp add: turso_ffi_finalize_def unregister_stmt_def)
  qed
qed

lemma fine_clear:
  assumes "sql_inv st" "is_live_db p st"
  shows "\<exists>st'. clear_err p st = Inr st' \<and> sql_inv st' \<and> same_boxes st st'"
  using clear_err_live [OF assms] same_boxes_inv assms(1) by blast

lemma fine_exec:
  assumes "sdk_ok S" "sql_inv st"
  shows "fine (turso_ffi_exec S p sql st)"
proof -
  obtain db where m: "db_mut p st = Inr db" "db \<noteq> None \<longleftrightarrow> is_live_db p st" using db_mut_ok [OF assms(2)] by blast
  show ?thesis
  proof (cases db)
    case None
    then show ?thesis using m fine_fail [OF assms(2)] by (simp add: turso_ffi_exec_def)
  next
    case (Some d)
    then have live: "is_live_db p st" using m by simp
    show ?thesis
    proof (cases "cstr_to_str S sql")
      case (Inl msg)
      then show ?thesis using m Some fine_set_err [OF assms(2) live] by (simp add: turso_ffi_exec_def)
    next
      case (Inr q)
      obtain r e where x: "exec_sql S (conn d) q (engine st) = Some (Inr (r, e))"
        using exec_sql_returns [OF assms(1)] by blast
      let ?st = "st\<lparr>engine := e\<rparr>"
      have "sql_inv ?st" "is_live_db p ?st" using assms(2) live by simp_all
      then show ?thesis using m Some Inr x fine_set_err [of ?st p] fine_clear [of ?st p]
        by (cases r) (auto simp: turso_ffi_exec_def)
    qed
  qed
qed

lemma fine_prepare:
  assumes "alloc_ok alloc" "sql_inv st"
  shows "fine (turso_ffi_prepare S alloc p sql nul st)"
proof -
  obtain db where m: "db_mut p st = Inr db" "db \<noteq> None \<longleftrightarrow> is_live_db p st" using db_mut_ok [OF assms(2)] by blast
  show ?thesis
  proof (cases "nul \<or> db = None")
    case True
    then show ?thesis using m assms(2) by (auto simp: turso_ffi_prepare_def)
  next
    case False
    then obtain d where d: "db = Some d" and live: "is_live_db p st" using m by auto
    show ?thesis
    proof (cases "cstr_to_str S sql")
      case (Inl msg)
      then show ?thesis using m False d fine_set_err [OF assms(2) live] by (simp add: turso_ffi_prepare_def)
    next
      case (Inr q)
      obtain r e where x: "prepare_single S (conn d) q (engine st) = (r, e)" by (cases "prepare_single S (conn d) q (engine st)")
      let ?st = "st\<lparr>engine := e\<rparr>"
      have i: "sql_inv ?st" "is_live_db p ?st" using assms(2) live by simp_all
      show ?thesis
      proof (cases r)
        case (Inl msg)
        then show ?thesis using m False d Inr x fine_set_err [OF i] by (simp add: turso_ffi_prepare_def)
      next
        case r: (Inr s)
        obtain st' where "clear_err p ?st = Inr st'" "sql_inv st'" using fine_clear [OF i] by blast
        then show ?thesis using m False d Inr x r sql_inv_new_stmt [OF assms(1)]
          by (simp add: turso_ffi_prepare_def Let_def)
      qed
    qed
  qed
qed

lemma fine_bind_int: "sql_inv st \<Longrightarrow> fine (turso_ffi_bind_int S p i v st)"
  unfolding turso_ffi_bind_int_def by (auto intro!: fine_stmt fine_ok_or_report simp: fine_fail)

lemma fine_bind_text:
  assumes "sql_inv st" "case t of Some bytes \<Rightarrow> n \<le> int (length bytes) | None \<Rightarrow> True"
  shows "fine (turso_ffi_bind_text S p i t n st)"
proof (cases "\<exists>bytes. t = Some bytes \<and> 0 < i")
  case False
  then show ?thesis using fine_fail [OF assms(1)]
    by (auto simp: turso_ffi_bind_text_def split: option.splits)
next
  case True
  then obtain bytes where t: "t = Some bytes" "0 < i" by blast
  then have "\<exists>arg. text_arg S bytes n = Inr arg" using assms(2) by (auto simp: text_arg_def Let_def)
  then obtain arg where arg: "text_arg S bytes n = Inr arg" by blast
  show ?thesis using t arg fine_fail [OF assms(1)] fine_report [OF assms(1)]
    by (cases arg) (auto simp: turso_ffi_bind_text_def intro!: fine_stmt [OF assms(1)] fine_ok_or_report [OF assms(1)])
qed

lemma fine_step: "sql_inv st \<Longrightarrow> fine (turso_ffi_step S p st)"
  unfolding turso_ffi_step_def
  by (intro fine_stmt) (auto simp: fine_fail Let_def fine_report split: prod.splits sum.splits status.splits)

lemma fine_reset: "sql_inv st \<Longrightarrow> fine (turso_ffi_reset S p st)"
  unfolding turso_ffi_reset_def by (intro fine_stmt) (auto simp: fine_fail fine_ok_or_report)

lemma fine_errmsg: "sql_inv st \<Longrightarrow> \<exists>s. turso_ffi_errmsg p st = Inr s"
  using deref_live_db [of st p] by (auto simp: turso_ffi_errmsg_def deref_db_def)

lemma fine_column_int: "sql_inv st \<Longrightarrow> fine (turso_ffi_column_int S p i st)"
  unfolding turso_ffi_column_int_def
  by (auto intro!: fine_stmt simp: fine_report fine_set_err split: sum.splits sql_value.splits)

lemma fine_put_db:
  "sql_inv st \<Longrightarrow> is_live_db p st \<Longrightarrow> fine (and_then (deref_db p st) (\<lambda>d. Inr (t, put_db p (f d) st)))"
  using deref_live_db [of st p] same_boxes_put_db same_boxes_inv by (fastforce simp: deref_db_def)

lemma fine_column_text: "sql_inv st \<Longrightarrow> fine (turso_ffi_column_text S p i st)"
  unfolding turso_ffi_column_text_def
  by (auto intro!: fine_stmt simp: fine_report fine_set_err fine_put_db split: sum.splits)

lemma run_sql_fine:
  assumes "alloc_ok alloc" "sdk_ok S" "sql_inv st" "well_called c"
  shows "fine (run_sql S alloc c st)"
proof (cases c)
  case (BindText p i t n)
  have "fine (turso_ffi_bind_text S p i t n st)"
    by (rule fine_bind_text [OF assms(3)]) (use assms(4) BindText in \<open>auto split: option.splits\<close>)
  then show ?thesis using BindText by (simp add: fine_code_of)
next
  case (Errmsg p)
  then show ?thesis using fine_errmsg [OF assms(3), of p] assms(3) by auto
next
  case (ColumnText p i)
  have "fine (turso_ffi_column_text S p i st)" by (rule fine_column_text [OF assms(3)])
  then show ?thesis using ColumnText by (auto simp: fine_def split: sum.splits)
qed (simp_all add: assms fine_code_of fine_out_of fine_open fine_close fine_exec fine_prepare fine_bind_int
    fine_step fine_reset fine_finalize fine_column_int)

definition run_session :: "'e sdk \<Rightarrow> allocator \<Rightarrow> sql_call list \<Rightarrow> 'e sql_state \<Rightarrow> 'e sql_state res" where
  "run_session S alloc = fold_res (\<lambda>c st. and_then (run_sql S alloc c st) (\<lambda>(_, st). Inr st))"

text \<open>C37. From start-up on, every sequence of calls with arbitrary pointers (null, closed, finalised,
  foreign) returns: no dead box is dereferenced or freed again, nothing panics, the statement loop ends,
  and the registries keep naming exactly the live boxes.\<close>

theorem sql_calls_return:
  assumes "alloc_ok alloc" "sdk_ok S" "list_all well_called cs"
  shows "\<exists>st. run_session S alloc cs (sql_start e) = Inr st \<and> sql_inv st"
proof -
  have step: "\<exists>st'. run_session S alloc cs st = Inr st' \<and> sql_inv st'" if "sql_inv st" for st
    using assms(3) that
  proof (induction cs arbitrary: st)
    case Nil
    then show ?case by (simp add: run_session_def)
  next
    case (Cons c cs)
    have "well_called c" "list_all well_called cs" using Cons.prems(1) by simp_all
    have "fine (run_sql S alloc c st)" by (rule run_sql_fine [OF assms(1,2) Cons.prems(2) \<open>well_called c\<close>])
    then obtain r st1 where r: "run_sql S alloc c st = Inr (r, st1)" "sql_inv st1"
      unfolding fine_def by (cases "run_sql S alloc c st") auto
    have "run_session S alloc (c # cs) st = run_session S alloc cs st1"
      unfolding run_session_def fold_res.simps r(1) by simp
    then show ?case using Cons.IH [OF \<open>list_all well_called cs\<close> r(2)] by simp
  qed
  show ?thesis by (rule step [OF sql_inv_start])
qed

text \<open>
  An engine for concrete runs: it accepts everything, a connection is number 0, a statement 1, every
  step yields a row whose columns hold 7, and it counts the calls.
\<close>

definition demo_sdk :: "nat sdk" where
  "demo_sdk = \<lparr>db_open = (\<lambda>_ e. (OpenDone 0, Suc e)), db_connect = (\<lambda>_ e. (Inr 0, Suc e)),
     conn_close = (\<lambda>_ e. (None, Suc e)), prepare_first = (\<lambda>_ s e. (Inr (Some (1, length s)), Suc e)),
     prepare_single = (\<lambda>_ _ e. (Inr 1, Suc e)), stmt_execute = (\<lambda>_ e. (Inr Done, Suc e)),
     stmt_finalize = (\<lambda>_ e. (Inr Done, Suc e)), bind_positional = (\<lambda>_ _ _ e. (None, Suc e)),
     stmt_step = (\<lambda>_ e. (Inr Row, Suc e)), stmt_reset = (\<lambda>_ e. (None, Suc e)),
     row_value = (\<lambda>_ _ _. Inr (SqlInt 7)), utf8_error = (\<lambda>_. ''invalid utf-8'')\<rparr>"

definition eager_sdk :: "nat sdk" where
  "eager_sdk = demo_sdk\<lparr>prepare_first := (\<lambda>_ s e. (Inr (Some (1, Suc (length s))), Suc e))\<rparr>"

lemma sdk_ok_eager: "sdk_ok eager_sdk"
  by (simp add: sdk_ok_def eager_sdk_def)

theorem sql_calls_return_witness:
  "\<exists>st. run_session eager_sdk reuse_alloc [Open (Some ''a.db'') False, Prepare 1 (Some ''x'') False, Step 2, Close 1,
      Step 2, BindText 2 1 (Some ''abc'') 2, Finalize 2, Finalize 2, Close 1] (sql_start 0) = Inr st"
proof -
  have "list_all well_called [Open (Some ''a.db'') False, Prepare 1 (Some ''x'') False, Step 2, Close 1,
      Step 2, BindText 2 1 (Some ''abc'') 2, Finalize 2, Finalize 2, Close 1]" by simp
  from sql_calls_return [OF alloc_ok_reuse sdk_ok_eager this, of 0] show ?thesis by blast
qed

subsection \<open>Dead pointers are refused\<close>

text \<open>What a call returns when it refuses its pointer; of the state only the global error slot changes.\<close>

fun refusal :: "sql_call \<Rightarrow> sql_ret" where
  "refusal (ColumnInt p i) = Code 0"
| "refusal (ColumnText p i) = Txt []"
| "refusal (Prepare p sql nul) = Out TURSO_FFI_ERR (if nul then None else Some 0)"
| "refusal _ = Code TURSO_FFI_ERR"

definition refused :: "'e sdk \<Rightarrow> allocator \<Rightarrow> sql_call \<Rightarrow> 'e sql_state \<Rightarrow> bool" where
  "refused S alloc c st \<longleftrightarrow> (\<exists>msg. msg \<noteq> [] \<and> run_sql S alloc c st = Inr (refusal c, set_global_err msg st))"

fun on_stmt :: "sql_call \<Rightarrow> ptr option" where
  "on_stmt (BindInt p i v) = Some p"
| "on_stmt (BindText p i t n) = Some p"
| "on_stmt (Step p) = Some p"
| "on_stmt (Reset p) = Some p"
| "on_stmt (ColumnInt p i) = Some p"
| "on_stmt (ColumnText p i) = Some p"
| "on_stmt _ = None"

text \<open>A statement that must not be used: null, never opened or finalised, or its database is not open.\<close>

definition dead_stmt :: "ptr \<Rightarrow> 'e sql_state \<Rightarrow> bool" where
  "dead_stmt p st \<longleftrightarrow> p = 0 \<or> p \<notin> set (live_stmts st)
     \<or> (\<exists>s. map_of (stmt_boxes st) p = Some s \<and> (stmt_db s = 0 \<or> stmt_db s \<notin> set (live_dbs st)))"

lemma stmt_mut_dead: "dead_stmt p st \<Longrightarrow> stmt_mut p st = Inr None"
  by (auto simp: dead_stmt_def stmt_mut_def is_live_stmt_def is_live_db_def deref_stmt_def)

lemma dead_stmt_refused:
  assumes "on_stmt c = Some p" "dead_stmt p st"
  shows "refused S alloc c st"
  using assms(1) stmt_mut_dead [OF assms(2)]
  by (cases c) (auto simp: refused_def code_of_def turso_ffi_bind_int_def turso_ffi_bind_text_def turso_ffi_step_def
      turso_ffi_reset_def turso_ffi_column_int_def turso_ffi_column_text_def fail_def split: option.splits)

lemma dead_db_refused:
  assumes "p \<notin> set (live_dbs st)" "c \<in> {Close p, Exec p sql, Prepare p sql nul}"
  shows "refused S alloc c st"
proof -
  have "st\<lparr>live_dbs := removeAll p (live_dbs st)\<rparr> = st" using assms(1) by (simp add: removeAll_id)
  moreover have "db_mut p st = Inr None" using assms(1) by (simp add: db_mut_def is_live_db_def)
  ultimately show ?thesis using assms
    by (auto simp: refused_def code_of_def out_of_def turso_ffi_close_def unregister_db_def turso_ffi_exec_def
        turso_ffi_prepare_def fail_def)
qed

lemma finalized_refused:
  assumes "p \<notin> set (live_stmts st)"
  shows "refused S alloc (Finalize p) st"
proof -
  have "st\<lparr>live_stmts := removeAll p (live_stmts st)\<rparr> = st" using assms by (simp add: removeAll_id)
  then show ?thesis using assms
    by (auto simp: refused_def code_of_def turso_ffi_finalize_def unregister_stmt_def fail_def)
qed

text \<open>What closing and finalising leave behind.\<close>

lemma close_effect:
  assumes "run_sql S alloc (Close d) st = Inr (r, st')"
  shows "live_dbs st' = removeAll d (live_dbs st) \<and> stmt_boxes st' = stmt_boxes st"
  using assms
  by (auto simp: code_of_def turso_ffi_close_def unregister_db_def res_simps Let_def split: bool.split_asm)
     (auto simp: fail_def set_global_err_def clear_global_err_def split: prod.split_asm option.split_asm)

lemma report_err_stmts: "report_err d msg st = Inr st' \<Longrightarrow> live_stmts st' = live_stmts st"
  by (auto simp: report_err_def set_err_str_def set_global_err_def put_db_def res_simps split: if_splits)

lemma finalize_effect:
  assumes "run_sql S alloc (Finalize p) st = Inr (r, st')"
  shows "live_stmts st' = removeAll p (live_stmts st)"
  using assms
  by (auto simp: code_of_def turso_ffi_finalize_def unregister_stmt_def res_simps Let_def split: bool.split_asm)
     (auto simp: fail_def res_simps set_global_err_def clear_global_err_def dest!: report_err_stmts
       split: prod.split_asm sum.split_asm status.split_asm)

text \<open>C38. A statement call is refused if the statement is null, was never opened, is finalised, or belongs to a
  database that is not open; a second finalisation is refused too, and so is every database call on a
  database that is not open. Refusing reports an error in the global slot and touches no database,
  statement or engine. Right after a database is closed all calls on its statements are refused, and
  after a statement is finalised all calls on it. (Finalising a statement of a closed database is
  accepted, it frees the box; and the refusal lasts until the allocator reuses the address, see
  below.)\<close>

theorem dead_pointer_refused:
  "(\<forall>c p. on_stmt c = Some p \<and> dead_stmt p st \<longrightarrow> refused S alloc c st)
    \<and> (\<forall>p. p \<notin> set (live_stmts st) \<longrightarrow> refused S alloc (Finalize p) st)
    \<and> (\<forall>p sql nul. p \<notin> set (live_dbs st) \<longrightarrow> refused S alloc (Close p) st
         \<and> refused S alloc (Exec p sql) st \<and> refused S alloc (Prepare p sql nul) st)
    \<and> (\<forall>d r st'. run_sql S alloc (Close d) st = Inr (r, st') \<longrightarrow>
         refused S alloc (Close d) st' \<and> (\<forall>p s c. map_of (stmt_boxes st) p = Some s \<and> stmt_db s = d
           \<and> on_stmt c = Some p \<longrightarrow> refused S alloc c st'))
    \<and> (\<forall>p r st'. run_sql S alloc (Finalize p) st = Inr (r, st') \<longrightarrow>
         refused S alloc (Finalize p) st' \<and> (\<forall>c. on_stmt c = Some p \<longrightarrow> refused S alloc c st'))"
proof (intro conjI allI impI)
  fix d r st' p s c
  assume "run_sql S alloc (Close d) st = Inr (r, st')"
  note e = close_effect [OF this]
  then show "refused S alloc (Close d) st'" by (intro dead_db_refused) auto
  assume "map_of (stmt_boxes st) p = Some s \<and> stmt_db s = d \<and> on_stmt c = Some p"
  then show "refused S alloc c st'" using e by (intro dead_stmt_refused [of c p]) (auto simp: dead_stmt_def)
next
  fix p r st' c
  assume "run_sql S alloc (Finalize p) st = Inr (r, st')"
  note e = finalize_effect [OF this]
  then show "refused S alloc (Finalize p) st'" by (intro finalized_refused) simp
  assume "on_stmt c = Some p"
  then show "refused S alloc c st'" using e by (intro dead_stmt_refused [of c p]) (auto simp: dead_stmt_def)
qed (auto intro: dead_stmt_refused finalized_refused dead_db_refused)

lemmas demo_run_simps = run_session_def run_sql.simps code_of_def out_of_def turso_ffi_open_def turso_ffi_prepare_def
  turso_ffi_close_def turso_ffi_step_def cstr_to_str_def demo_sdk_def open_db_def sql_start_def
  live_addresses_def reuse_alloc_def register_db_def unregister_db_def register_stmt_def deref_db_def
  clear_global_err_def clear_err_def put_db_def db_mut_def is_live_db_def stmt_mut_def is_live_stmt_def
  deref_stmt_def hm_remove_def Let_def List.insert_def numeral_2_eq_2

theorem dead_pointer_refused_witness:
  "\<exists>st r st'. run_session demo_sdk reuse_alloc [Open (Some ''a.db'') False, Prepare 1 (Some ''x'') False] (sql_start 0) = Inr st
    \<and> run_sql demo_sdk reuse_alloc (Close 1) st = Inr (r, st')
    \<and> live_stmts st' = [2] \<and> refused demo_sdk reuse_alloc (Step 2) st'"
proof -
  have utf: "utf8_valid ''a.db''" "utf8_valid ''x''" by (simp_all add: utf8_valid_ascii)
  have run: "\<exists>st. run_session demo_sdk reuse_alloc [Open (Some ''a.db'') False, Prepare 1 (Some ''x'') False]
      (sql_start 0) = Inr st \<and> live_stmts st = [2] \<and> map_of (stmt_boxes st) 2 = Some \<lparr>stmt_db = 1, stmt_obj = 1\<rparr>
      \<and> (\<exists>r st'. run_sql demo_sdk reuse_alloc (Close 1) st = Inr (r, st') \<and> live_stmts st' = [2])"
    by (simp add: demo_run_simps utf)
  then obtain st r st' where s: "run_session demo_sdk reuse_alloc [Open (Some ''a.db'') False,
      Prepare 1 (Some ''x'') False] (sql_start 0) = Inr st"
    "map_of (stmt_boxes st) 2 = Some \<lparr>stmt_db = 1, stmt_obj = 1\<rparr>"
    "run_sql demo_sdk reuse_alloc (Close 1) st = Inr (r, st')" "live_stmts st' = [2]" by blast
  have "stmt_db \<lparr>stmt_db = 1, stmt_obj = 1\<rparr> = 1" "on_stmt (Step 2) = Some 2" by simp_all
  then have "refused demo_sdk reuse_alloc (Step 2) st'"
    using dead_pointer_refused [of st demo_sdk reuse_alloc] s by blast
  then show ?thesis using s by blast
qed

subsection \<open>What addresses cannot tell\<close>

text \<open>The registries know addresses, not allocations: after a database is closed and another one is
  opened at the same address, a statement of the closed database is accepted again and steps.\<close>

theorem stale_statement_accepted:
  "\<exists>st. run_session demo_sdk reuse_alloc [Open (Some ''a.db'') False, Prepare 1 (Some ''x'') False, Close 1,
      Open (Some ''b.db'') False] (sql_start 0) = Inr st
    \<and> (\<exists>st'. turso_ffi_step demo_sdk 2 st = Inr (TURSO_FFI_ROW, st'))"
proof -
  have utf: "utf8_valid ''a.db''" "utf8_valid ''b.db''" "utf8_valid ''x''" by (simp_all add: utf8_valid_ascii)
  show ?thesis
    by (simp add: demo_run_simps utf)
qed

text \<open>A bad index is reported in the global slot only, so the live database still shows its last message.\<close>

lemma bind_index_error_hidden:
  "sql_inv st \<Longrightarrow> is_live_db d st \<Longrightarrow> i \<le> 0 \<Longrightarrow>
   \<exists>st'. turso_ffi_bind_int S p i v st = Inr (TURSO_FFI_ERR, st') \<and> turso_ffi_errmsg d st' = turso_ffi_errmsg d st"
  by (simp add: turso_ffi_bind_int_def fail_def turso_ffi_errmsg_def is_live_db_def set_global_err_def deref_db_def)

end
