(* ===== verification/BundleCrypto.thy ===== *)
theory BundleCrypto
  imports Text
begin

text \<open>
  \<^verbatim>\<open>utils/bundle_crypto.rs\<close>: the AES-256-GCM envelope \<open>VLBC | ver | nonce | tag | ciphertext\<close> around
  bundled bytecode, with its C interface. AES-GCM and SHA-256 are parameters; the random nonce of a
  sealing is an argument.
\<close>

subsection \<open>The cipher\<close>

type_synonym bytes = "u8 list"

record aead =
  encrypt :: "bytes \<Rightarrow> bytes \<Rightarrow> bytes \<Rightarrow> bytes \<times> bytes"
  decrypt :: "bytes \<Rightarrow> bytes \<Rightarrow> bytes \<Rightarrow> bytes \<Rightarrow> bytes option"
  sha256 :: "bytes \<Rightarrow> bytes"

text \<open>
  What GCM guarantees of detached encryption \<open>(tag, body)\<close>: sizes, that decryption inverts it, and that
  a tag verifies only for the body it was computed from (the key stream is a bijection on bodies).
\<close>

definition aead_ok :: "aead \<Rightarrow> bool" where
  "aead_ok A \<longleftrightarrow>
     (\<forall>k n p. length (fst (encrypt A k n p)) = 16 \<and> length (snd (encrypt A k n p)) = length p
        \<and> decrypt A k n (fst (encrypt A k n p)) (snd (encrypt A k n p)) = Some p)
     \<and> (\<forall>k n t c p. length t = 16 \<and> decrypt A k n t c = Some p \<longrightarrow> encrypt A k n p = (t, c))
     \<and> (\<forall>m. length (sha256 A m) = 32)"

subsection \<open>Envelope\<close>

definition MAGIC :: bytes where "MAGIC = [0x56, 0x4C, 0x42, 0x43]"
definition VERSION :: u8 where "VERSION = 1"
definition NONCE_LEN :: nat where "NONCE_LEN = 12"
definition TAG_LEN :: nat where "TAG_LEN = 16"
definition HEADER_LEN :: nat where "HEADER_LEN = 4 + 1 + NONCE_LEN + TAG_LEN"

definition VL_BUNDLE_OK :: int where "VL_BUNDLE_OK = 0"
definition VL_BUNDLE_ERR_NO_KEY :: int where "VL_BUNDLE_ERR_NO_KEY = - 1"
definition VL_BUNDLE_ERR_ARGS :: int where "VL_BUNDLE_ERR_ARGS = - 2"
definition VL_BUNDLE_ERR_BUF :: int where "VL_BUNDLE_ERR_BUF = - 3"
definition VL_BUNDLE_ERR_FORMAT :: int where "VL_BUNDLE_ERR_FORMAT = - 4"
definition VL_BUNDLE_ERR_AUTH :: int where "VL_BUNDLE_ERR_AUTH = - 5"

lemmas bundle_consts = MAGIC_def VERSION_def NONCE_LEN_def TAG_LEN_def HEADER_LEN_def VL_BUNDLE_OK_def
  VL_BUNDLE_ERR_NO_KEY_def VL_BUNDLE_ERR_ARGS_def VL_BUNDLE_ERR_BUF_def VL_BUNDLE_ERR_FORMAT_def
  VL_BUNDLE_ERR_AUTH_def

definition sealed_len :: "nat \<Rightarrow> nat" where
  "sealed_len plain_len = HEADER_LEN + plain_len"

text \<open>\<open>u8::from_str_radix\<close> of two characters, base 16.\<close>

definition u8_from_hex :: "char \<Rightarrow> char \<Rightarrow> u8 option" where
  "u8_from_hex a b =
     (case hex_value b of
        None \<Rightarrow> None
      | Some y \<Rightarrow>
          if a = CHR ''+'' then Some (of_nat y)
          else (case hex_value a of None \<Rightarrow> None | Some x \<Rightarrow> Some (of_nat (16 * x + y))))"

fun parse_raw_hex64 :: "string \<Rightarrow> string + bytes" where
  "parse_raw_hex64 (a # b # r) =
     (case u8_from_hex a b of
        None \<Rightarrow> Inl ''VL_BUNDLE_KEY_HEX raw key must be hexadecimal''
      | Some x \<Rightarrow> (case parse_raw_hex64 r of Inl e \<Rightarrow> Inl e | Inr xs \<Rightarrow> Inr (x # xs)))"
| "parse_raw_hex64 _ = Inr []"

definition bytes_of :: "string \<Rightarrow> bytes" where
  "bytes_of s = map (\<lambda>c. of_nat (of_char c)) s"

definition parse_key_material :: "aead \<Rightarrow> string \<Rightarrow> string + bytes" where
  "parse_key_material A input =
     (let input = trim input in
      if input = [] then Inl ''VL_BUNDLE_KEY_HEX is empty''
      else if length input = 64 \<and> list_all (\<lambda>c. hex_value c \<noteq> None) input then parse_raw_hex64 input
      else Inr (sha256 A (bytes_of input)))"

text \<open>The build's \<open>VL_BUNDLE_KEY_HEX\<close>, if it was set.\<close>

definition compiled_key :: "aead \<Rightarrow> string option \<Rightarrow> bytes option res" where
  "compiled_key A env_key =
     (case env_key of
        None \<Rightarrow> Inr None
      | Some raw \<Rightarrow>
          (case parse_key_material A raw of
             Inl e \<Rightarrow> Inl (Panic (''invalid VL_BUNDLE_KEY_HEX: '' @ e))
           | Inr k \<Rightarrow> Inr (Some k)))"

definition seal_with_key :: "aead \<Rightarrow> bytes \<Rightarrow> bytes \<Rightarrow> bytes \<Rightarrow> bytes" where
  "seal_with_key A key nonce plain =
     (let (tag, body) = encrypt A key nonce plain in MAGIC @ [VERSION] @ nonce @ tag @ body)"

definition slice :: "nat \<Rightarrow> nat \<Rightarrow> 'a list \<Rightarrow> 'a list" where
  "slice i j xs = drop i (take j xs)"

definition unseal_with_key :: "aead \<Rightarrow> bytes \<Rightarrow> bytes \<Rightarrow> int + bytes" where
  "unseal_with_key A key blob =
     (if length blob < HEADER_LEN then Inl VL_BUNDLE_ERR_FORMAT
      else if slice 0 4 blob \<noteq> MAGIC then Inl VL_BUNDLE_ERR_FORMAT
      else if blob ! 4 \<noteq> VERSION then Inl VL_BUNDLE_ERR_FORMAT
      else let nonce = slice 5 (5 + NONCE_LEN) blob;
               tag = slice (5 + NONCE_LEN) (5 + NONCE_LEN + TAG_LEN) blob;
               body = drop HEADER_LEN blob
           in case decrypt A key nonce tag body of
                None \<Rightarrow> Inl VL_BUNDLE_ERR_AUTH
              | Some plain \<Rightarrow> Inr plain)"

subsection \<open>C interface\<close>

text \<open>
  The out parameters: the caller's buffer (\<open>None\<close>: NULL) with its present content, and the length
  variable (\<open>None\<close>: NULL) with its present value. An input pointer is the bytes readable behind it.
\<close>

record out_params =
  out_buf :: "bytes option"
  out_len :: "nat option"

definition copy_out :: "bytes \<Rightarrow> nat \<Rightarrow> out_params \<Rightarrow> (int \<times> out_params) res" where
  "copy_out src output_cap out =
     (case out_len out of
        None \<Rightarrow> Inr (VL_BUNDLE_ERR_ARGS, out)
      | Some _ \<Rightarrow>
          let out = out\<lparr>out_len := Some (length src)\<rparr> in
          (case out_buf out of
             None \<Rightarrow> Inr (VL_BUNDLE_ERR_ARGS, out)
           | Some buf \<Rightarrow>
               if output_cap < length src then Inr (VL_BUNDLE_ERR_BUF, out)
               else if length buf < length src then Inl (Undefined ''write past the buffer'')
               else Inr (VL_BUNDLE_OK, out\<lparr>out_buf := Some (src @ drop (length src) buf)\<rparr>)))"

definition read_input :: "bytes \<Rightarrow> nat \<Rightarrow> bytes res" where
  "read_input input input_len =
     (if length input < input_len then Inl (Undefined ''from_raw_parts past the buffer'')
      else Inr (take input_len input))"

definition vl_bundle_seal ::
  "aead \<Rightarrow> string option \<Rightarrow> bytes \<Rightarrow> bytes option \<Rightarrow> nat \<Rightarrow> nat \<Rightarrow> out_params \<Rightarrow> (int \<times> out_params) res" where
  "vl_bundle_seal A env_key nonce input input_len output_cap out =
     and_then (compiled_key A env_key) (\<lambda>key.
       case key of
         None \<Rightarrow> Inr (VL_BUNDLE_ERR_NO_KEY, out)
       | Some key \<Rightarrow>
           if input = None \<and> input_len \<noteq> 0 then Inr (VL_BUNDLE_ERR_ARGS, out)
           else and_then (if input_len = 0 then Inr [] else read_input (case input of Some b \<Rightarrow> b | None \<Rightarrow> []) input_len)
             (\<lambda>plain. copy_out (seal_with_key A key nonce plain) output_cap out))"

definition vl_bundle_unseal ::
  "aead \<Rightarrow> string option \<Rightarrow> bytes option \<Rightarrow> nat \<Rightarrow> nat \<Rightarrow> out_params \<Rightarrow> (int \<times> out_params) res" where
  "vl_bundle_unseal A env_key input input_len output_cap out =
     and_then (compiled_key A env_key) (\<lambda>key.
       case key of
         None \<Rightarrow> Inr (VL_BUNDLE_ERR_NO_KEY, out)
       | Some key \<Rightarrow>
           (case input of
              None \<Rightarrow> Inr (VL_BUNDLE_ERR_ARGS, out)
            | Some bytes \<Rightarrow>
                if input_len = 0 then Inr (VL_BUNDLE_ERR_ARGS, out)
                else and_then (read_input bytes input_len) (\<lambda>blob.
                  case unseal_with_key A key blob of
                    Inr plain \<Rightarrow> copy_out plain output_cap out
                  | Inl code \<Rightarrow> Inr (code, out))))"

subsection \<open>Sealing and unsealing\<close>

lemma encrypt_cases:
  assumes "aead_ok A"
  obtains t c where "encrypt A k n p = (t, c)" "length t = 16" "length c = length p" "decrypt A k n t c = Some p"
proof (cases "encrypt A k n p")
  case (Pair t c)
  have "length (fst (encrypt A k n p)) = 16" "length (snd (encrypt A k n p)) = length p"
      "decrypt A k n (fst (encrypt A k n p)) (snd (encrypt A k n p)) = Some p"
    using assms unfolding aead_ok_def by blast+
  then show ?thesis using Pair that [of t c] by simp
qed

lemma sealed_length:
  "aead_ok A \<Longrightarrow> length n = NONCE_LEN \<Longrightarrow> length (seal_with_key A k n p) = sealed_len (length p)"
  by (rule encrypt_cases [of A k n p]) (simp_all add: seal_with_key_def sealed_len_def bundle_consts)

lemma unseal_seal:
  assumes "aead_ok A" "length n = NONCE_LEN"
  shows "unseal_with_key A k (seal_with_key A k n p) = Inr p"
proof (rule encrypt_cases [OF assms(1), of k n p])
  fix t c
  assume e: "encrypt A k n p = (t, c)" "length t = 16" "length c = length p" "decrypt A k n t c = Some p"
  let ?b = "MAGIC @ [VERSION] @ n @ t @ c"
  have n: "length n = 12" using assms(2) by (simp add: NONCE_LEN_def)
  have "slice 0 4 ?b = MAGIC" "?b ! 4 = VERSION" by (simp_all add: slice_def MAGIC_def)
  moreover have "slice 5 17 ?b = n" using n by (simp add: slice_def MAGIC_def)
  moreover have "slice 17 33 ?b = t" using n e(2) by (simp add: slice_def MAGIC_def)
  moreover have "drop 33 ?b = c" using n e(2) by (simp add: MAGIC_def)
  moreover have "\<not> length ?b < 33" using n e(2) by (simp add: MAGIC_def)
  ultimately show ?thesis using e
    by (simp add: seal_with_key_def unseal_with_key_def HEADER_LEN_def NONCE_LEN_def TAG_LEN_def Let_def)
qed

lemma split_at_4: "5 \<le> length b \<Longrightarrow> b = slice 0 4 b @ [b ! 4] @ drop 5 b"
  using id_take_nth_drop [of 4 b] by (simp add: slice_def)

lemma unseal_inverse:
  assumes "aead_ok A" "unseal_with_key A k b = Inr p"
  shows "\<exists>n. length n = NONCE_LEN \<and> b = seal_with_key A k n p"
proof -
  from assms(2) have b: "\<not> length b < 33" "slice 0 4 b = MAGIC" "b ! 4 = VERSION"
    "decrypt A k (slice 5 17 b) (slice 17 33 b) (drop 33 b) = Some p"
    by (auto simp: unseal_with_key_def HEADER_LEN_def NONCE_LEN_def TAG_LEN_def Let_def split: if_splits option.splits)
  have "length (slice 17 33 b) = 16" using b(1) by (simp add: slice_def)
  then have e: "encrypt A k (slice 5 17 b) p = (slice 17 33 b, drop 33 b)"
    using assms(1) b(4) unfolding aead_ok_def by blast
  have "drop 5 b = slice 5 17 b @ drop 17 b"
    using append_take_drop_id [of 12 "drop 5 b"] by (simp add: slice_def take_drop)
  moreover have "drop 17 b = slice 17 33 b @ drop 33 b"
    using append_take_drop_id [of 16 "drop 17 b"] by (simp add: slice_def take_drop)
  ultimately have "b = MAGIC @ [VERSION] @ slice 5 17 b @ slice 17 33 b @ drop 33 b"
    using split_at_4 [of b] b by simp
  then have "b = seal_with_key A k (slice 5 17 b) p" unfolding seal_with_key_def e Let_def by simp
  moreover have "length (slice 5 17 b) = NONCE_LEN" using b(1) by (simp add: slice_def NONCE_LEN_def)
  ultimately show ?thesis by blast
qed

text \<open>C39. Unsealing succeeds exactly on the blobs that sealing produces under the same key, and gives the
  sealed bytes: any other magic, version, length, nonce, tag or body is refused.\<close>

theorem unseal_exact:
  assumes "aead_ok A"
  shows "unseal_with_key A k b = Inr p \<longleftrightarrow> (\<exists>n. length n = NONCE_LEN \<and> b = seal_with_key A k n p)"
  using unseal_seal [OF assms] unseal_inverse [OF assms] by blast

text \<open>A cipher for concrete runs: the identity, whose tag depends on nothing but must be sixteen zeros.\<close>

definition plain_aead :: aead where
  "plain_aead = \<lparr>encrypt = (\<lambda>k n p. (replicate 16 0, p)),
     decrypt = (\<lambda>k n t c. if t = replicate 16 0 then Some c else None), sha256 = (\<lambda>m. replicate 32 1)\<rparr>"

lemma plain_aead_ok: "aead_ok plain_aead"
  by (simp add: aead_ok_def plain_aead_def)

theorem unseal_exact_witness:
  "unseal_with_key plain_aead [] (seal_with_key plain_aead [] (replicate NONCE_LEN 7) [1, 2, 3]) = Inr [1, 2, 3]"
proof -
  have "length (replicate NONCE_LEN (7::u8)) = NONCE_LEN" by simp
  then show ?thesis using unseal_exact [OF plain_aead_ok] by blast
qed

subsection \<open>The key\<close>

lemma u8_from_hex_digits:
  "hex_value a = Some x \<Longrightarrow> hex_value b = Some y \<Longrightarrow> u8_from_hex a b = Some (of_nat (16 * x + y))"
  by (auto simp: u8_from_hex_def hex_value_def Let_def split: if_splits)

lemma parse_raw_hex64_digits:
  assumes "list_all (\<lambda>c. hex_value c \<noteq> None) s" "even (length s)"
  shows "\<exists>k. parse_raw_hex64 s = Inr k \<and> length k = length s div 2
    \<and> (\<forall>i < length k. k ! i = of_nat (16 * the (hex_value (s ! (2 * i))) + the (hex_value (s ! (2 * i + 1)))))"
  using assms
proof (induction s rule: parse_raw_hex64.induct)
  case (1 a b r)
  then obtain x y where xy: "hex_value a = Some x" "hex_value b = Some y" by auto
  obtain k where k: "parse_raw_hex64 r = Inr k" "length k = length r div 2"
      "\<forall>i < length k. k ! i = of_nat (16 * the (hex_value (r ! (2 * i))) + the (hex_value (r ! (2 * i + 1))))"
    using 1(1) [OF u8_from_hex_digits [OF xy]] 1(2,3) by auto
  have "((of_nat (16 * x + y) :: u8) # k) ! i
      = of_nat (16 * the (hex_value ((a # b # r) ! (2 * i))) + the (hex_value ((a # b # r) ! (2 * i + 1))))"
    if "i < length ((of_nat (16 * x + y) :: u8) # k)" for i
    using that k(3) xy by (cases i) simp_all
  then show ?case using k(1,2) u8_from_hex_digits [OF xy] by simp
qed simp_all

text \<open>A key is derived from every setting that is not blank: 64 hexadecimal digits (surrounding blanks
  and letter case aside) are the key's bytes themselves, anything else is hashed; the key has 32 bytes.
  A blank setting panics at the first use, and no setting means no key.\<close>

theorem key_material:
  assumes "aead_ok A"
  shows "compiled_key A None = Inr None
    \<and> (trim raw = [] \<longrightarrow> \<not> ok (compiled_key A (Some raw)))
    \<and> (trim raw \<noteq> [] \<longrightarrow> (\<exists>k. compiled_key A (Some raw) = Inr (Some k) \<and> length k = 32
        \<and> (if length (trim raw) = 64 \<and> list_all (\<lambda>c. hex_value c \<noteq> None) (trim raw)
           then \<forall>i < 32. k ! i = of_nat (16 * the (hex_value (trim raw ! (2 * i))) + the (hex_value (trim raw ! (2 * i + 1))))
           else k = sha256 A (bytes_of (trim raw)))))"
proof (intro conjI impI)
  show "compiled_key A None = Inr None" by (simp add: compiled_key_def)
  show "\<not> ok (compiled_key A (Some raw))" if "trim raw = []"
    using that by (simp add: compiled_key_def parse_key_material_def)
  assume ne: "trim raw \<noteq> []"
  show "\<exists>k. compiled_key A (Some raw) = Inr (Some k) \<and> length k = 32
        \<and> (if length (trim raw) = 64 \<and> list_all (\<lambda>c. hex_value c \<noteq> None) (trim raw)
           then \<forall>i < 32. k ! i = of_nat (16 * the (hex_value (trim raw ! (2 * i))) + the (hex_value (trim raw ! (2 * i + 1))))
           else k = sha256 A (bytes_of (trim raw)))"
  proof (cases "length (trim raw) = 64 \<and> list_all (\<lambda>c. hex_value c \<noteq> None) (trim raw)")
    case True
    then obtain k where "parse_raw_hex64 (trim raw) = Inr k" "length k = 32"
        "\<forall>i < 32. k ! i = of_nat (16 * the (hex_value (trim raw ! (2 * i))) + the (hex_value (trim raw ! (2 * i + 1))))"
      using parse_raw_hex64_digits [of "trim raw"] by auto
    then show ?thesis using True ne by (simp add: compiled_key_def parse_key_material_def Let_def)
  next
    case False
    then have "parse_key_material A raw = Inr (sha256 A (bytes_of (trim raw)))"
      using ne by (auto simp: parse_key_material_def Let_def)
    moreover have "length (sha256 A m) = 32" for m using assms unfolding aead_ok_def by blast
    ultimately show ?thesis unfolding if_not_P [OF False] by (simp add: compiled_key_def)
  qed
qed

theorem key_material_witness:
  "compiled_key plain_aead None = Inr None \<and> \<not> ok (compiled_key plain_aead (Some []))"
proof -
  have "trim [] = []" by (simp add: trim_def strip.simps [of _ "[]"] white_space_def strip_one_def)
  then show ?thesis using key_material [OF plain_aead_ok, of "[]"] by blast
qed

subsection \<open>Through the C interface\<close>

text \<open>C40. The two-call protocol of the C interface: a first call without a buffer reports the size, a second
  one with a buffer of that size seals, and unsealing the result with room for the plain text gives it
  back, whatever it is (the empty text included).\<close>

theorem bundle_roundtrip:
  assumes "aead_ok A" "compiled_key A env = Inr (Some k)" "length n = NONCE_LEN" "length n' = NONCE_LEN"
    and "length buf = sealed_len (length plain)" "length plain \<le> cap" "length buf' = cap"
  shows "vl_bundle_seal A env n (Some plain) (length plain) 0 \<lparr>out_buf = None, out_len = Some l\<rparr>
      = Inr (VL_BUNDLE_ERR_ARGS, \<lparr>out_buf = None, out_len = Some (length buf)\<rparr>)
    \<and> (\<exists>sealed. vl_bundle_seal A env n' (Some plain) (length plain) (length buf) \<lparr>out_buf = Some buf, out_len = Some l\<rparr>
         = Inr (VL_BUNDLE_OK, \<lparr>out_buf = Some sealed, out_len = Some (length sealed)\<rparr>)
       \<and> vl_bundle_unseal A env (Some sealed) (length sealed) cap \<lparr>out_buf = Some buf', out_len = Some l'\<rparr>
         = Inr (VL_BUNDLE_OK, \<lparr>out_buf = Some (plain @ drop (length plain) buf'), out_len = Some (length plain)\<rparr>))"
proof -
  let ?s = "\<lambda>n. seal_with_key A k n plain"
  have len: "length (?s n) = length buf" "length (?s n') = length buf"
    using sealed_length [OF assms(1)] assms(3-5) by simp_all
  then have pos: "length (?s n') \<noteq> 0" using assms(5) by (simp add: sealed_len_def HEADER_LEN_def)
  have plain: "read_input plain (length plain) = Inr plain" by (simp add: read_input_def)
  have one: "vl_bundle_seal A env n (Some plain) (length plain) 0 \<lparr>out_buf = None, out_len = Some l\<rparr>
      = Inr (VL_BUNDLE_ERR_ARGS, \<lparr>out_buf = None, out_len = Some (length buf)\<rparr>)"
    using len plain by (cases "plain = []") (simp_all add: vl_bundle_seal_def assms(2) copy_out_def)
  have two: "vl_bundle_seal A env n' (Some plain) (length plain) (length buf) \<lparr>out_buf = Some buf, out_len = Some l\<rparr>
      = Inr (VL_BUNDLE_OK, \<lparr>out_buf = Some (?s n'), out_len = Some (length (?s n'))\<rparr>)"
    using len plain by (cases "plain = []") (simp_all add: vl_bundle_seal_def assms(2) copy_out_def)
  have three: "vl_bundle_unseal A env (Some (?s n')) (length (?s n')) cap \<lparr>out_buf = Some buf', out_len = Some l'\<rparr>
      = Inr (VL_BUNDLE_OK, \<lparr>out_buf = Some (plain @ drop (length plain) buf'), out_len = Some (length plain)\<rparr>)"
    using pos assms(6,7) unseal_seal [OF assms(1,4), of k plain]
    by (simp add: vl_bundle_unseal_def assms(2) read_input_def copy_out_def)
  show ?thesis using one two three by blast
qed

theorem bundle_roundtrip_witness:
  "\<exists>sealed. vl_bundle_unseal plain_aead (Some ''secret'') (Some sealed) (length sealed) 2
      \<lparr>out_buf = Some [0, 0], out_len = Some 9\<rparr>
    = Inr (VL_BUNDLE_OK, \<lparr>out_buf = Some [5, 6], out_len = Some 2\<rparr>)"
proof -
  have "trim ''secret'' = ''secret''" by code_simp
  then have k: "compiled_key plain_aead (Some ''secret'') = Inr (Some (replicate 32 1))"
    by (simp add: compiled_key_def parse_key_material_def plain_aead_def Let_def)
  have "length (replicate NONCE_LEN (0::u8)) = NONCE_LEN" "length (replicate NONCE_LEN (1::u8)) = NONCE_LEN"
      "length (replicate (sealed_len (length [5, 6 :: u8])) (0::u8)) = sealed_len (length [5, 6 :: u8])"
      "length [5, 6 :: u8] \<le> 2" "length [0, 0 :: u8] = 2" by simp_all
  from bundle_roundtrip [OF plain_aead_ok k this, of 0 9] show ?thesis by (auto simp: numeral_2_eq_2)
qed

text \<open>The length variable is set by the copy only: without a key, or with bad arguments, it keeps its value.\<close>

lemma length_left_unset:
  "vl_bundle_seal A None n input m cap out = Inr (VL_BUNDLE_ERR_NO_KEY, out)"
  "compiled_key A env = Inr (Some k) \<Longrightarrow> m \<noteq> 0 \<Longrightarrow> vl_bundle_seal A env n None m cap out = Inr (VL_BUNDLE_ERR_ARGS, out)"
  by (simp_all add: vl_bundle_seal_def compiled_key_def)

end
