(* ===== verification/HostUtils.thy ===== *)
theory HostUtils
  imports Lossy Memo Boxes
begin

text \<open>
  The system services of \<^verbatim>\<open>utils/mod.rs\<close>: the process's own name and command line, symbol addresses from
  ELF files, detection of the simulator, simulator control, lock files and shell commands. The
  operating system, the crates \<^verbatim>\<open>goblin\<close>, \<^verbatim>\<open>fslock\<close> and \<^verbatim>\<open>wildmatch\<close> and the loader are parameters.
\<close>

subsection \<open>The operating system\<close>

text \<open>What \<open>Elf::parse\<close> finds: symbols with their names (\<open>None\<close>: not in the string table) and values.\<close>

record elf =
  syms :: "(string option \<times> u64) list"
  dynsyms :: "(string option \<times> u64) list"
  libraries :: "string list"

text \<open>
  \<open>exe_link\<close> is the target of \<^verbatim>\<open>/proc/self/exe\<close> (\<open>None\<close>: \<open>readlink\<close> fails),
  \<open>debug_logged\<close> whether the logger takes level debug, \<open>self_cmdline\<close> the content of
  \<^verbatim>\<open>/proc/self/cmdline\<close>, \<open>read_elf\<close> opens, reads and parses a file (a message if a step fails),
  \<open>load_offset\<close> is the load address of the program, \<open>lock_open\<close> whether a lock file can be opened,
  \<open>lock_wait\<close> what locking it gives while the process holds the given paths (an error message, or
  \<open>None\<close>; \<open>Hang\<close> if it never returns), \<open>run_shell\<close> the two output streams of \<open>sh -c\<close>.
\<close>

record host =
  exe_link :: "string option"
  debug_logged :: bool
  self_cmdline :: "string option"
  read_elf :: "string \<Rightarrow> string + elf"
  load_offset :: u64
  lock_open :: "string \<Rightarrow> bool"
  lock_wait :: "string \<Rightarrow> string list \<Rightarrow> string option res"
  run_shell :: "string \<Rightarrow> (string \<times> string) option"
  wild :: "string \<Rightarrow> string \<Rightarrow> bool"

text \<open>
  The statics of the module and the boxed \<open>LockFile\<close>s; \<open>files_read\<close> records the ELF files read.
\<close>

record host_state =
  symbol_tables :: "string \<rightharpoonup> (string \<rightharpoonup> u64)"
  cache_result :: "string option"
  executable_name :: "string option"
  lock_boxes :: "(ptr \<times> string) list"
  files_read :: "string list"

definition host_start :: host_state where
  "host_start = \<lparr>symbol_tables = Map.empty, cache_result = None, executable_name = None, lock_boxes = [], files_read = []\<rparr>"

subsection \<open>The process\<close>

definition PATH_MAX :: nat where "PATH_MAX = 4096"

text \<open>
  \<open>readlink\<close> truncates to the buffer; the terminator is then written behind the text. The argument of
  \<open>log::debug!\<close> unwraps \<open>to_str\<close>, and is evaluated when that level is logged.
\<close>

definition get_executable_name :: "host \<Rightarrow> c_str res" where
  "get_executable_name H =
     (case exe_link H of
        None \<Rightarrow> Inl (Panic ''Failed to get executable name'')
      | Some target \<Rightarrow>
          let path = take PATH_MAX target in
          if length path = PATH_MAX then Inl (Panic ''index out of bounds'')
          else and_then (string_to_c_char_owned path) (\<lambda>executable_name.
            if debug_logged H \<and> \<not> utf8_valid path then Inl (Panic ''to_str().unwrap()'')
            else Inr executable_name))"

definition get_self_cmdline :: "host \<Rightarrow> c_str res" where
  "get_self_cmdline H =
     (case self_cmdline H of
        None \<Rightarrow> Inl (Panic ''Failed to open /proc/self/cmdline'')
      | Some buffer \<Rightarrow>
          let content = map (\<lambda>c. if of_char c = (0::nat) then CHR '' '' else c) buffer in
          if utf8_valid content then string_to_c_char_owned content
          else Inl (Panic ''Invalid UTF-8 in /proc/self/cmdline''))"

subsection \<open>Symbols\<close>

definition put_symbol :: "u64 \<Rightarrow> string option \<times> u64 \<Rightarrow> (string \<rightharpoonup> u64) \<Rightarrow> (string \<rightharpoonup> u64)" where
  "put_symbol offset s table =
     (case fst s of
        None \<Rightarrow> table
      | Some nm \<Rightarrow> if nm = [] then table else table(nm \<mapsto> snd s + offset))"

definition put_dynsym :: "u64 \<Rightarrow> string option \<times> u64 \<Rightarrow> (string \<rightharpoonup> u64) \<Rightarrow> (string \<rightharpoonup> u64)" where
  "put_dynsym offset s table =
     (case fst s of
        None \<Rightarrow> table
      | Some nm \<Rightarrow> if nm = [] \<or> table nm \<noteq> None then table else table(nm \<mapsto> snd s + offset))"

definition load_elf_symbol_table :: "host \<Rightarrow> string \<Rightarrow> u64 \<Rightarrow> (string \<rightharpoonup> u64) res" where
  "load_elf_symbol_table H filename offset =
     (case read_elf H filename of
        Inl e \<Rightarrow> Inl (Panic e)
      | Inr elf \<Rightarrow> Inr (fold (put_dynsym offset) (dynsyms elf) (fold (put_symbol offset) (syms elf) Map.empty)))"

definition the_or_0 :: "u64 option \<Rightarrow> u64" where
  "the_or_0 v = (case v of None \<Rightarrow> 0 | Some a \<Rightarrow> a)"

definition get_symbol_address :: "host \<Rightarrow> string \<Rightarrow> string \<Rightarrow> host_state \<Rightarrow> (u64 \<times> host_state) res" where
  "get_symbol_address H filename symbol_name st =
     (let filename = to_string_lossy filename; symbol_name = to_string_lossy symbol_name in
      case symbol_tables st filename of
        Some t \<Rightarrow> Inr (the_or_0 (t symbol_name), st)
      | None \<Rightarrow>
          and_then (load_elf_symbol_table H filename (load_offset H)) (\<lambda>t.
            Inr (the_or_0 (t symbol_name),
                 st\<lparr>symbol_tables := (symbol_tables st)(filename \<mapsto> t), files_read := files_read st @ [filename]\<rparr>)))"

subsection \<open>Which simulator\<close>

fun str_contains :: "string \<Rightarrow> string \<Rightarrow> bool" where
  "str_contains [] pat = (pat = [])"
| "str_contains (c # s) pat = (take (length pat) (c # s) = pat \<or> str_contains s pat)"

text \<open>The \<open>if\<close>/\<open>else if\<close> chain, as a table in its order.\<close>

definition known_libraries :: "(string \<times> string) list" where
  "known_libraries =
     [(''libverilua_verilator.so'', ''verilator''), (''libverilua_verilator_dpi.so'', ''verilator''),
      (''libverilua_vcs.so'', ''vcs''), (''libverilua_vcs_dpi.so'', ''vcs''),
      (''libverilua_xcelium.so'', ''xcelium''), (''libverilua_xcelium_dpi.so'', ''xcelium''),
      (''libverilua_iverilog.so'', ''iverilog''), (''libverilua_wave_vpi.so'', ''wave_vpi''),
      (''libverilua_nosim.so'', ''nosim'')]"

definition simulator_of_library :: "string \<Rightarrow> string option" where
  "simulator_of_library lib = map_option snd (List.find (\<lambda>(pat, _). str_contains lib pat) known_libraries)"

fun simulator_of_libraries :: "string list \<Rightarrow> string" where
  "simulator_of_libraries [] = ''unknown''"
| "simulator_of_libraries (lib # libs) =
     (case simulator_of_library lib of Some sim \<Rightarrow> sim | None \<Rightarrow> simulator_of_libraries libs)"

definition executable_name_init :: "host \<Rightarrow> host_state \<Rightarrow> (string \<times> host_state) res" where
  "executable_name_init H st =
     (case executable_name st of
        Some n \<Rightarrow> Inr (n, st)
      | None \<Rightarrow> and_then (get_executable_name H) (\<lambda>p.
          and_then (c_char_to_string p) (\<lambda>n. Inr (n, st\<lparr>executable_name := Some n\<rparr>))))"

definition get_simulator_auto :: "host \<Rightarrow> host_state \<Rightarrow> (c_str \<times> host_state) res" where
  "get_simulator_auto H st =
     (case cache_result st of
        Some result \<Rightarrow> and_then (string_to_c_char_owned result) (\<lambda>p. Inr (p, st))
      | None \<Rightarrow>
          and_then (executable_name_init H st) (\<lambda>(n, st).
            case read_elf H n of
              Inl e \<Rightarrow> Inl (Panic e)
            | Inr elf \<Rightarrow>
                let sim = simulator_of_libraries (libraries elf) in
                and_then (string_to_c_char_owned sim) (\<lambda>p.
                  Inr (p, st\<lparr>cache_result := Some sim, files_read := files_read st @ [n]\<rparr>))))"

subsection \<open>Control, patterns, locks, commands\<close>

text \<open>
  The command number that reaches \<open>vpi_control\<close>. The check is an argument of \<open>log::info!\<close> and runs only
  when that level is logged.
\<close>

definition c_simulator_control :: "bool \<Rightarrow> u64 \<Rightarrow> u32 res" where
  "c_simulator_control info_logged cmd =
     (if info_logged \<and> cmd \<notin> {66, 67, 68, 69} then Inl (Panic ''Invalid command'') else Inr (ucast cmd))"

definition wildmatch :: "host \<Rightarrow> c_str \<Rightarrow> c_str \<Rightarrow> int res" where
  "wildmatch H pattern str =
     and_then (c_char_to_str pattern) (\<lambda>p. and_then (c_char_to_str str) (\<lambda>s. Inr (of_bool (wild H p s))))"

definition acquire_lock :: "host \<Rightarrow> allocator \<Rightarrow> c_str \<Rightarrow> host_state \<Rightarrow> (ptr \<times> host_state) res" where
  "acquire_lock H alloc path st =
     (case c_char_to_str_opt path of
        None \<Rightarrow> Inr (0, st)
      | Some p \<Rightarrow>
          if \<not> lock_open H p then Inr (0, st)
          else and_then (lock_wait H p (map snd (lock_boxes st))) (\<lambda>r.
            case r of
              Some err \<Rightarrow> Inr (0, st)
            | None \<Rightarrow>
                let b = alloc (map fst (lock_boxes st))
                in Inr (b, st\<lparr>lock_boxes := (b, p) # lock_boxes st\<rparr>)))"

text \<open>Dropping the box unlocks and closes the file.\<close>

definition release_lock :: "ptr \<Rightarrow> host_state \<Rightarrow> host_state res" where
  "release_lock h st =
     (if h = 0 then Inl (Panic ''Lock handle is null'')
      else if map_of (lock_boxes st) h = None then Inl (Undefined ''Box::from_raw of a dead pointer'')
      else Inr (st\<lparr>lock_boxes := hm_remove h (lock_boxes st)\<rparr>))"

definition iorun :: "host \<Rightarrow> c_str \<Rightarrow> c_str res" where
  "iorun H cmd =
     (case c_char_to_str_opt cmd of
        None \<Rightarrow> Inr None
      | Some cmd_str \<Rightarrow>
          (case run_shell H cmd_str of
             None \<Rightarrow> Inr None
           | Some (out, err) \<Rightarrow>
               let stdout = to_string_lossy out; stderr = to_string_lossy err;
                   result = (if stdout \<noteq> [] then stdout else if stderr \<noteq> [] then stderr else [])
               in if has_nul result then Inr None else string_to_c_char_owned result))"

subsection \<open>Symbol addresses\<close>

text \<open>
  What a lookup means: the last entry of the symbol table with that name, else the first of the dynamic
  one, moved by the load address; 0 if there is none.
\<close>

definition symbol_spec :: "elf \<Rightarrow> u64 \<Rightarrow> string \<Rightarrow> u64" where
  "symbol_spec e offset nm =
     (if nm = [] then 0
      else case map_of (rev (syms e)) (Some nm) of
             Some v \<Rightarrow> v + offset
           | None \<Rightarrow> (case map_of (dynsyms e) (Some nm) of Some v \<Rightarrow> v + offset | None \<Rightarrow> 0))"

definition elf_table :: "elf \<Rightarrow> u64 \<Rightarrow> (string \<rightharpoonup> u64)" where
  "elf_table e offset = fold (put_dynsym offset) (dynsyms e) (fold (put_symbol offset) (syms e) Map.empty)"

lemma fold_put_symbol:
  "fold (put_symbol offset) ss t nm =
     (if nm = [] then t nm
      else case map_of (rev ss) (Some nm) of Some v \<Rightarrow> Some (v + offset) | None \<Rightarrow> t nm)"
proof (induction ss arbitrary: t)
  case (Cons s ss)
  then show ?case by (cases s) (auto simp: put_symbol_def map_add_def split: option.splits)
qed simp

lemma fold_put_dynsym:
  "fold (put_dynsym offset) ss t nm =
     (if nm = [] then t nm
      else case t nm of Some v \<Rightarrow> Some v | None \<Rightarrow> map_option (\<lambda>v. v + offset) (map_of ss (Some nm)))"
proof (induction ss arbitrary: t)
  case (Cons s ss)
  then show ?case by (cases s) (auto simp: put_dynsym_def split: option.splits)
qed (simp split: option.splits)

lemma elf_table_spec: "the_or_0 (elf_table e offset nm) = symbol_spec e offset nm"
  by (auto simp: elf_table_def symbol_spec_def fold_put_symbol fold_put_dynsym the_or_0_def split: option.splits)

definition tables_ok :: "host \<Rightarrow> host_state \<Rightarrow> bool" where
  "tables_ok H st \<longleftrightarrow>
     (\<forall>f t. symbol_tables st f = Some t \<longrightarrow> (\<exists>e. read_elf H f = Inr e \<and> t = elf_table e (load_offset H)))
     \<and> set (files_read st) = dom (symbol_tables st) \<and> distinct (files_read st)"

definition symbol_query :: "host \<Rightarrow> string \<times> string \<Rightarrow> host_state \<Rightarrow> (u64 \<times> host_state) res" where
  "symbol_query H q = get_symbol_address H (fst q) (snd q)"

definition cached_symbol :: "string \<times> string \<Rightarrow> host_state \<Rightarrow> u64 option" where
  "cached_symbol q st =
     map_option (\<lambda>t. the_or_0 (t (to_string_lossy (snd q)))) (symbol_tables st (to_string_lossy (fst q)))"

lemma symbol_query_miss:
  assumes "symbol_tables st (to_string_lossy f) = None" "read_elf H (to_string_lossy f) = Inr e"
  shows "symbol_query H (f, s) st =
    Inr (symbol_spec e (load_offset H) (to_string_lossy s),
         st\<lparr>symbol_tables := (symbol_tables st)(to_string_lossy f \<mapsto> elf_table e (load_offset H)),
            files_read := files_read st @ [to_string_lossy f]\<rparr>)"
  using assms elf_table_spec [of e "load_offset H"]
  by (simp add: symbol_query_def get_symbol_address_def load_elf_symbol_table_def elf_table_def Let_def)

lemma tables_ok_new:
  "tables_ok H st \<Longrightarrow> symbol_tables st f = None \<Longrightarrow> read_elf H f = Inr e \<Longrightarrow>
   tables_ok H (st\<lparr>symbol_tables := (symbol_tables st)(f \<mapsto> elf_table e (load_offset H)),
     files_read := files_read st @ [f]\<rparr>)"
  by (auto simp: tables_ok_def)

interpretation symtab: memo "symbol_query H" cached_symbol "tables_ok H"
proof
  show "symbol_query H q st = Inr (v, st)" if "tables_ok H st" "cached_symbol q st = Some v" for q st v
    using that by (auto simp: symbol_query_def get_symbol_address_def cached_symbol_def Let_def)
next
  fix q st v st'
  assume ok: "tables_ok H st" and new: "cached_symbol q st = None" and r: "symbol_query H q st = Inr (v, st')"
  obtain f s where q: "q = (f, s)" by (cases q)
  from new have n: "symbol_tables st (to_string_lossy f) = None" by (simp add: cached_symbol_def q)
  obtain e where e: "read_elf H (to_string_lossy f) = Inr e"
    using r n by (auto simp: q symbol_query_def get_symbol_address_def load_elf_symbol_table_def Let_def
        and_then_eq_Inr split: sum.splits)
  from r symbol_query_miss [OF n e, of s] have v: "v = symbol_spec e (load_offset H) (to_string_lossy s)"
    and st': "st' = st\<lparr>symbol_tables := (symbol_tables st)(to_string_lossy f \<mapsto> elf_table e (load_offset H)),
            files_read := files_read st @ [to_string_lossy f]\<rparr>" by (auto simp: q)
  show "tables_ok H st' \<and> cached_symbol q st' = Some v
      \<and> (\<forall>j u. cached_symbol j st = Some u \<longrightarrow> cached_symbol j st' = Some u)"
    using tables_ok_new [OF ok n e] n by (auto simp: st' v q cached_symbol_def elf_table_spec)
qed

lemma cached_symbol_spec:
  assumes "tables_ok H st" "cached_symbol (f, s) st = Some v"
  shows "\<exists>e. read_elf H (to_string_lossy f) = Inr e \<and> v = symbol_spec e (load_offset H) (to_string_lossy s)"
proof -
  obtain t where t: "symbol_tables st (to_string_lossy f) = Some t" "v = the_or_0 (t (to_string_lossy s))"
    using assms(2) by (auto simp: cached_symbol_def)
  then obtain e where "read_elf H (to_string_lossy f) = Inr e" "t = elf_table e (load_offset H)"
    using assms(1) unfolding tables_ok_def by blast
  then show ?thesis using t(2) elf_table_spec by blast
qed

lemma symbol_query_returns:
  assumes "tables_ok H st" "\<exists>e. read_elf H (to_string_lossy (fst q)) = Inr e"
  shows "\<exists>v st'. symbol_query H q st = Inr (v, st')"
proof (cases "cached_symbol q st")
  case None
  then show ?thesis using assms(2) symbol_query_miss [of st "fst q" H _ "snd q"]
    by (auto simp: cached_symbol_def)
next
  case (Some v)
  then show ?thesis using symtab.hit [OF assms(1)] by blast
qed

lemma symbol_session_returns:
  assumes "tables_ok H st" "\<forall>q \<in> set qs. \<exists>e. read_elf H (to_string_lossy (fst q)) = Inr e"
  shows "\<exists>vs st'. run_all (symbol_query H) qs st = Inr (vs, st')"
  using assms
proof (induction qs arbitrary: st)
  case (Cons q qs)
  obtain v st1 where v: "symbol_query H q st = Inr (v, st1)"
    using symbol_query_returns [OF Cons.prems(1), of q] Cons.prems(2) by (meson list.set_intros(1))
  obtain vs st' where "run_all (symbol_query H) qs st1 = Inr (vs, st')"
    using Cons.IH [OF symtab.call_Inr(1) [OF Cons.prems(1) v]] Cons.prems(2) by auto
  then show ?case using v by simp
qed simp

lemma symbol_query_files:
  "symbol_query H q st = Inr (v, st') \<Longrightarrow>
   dom (symbol_tables st') = insert (to_string_lossy (fst q)) (dom (symbol_tables st))"
  by (auto simp: symbol_query_def get_symbol_address_def Let_def and_then_eq_Inr split: option.splits)

lemma symbol_session_files:
  "run_all (symbol_query H) qs st = Inr (vs, st') \<Longrightarrow>
   dom (symbol_tables st') = dom (symbol_tables st) \<union> to_string_lossy ` fst ` set qs"
proof (induction qs arbitrary: st vs)
  case (Cons q qs)
  from Cons.prems obtain v st1 ws where
    r: "symbol_query H q st = Inr (v, st1)" "run_all (symbol_query H) qs st1 = Inr (ws, st')"
    by (rule run_all_Cons_Inr)
  show ?case using Cons.IH [OF r(2)] symbol_query_files [OF r(1)] by simp
qed simp

lemma tables_ok_start: "tables_ok H host_start"
  by (simp add: tables_ok_def host_start_def)

text \<open>C36. Any sequence of address lookups in readable ELF files returns; each result is the address the file's
  own tables give (symbol table before dynamic table, moved by the load address, 0 if absent), and
  however many lookups there are, every file is read once.\<close>

theorem symbol_addresses:
  assumes "\<forall>q \<in> set qs. read_elf H (to_string_lossy (fst q)) = Inr (elf_of q)"
  shows "\<exists>vs st. run_all (symbol_query H) qs host_start = Inr (vs, st)
    \<and> vs = map (\<lambda>q. symbol_spec (elf_of q) (load_offset H) (to_string_lossy (snd q))) qs
    \<and> distinct (files_read st) \<and> set (files_read st) = to_string_lossy ` fst ` set qs"
proof -
  obtain vs st where r: "run_all (symbol_query H) qs host_start = Inr (vs, st)"
    using symbol_session_returns [OF tables_ok_start] assms by blast
  have inv: "tables_ok H st" and len: "length vs = length qs"
    using symtab.run_all_inv(1) [OF tables_ok_start r] run_all_length [OF r] by simp_all
  have cached: "cached_symbol (qs ! i) st = Some (vs ! i)" if "i < length qs" for i
    by (rule symtab.run_all_inv(3) [OF tables_ok_start r that])
  have "vs ! i = symbol_spec (elf_of (qs ! i)) (load_offset H) (to_string_lossy (snd (qs ! i)))" if i: "i < length qs" for i
    using cached_symbol_spec [OF inv, of "fst (qs ! i)" "snd (qs ! i)" "vs ! i"] cached [OF i] assms i by simp
  then have "vs = map (\<lambda>q. symbol_spec (elf_of q) (load_offset H) (to_string_lossy (snd q))) qs"
    using len by (intro nth_equalityI) simp_all
  moreover have "set (files_read st) = to_string_lossy ` fst ` set qs"
    using symbol_session_files [OF r] inv by (simp add: tables_ok_def host_start_def)
  ultimately show ?thesis using r inv by (auto simp: tables_ok_def)
qed

definition demo_elf :: elf where
  "demo_elf = \<lparr>syms = [(Some ''main'', 64), (None, 7), (Some ''main'', 80)],
     dynsyms = [(Some ''puts'', 16), (Some ''main'', 1), (Some ''puts'', 24)],
     libraries = [''libc.so.6'', ''/opt/lib/libverilua_vcs_dpi.so'', ''libverilua_verilator.so'']\<rparr>"

definition demo_host :: host where
  "demo_host = \<lparr>exe_link = Some ''/sim/Vtop'', debug_logged = False, self_cmdline = Some ''Vtop'', read_elf = (\<lambda>_. Inr demo_elf),
     load_offset = 4096, lock_open = (\<lambda>_. True), lock_wait = (\<lambda>p held. if p \<in> set held then Inl Hang else Inr None),
     run_shell = (\<lambda>c. Some (c, [])), wild = (=)\<rparr>"

lemma symbol_addresses_witness:
  "\<exists>st. run_all (symbol_query demo_host) [(''Vtop'', ''main''), (''Vtop'', ''puts''), (''Vtop'', ''gets'')] host_start
    = Inr ([4176, 4112, 0], st) \<and> files_read st = [''Vtop'']"
proof -
  let ?qs = "[(''Vtop'', ''main''), (''Vtop'', ''puts''), (''Vtop'', ''gets'')]"
  have "\<forall>q \<in> set ?qs. read_elf demo_host (to_string_lossy (fst q)) = Inr (demo_elf)" by (simp add: demo_host_def)
  from symbol_addresses [OF this] obtain vs st where
    r: "run_all (symbol_query demo_host) ?qs host_start = Inr (vs, st)"
    and vs: "vs = map (\<lambda>q. symbol_spec demo_elf (load_offset demo_host) (to_string_lossy (snd q))) ?qs"
    and f: "distinct (files_read st)" "set (files_read st) = to_string_lossy ` fst ` set ?qs" by blast
  have utf: "utf8_valid ''main''" "utf8_valid ''puts''" "utf8_valid ''gets''" "utf8_valid ''Vtop''"
    by (simp_all add: utf8_valid_ascii)
  have "vs = [4176, 4112, 0]" unfolding vs by (simp add: utf symbol_spec_def demo_elf_def demo_host_def)
  moreover have "files_read st = [''Vtop'']"
    using f by (cases "files_read st"; cases "tl (files_read st)") (auto simp: utf)
  ultimately show ?thesis using r by blast
qed

subsection \<open>The detected simulator\<close>

lemma known_no_nul: "list_all (\<lambda>(_, sim). \<not> has_nul sim) known_libraries"
  by (simp add: known_libraries_def has_nul_def)

lemma simulator_no_nul: "\<not> has_nul (simulator_of_libraries libs)"
proof (induction libs)
  case Nil
  then show ?case by (simp add: has_nul_def)
next
  case (Cons lib libs)
  have "\<not> has_nul sim" if "simulator_of_library lib = Some sim" for sim
  proof -
    from that obtain pat where "(pat, sim) \<in> set known_libraries"
      using nth_mem by (fastforce simp: simulator_of_library_def find_Some_iff)
    then show ?thesis using known_no_nul unfolding list_all_iff by fast
  qed
  then show ?case using Cons by (simp split: option.split)
qed

definition simulator_ok :: "host_state \<Rightarrow> bool" where
  "simulator_ok st \<longleftrightarrow> (\<forall>r. cache_result st = Some r \<longrightarrow> \<not> has_nul r)"

definition simulator_query :: "host \<Rightarrow> unit \<Rightarrow> host_state \<Rightarrow> (c_str \<times> host_state) res" where
  "simulator_query H u = get_simulator_auto H"

interpretation simulator: memo "simulator_query H" "\<lambda>_ st. map_option Some (cache_result st)" simulator_ok
proof
  show "simulator_query H k st = Inr (v, st)" if "simulator_ok st" "map_option Some (cache_result st) = Some v" for k st v
    using that by (auto simp: simulator_query_def get_simulator_auto_def simulator_ok_def string_to_c_char_owned_def)
  show "simulator_ok st' \<and> map_option Some (cache_result st') = Some v
      \<and> (\<forall>j::unit. \<forall>u. map_option Some (cache_result st) = Some u \<longrightarrow> map_option Some (cache_result st') = Some u)"
    if st: "simulator_ok st" "map_option Some (cache_result st) = None" "simulator_query H k st = Inr (v, st')" for k st v st'
  proof -
    from st(2,3) obtain n st1 where n: "executable_name_init H st = Inr (n, st1)"
      by (cases "executable_name_init H st") (auto simp: simulator_query_def get_simulator_auto_def)
    with st(2,3) obtain e where "read_elf H n = Inr e"
      by (cases "read_elf H n") (auto simp: simulator_query_def get_simulator_auto_def)
    with n st(2,3) simulator_no_nul [of "libraries e"] have
      "v = Some (simulator_of_libraries (libraries e))"
      "st' = st1\<lparr>cache_result := Some (simulator_of_libraries (libraries e)), files_read := files_read st1 @ [n]\<rparr>"
      by (auto simp: simulator_query_def get_simulator_auto_def string_to_c_char_owned_def Let_def)
    then show ?thesis using simulator_no_nul st(2) by (simp add: simulator_ok_def)
  qed
qed

text \<open>
  The detected simulator is the one of the first known library that the executable is linked to, and
  stays so: later calls do not read the file again.
\<close>

theorem simulator_detected:
  assumes "exe_link H = Some path" "length path < PATH_MAX" "\<not> has_nul path"
    and "debug_logged H \<Longrightarrow> utf8_valid path" and "read_elf H (to_string_lossy path) = Inr e"
  shows "\<exists>st. run_all (simulator_query H) (replicate n ()) host_start
      = Inr (replicate n (Some (simulator_of_libraries (libraries e))), st) \<and> length (files_read st) \<le> 1"
proof -
  let ?sim = "simulator_of_libraries (libraries e)"
  have "get_executable_name H = Inr (Some path)"
    using assms(1-4) by (auto simp: get_executable_name_def string_to_c_char_owned_def Let_def)
  then obtain st where st: "simulator_query H () host_start = Inr (Some ?sim, st)" "files_read st = [to_string_lossy path]"
    using assms(5) simulator_no_nul [of "libraries e"]
    by (simp add: simulator_query_def get_simulator_auto_def executable_name_init_def host_start_def c_char_to_string_def
        string_to_c_char_owned_def Let_def)
  have "simulator_ok host_start" by (simp add: simulator_ok_def host_start_def)
  from simulator.call_Inr [OF this st(1)] have again: "simulator_query H () st = Inr (Some ?sim, st)"
    using simulator.hit by blast
  have rest: "run_all (simulator_query H) (replicate k ()) st = Inr (replicate k (Some ?sim), st)" for k
    by (induction k) (simp_all add: again)
  show ?thesis
  proof (cases n)
    case 0
    then show ?thesis by (simp add: host_start_def)
  next
    case (Suc k)
    then show ?thesis using rest [of k] st by simp
  qed
qed

subsection \<open>Control, locks, commands\<close>

text \<open>Without logging at level info any number reaches the simulator, cut to 32 bits: \<open>2^32 + 67\<close> is \<open>vpiFinish\<close>.\<close>

lemma control_check_is_logging:
  "c_simulator_control False cmd = Inr (ucast cmd)"
  "c_simulator_control False 4294967363 = Inr 67"
  "ok (c_simulator_control True cmd) \<longleftrightarrow> cmd \<in> {66, 67, 68, 69}"
  by (simp_all add: c_simulator_control_def)

text \<open>Locks that the process holds stay exclusive when locking a held file never succeeds.\<close>

definition exclusive :: "host \<Rightarrow> bool" where
  "exclusive H \<longleftrightarrow> (\<forall>p held. p \<in> set held \<longrightarrow> lock_wait H p held \<noteq> Inr None)"

definition locks_ok :: "host_state \<Rightarrow> bool" where
  "locks_ok st \<longleftrightarrow> distinct (map fst (lock_boxes st)) \<and> distinct (map snd (lock_boxes st)) \<and> 0 \<notin> fst ` set (lock_boxes st)"

lemma hm_remove_fresh: "h \<notin> fst ` set m \<Longrightarrow> hm_remove h m = m"
  unfolding hm_remove_def by (rule filter_True) force

lemma acquire_lock_cases:
  assumes "acquire_lock H alloc path st = Inr (h, st')"
  obtains "h = 0" "st' = st"
    | p where "lock_wait H p (map snd (lock_boxes st)) = Inr None" "h = alloc (map fst (lock_boxes st))"
        "st' = st\<lparr>lock_boxes := (h, p) # lock_boxes st\<rparr>"
proof (cases "c_char_to_str_opt path")
  case None
  then have "h = 0" "st' = st" using assms by (simp_all add: acquire_lock_def)
  then show ?thesis by (rule that(1))
next
  case (Some p)
  have body: "(if \<not> lock_open H p then Inr (0, st)
      else and_then (lock_wait H p (map snd (lock_boxes st))) (\<lambda>r. case r of Some err \<Rightarrow> Inr (0, st)
        | None \<Rightarrow> Inr (alloc (map fst (lock_boxes st)),
             st\<lparr>lock_boxes := (alloc (map fst (lock_boxes st)), p) # lock_boxes st\<rparr>))) = Inr (h, st')"
    using assms unfolding acquire_lock_def Some option.simps Let_def .
  show ?thesis
  proof (cases "lock_open H p \<and> lock_wait H p (map snd (lock_boxes st)) = Inr None")
    case True
    then show ?thesis using body by (intro that(2) [of p]) auto
  next
    case False
    then have "h = 0 \<and> st' = st" using body by (auto simp: and_then_eq_Inr split: if_splits option.splits)
    then show ?thesis using that(1) by blast
  qed
qed

lemma acquire_locks_ok:
  assumes "exclusive H" "alloc_ok alloc" "locks_ok st" "acquire_lock H alloc path st = Inr (h, st')"
  shows "locks_ok st' \<and> (h = 0 \<longrightarrow> st' = st) \<and> (h \<noteq> 0 \<longrightarrow> (\<exists>st''. release_lock h st' = Inr st'' \<and> lock_boxes st'' = lock_boxes st))"
proof -
  from assms(4) consider "h = 0" "st' = st"
    | p where "lock_wait H p (map snd (lock_boxes st)) = Inr None" "h = alloc (map fst (lock_boxes st))"
        "st' = st\<lparr>lock_boxes := (h, p) # lock_boxes st\<rparr>"
    by (rule acquire_lock_cases)
  then show ?thesis
  proof cases
    case 1
    then show ?thesis using assms(3) by simp
  next
    case 2
    have h: "h \<notin> fst ` set (lock_boxes st)" "h \<noteq> 0"
      using assms(2) 2(2) by (simp_all add: alloc_ok_def flip: set_map)
    have "p \<notin> snd ` set (lock_boxes st)" using assms(1) 2(1) by (auto simp: exclusive_def simp flip: set_map)
    then have "locks_ok st'" using assms(3) h unfolding locks_ok_def 2(3) by simp
    moreover have "hm_remove h (lock_boxes st') = lock_boxes st"
      using hm_remove_fresh [OF h(1)] by (simp add: 2(3) hm_remove_def)
    ultimately show ?thesis using h(2) by (simp add: release_lock_def) (simp add: 2(3))
  qed
qed

lemma locks_ok_remove:
  assumes "locks_ok st"
  shows "locks_ok (st\<lparr>lock_boxes := hm_remove h (lock_boxes st)\<rparr>)"
proof -
  have "set (hm_remove h (lock_boxes st)) \<subseteq> set (lock_boxes st)" by (auto simp: hm_remove_def)
  then have "0 \<notin> fst ` set (hm_remove h (lock_boxes st))" using assms unfolding locks_ok_def by blast
  then show ?thesis
    using assms by (simp add: locks_ok_def hm_remove_distinct) (simp add: hm_remove_def distinct_map_filter)
qed

lemma release_locks_ok:
  assumes "locks_ok st" "release_lock h st = Inr st'"
  shows "locks_ok st' \<and> \<not> ok (release_lock h st')"
proof -
  have st': "h \<noteq> 0" "st' = st\<lparr>lock_boxes := hm_remove h (lock_boxes st)\<rparr>"
    using assms(2) by (auto simp: release_lock_def split: if_splits)
  then show ?thesis using locks_ok_remove [OF assms(1)] by (simp add: release_lock_def hm_remove_lookup)
qed

text \<open>What a command returns: its output as valid text without NUL, or NULL.\<close>

lemma iorun_result: "\<exists>r. iorun H cmd = Inr r \<and> (\<forall>s. r = Some s \<longrightarrow> utf8_valid s \<and> \<not> has_nul s)"
  by (auto simp: iorun_def Let_def string_to_c_char_owned_def utf8_valid_lossy split: option.split)

end
