(* ===== verification/Session.thy ===== *)
theory Session
  imports CallbackFrame WriteContract NativeClock
begin

text \<open>
  The components as a Lua task uses them: a client looks handles up by name or by index, writes, reads and
  waits through them, and the queue is flushed in between. Every step keeps the invariants of the handle
  cache and of the put queue, on which the contracts of the components rest, and what a handle stands for.
\<close>

subsection \<open>Handles keep their identity\<close>

text \<open>Nothing about which handles exist, what they are called and what they stand for has changed.\<close>

definition same_handles :: "world \<Rightarrow> world \<Rightarrow> bool" where
  "same_handles w w' \<longleftrightarrow> hdl_cache (env w') = hdl_cache (env w) \<and> next_raw w' = next_raw w
     \<and> use_hdl_put_value_bak (env w') = use_hdl_put_value_bak (env w) \<and> clocks w' = clocks w
     \<and> (\<forall>r. rel_option same_ident (chdls w r) (chdls w' r))"

lemma rel_same_ident_refl [simp]: "rel_option same_ident x x"
  by (cases x) simp_all

lemma same_handles_refl [simp]: "same_handles w w"
  by (simp add: same_handles_def)

lemma rel_same_ident_trans:
  "rel_option same_ident x y \<Longrightarrow> rel_option same_ident y z \<Longrightarrow> rel_option same_ident x z"
  by (cases x; cases y; cases z) (auto intro: same_ident_trans)

lemma same_handles_trans: "same_handles w w1 \<Longrightarrow> same_handles w1 w2 \<Longrightarrow> same_handles w w2"
  unfolding same_handles_def using rel_same_ident_trans by metis

lemma same_handles_chdl: "chdls w r = Some c \<Longrightarrow> same_ident c d \<Longrightarrow> same_handles w (set_chdl r d w)"
  by (simp add: same_handles_def)

lemma same_handles_Some:
  "same_handles w w' \<Longrightarrow> chdls w r = Some c \<Longrightarrow> \<exists>d. chdls w' r = Some d \<and> same_ident c d"
  unfolding same_handles_def by (metis option_rel_Some1)

text \<open>The blocks of the write functions.\<close>

lemma same_handles_rand: "same_handles w (w\<lparr>rand_calls := n\<rparr>)"
  by (simp add: same_handles_def)

lemma same_handles_put: "quiet_put X \<Longrightarrow> vpi_put_value X h v f w = Inr w' \<Longrightarrow> same_handles w w'"
  by (auto simp: quiet_put_value same_handles_def)

lemma same_handles_remove_stale: "remove_stale C h w = Some w' \<Longrightarrow> same_handles w w'"
  by (auto simp: remove_stale_def same_handles_def split: option.splits if_splits)

lemma same_handles_push: "same_handles w (do_push_hdl_put_value X C r w)"
  by (auto simp: do_push_hdl_put_value_def Let_def libverilua_register_rw_synch_cb_def
      register_and_free_eq same_handles_def)

interpretation ident_frame: block_frame X C "\<lambda>w w'. quiet_put X \<longrightarrow> same_handles w w'"
  for X C
  by unfold_locales
    (blast intro: same_handles_refl same_handles_trans same_handles_chdl same_handles_rand same_handles_put
      same_handles_remove_stale same_handles_push)+

subsection \<open>Operations that leave the queue alone\<close>

definition same_pending :: "world \<Rightarrow> world \<Rightarrow> bool" where
  "same_pending w w' \<longleftrightarrow> same_handles w w' \<and> hdl_put_value (env w') = hdl_put_value (env w)
     \<and> hdl_put_value_bak (env w') = hdl_put_value_bak (env w)
     \<and> (\<forall>r. map_option put_value_flag (chdls w' r) = map_option put_value_flag (chdls w r))"

lemma same_pending_chdl:
  "chdls w r = Some c \<Longrightarrow> same_ident c d \<Longrightarrow> put_value_flag d = put_value_flag c \<Longrightarrow> same_pending w (set_chdl r d w)"
  by (simp add: same_pending_def same_handles_chdl)

lemma same_handles_back:
  "same_handles w w' \<Longrightarrow> chdls w' r = Some d \<Longrightarrow> \<exists>c. chdls w r = Some c \<and> same_ident c d"
  unfolding same_handles_def by (metis option_rel_Some2)

lemma same_pending_inv:
  assumes "same_pending w w'" and inv: "put_inv C w"
  shows "put_inv C w'"
proof -
  have h: "same_handles w w'" and q: "queued w' = queued w"
    and b: "hdl_put_value_bak (env w') = hdl_put_value_bak (env w)"
    and u: "use_hdl_put_value_bak (env w') = use_hdl_put_value_bak (env w)"
    and f: "map_option put_value_flag (chdls w' r) = map_option put_value_flag (chdls w r)" for r
    using assms(1) by (simp_all add: same_pending_def same_handles_def queued_def)
  have flag: "(\<exists>c. chdls w' r = Some c \<and> put_value_flag c \<noteq> None)
      \<longleftrightarrow> (\<exists>c. chdls w r = Some c \<and> put_value_flag c \<noteq> None)" for r
    using f [of r] by (cases "chdls w r"; cases "chdls w' r") auto
  have old: "\<exists>c. chdls w r = Some c \<and> vpi_handle c = vpi_handle d \<and> put_value_flag c = put_value_flag d
      \<and> (handle_wf c \<longrightarrow> handle_wf d)" if "chdls w' r = Some d" for r d
    using same_handles_back [OF h that] f [of r] that by (auto simp: same_ident_def)
  have "s = t" if "chdls w' s = Some c" "chdls w' t = Some d" "vpi_handle c = vpi_handle d" "vpi_handle c \<noteq> 0" for s t c d
    using old [OF that(1)] old [OF that(2)] that(3,4) one_handle_per_signal [OF inv] by metis
  moreover have "handle_wf d \<and> (vpi_handle d = 0 \<longrightarrow> put_value_flag d = None)" if "chdls w' r = Some d" for r d
    using old [OF that] inv unfolding put_inv_def by metis
  ultimately show ?thesis
    using inv unfolding put_inv_def q b u flag by (elim conjE, intro conjI) (assumption | blast)+
qed

lemma same_pending_str:
  assumes "gen_get_value_str X C fmt r w = Inr (s, w')"
  shows "same_pending w w'"
proof -
  obtain c d where c: "chdls w r = Some c" and
    d: "backend_str C w c (as_str (get_value X (vpi_handle c) fmt w)) = (s, d)" "w' = set_chdl r d w"
    using assms by (auto simp: gen_get_value_str_def from_complex_handle_raw_def and_then_eq_Inr
        split: if_splits prod.splits)
  then show ?thesis
    using same_handles_chdl [OF c same_ident_str [OF d(1)]] backend_str_keeps [OF d(1)] by (simp add: same_pending_def)
qed

lemma same_pending_refl [simp]: "same_pending w w"
  by (simp add: same_pending_def)

lemma same_pending_trans: "same_pending w w1 \<Longrightarrow> same_pending w1 w2 \<Longrightarrow> same_pending w w2"
  using same_handles_trans unfolding same_pending_def by metis

interpretation pending_tables: table_frame same_pending
proof (unfold_locales)
  show "same_pending w (set_chdl r (set_count et m c) w)" if "chdls w r = Some c" for r et m c w
    by (rule same_pending_chdl [OF that]) (simp_all add: set_count_def same_ident_def handle_wf_def)
  show "same_pending w w2" if "same_pending w w1" "same_pending w1 w2" for w w1 w2
    using that by (rule same_pending_trans)
qed (auto simp: same_pending_def same_handles_def)

text \<open>Registering any other callback only makes a call to the simulator.\<close>

lemma same_pending_log: "same_pending w (log_call l w)"
  by (simp add: same_pending_def same_handles_def)

lemma same_pending_register:
  "same_pending w (snd (vpi_register_cb X d w))" "same_pending w (register_and_free X d w)"
  by (simp_all add: vpi_register_cb_def Let_def register_and_free_eq same_pending_def same_handles_def)

lemma same_pending_edge_always:
  "vpiml_register_edge_callback_always X et r t w = Inr w' \<Longrightarrow> same_pending w w'"
  by (auto simp: vpiml_register_edge_callback_always_def do_register_edge_callback_always_def
      register_value_change_def and_then_eq_Inr vpi_register_cb_def Let_def intro: same_pending_log)

text \<open>The callbacks a task can wait for, beside single edges.\<close>

inductive registration :: "externals \<Rightarrow> features \<Rightarrow> world \<Rightarrow> world \<Rightarrow> bool" for X C where
  "registration X C w (vpiml_register_rd_synch_callback X t w)"
| "registration X C w (vpiml_register_rw_synch_callback X C t w)"
| "registration X C w (vpiml_register_next_sim_time_callback X t w)"
| "registration X C w (vpiml_register_time_callback X d t w)"
| "vpiml_register_edge_callback_always X et r t w = Inr w' \<Longrightarrow> registration X C w w'"

lemma same_pending_registration: "registration X C w w' \<Longrightarrow> same_pending w w'"
  by (induction rule: registration.induct)
    (simp_all add: vpiml_register_rd_synch_callback_def vpiml_register_rw_synch_callback_def
      do_register_rw_synch_callback_def vpiml_register_next_sim_time_callback_def
      vpiml_register_time_callback_def same_pending_register same_pending_edge_always)

text \<open>The pools \<open>vpiml_set_shuffled\<close> draws from.\<close>

lemma same_pending_pool:
  "vpiml_shuffled_range_u32 r us w = Inr w' \<Longrightarrow> same_pending w w'"
  "vpiml_shuffled_range_u64 r ds w = Inr w' \<Longrightarrow> same_pending w w'"
  "vpiml_shuffled_range_hex_str r hs w = Inr w' \<Longrightarrow> same_pending w w'"
  "vpiml_reset_shuffled_range r w = Inr w' \<Longrightarrow> same_pending w w'"
  by (auto simp: vpiml_shuffled_range_u32_def vpiml_shuffled_range_u64_def vpiml_shuffled_range_hex_str_def
      vpiml_reset_shuffled_range_def and_then_eq_Inr same_ident_def handle_wf_def intro!: same_pending_chdl)

lemma same_handles_flushed: "same_handles w (flushed w)"
proof -
  have "rel_option same_ident (chdls w r) (clear_flags R (chdls w) r)" for r R
    by (cases "chdls w r") (simp_all add: clear_flags_def)
  then show ?thesis by (simp add: same_handles_def flushed_def)
qed

subsection \<open>Names and signals\<close>

text \<open>
  What the client relies on of the simulator: a name, and an index of a named object, denotes one fixed
  object (or none, \<open>0\<close>), and different names denote different objects.
\<close>

definition names_signals :: "externals \<Rightarrow> (string \<Rightarrow> vpiHandle) \<Rightarrow> bool" where
  "names_signals X sig \<longleftrightarrow>
     (\<forall>n w. handle_by_name X n w \<in> {0, sig (to_string_lossy n)})
     \<and> (\<forall>nm (i :: u32) w. sig nm \<noteq> 0 \<longrightarrow>
          handle_by_index X (sig nm) (unat i) w \<in> {0, sig (index_name nm i)})
     \<and> inj_on sig {nm. sig nm \<noteq> 0}"

lemma names_signalsD:
  assumes "names_signals X sig"
  shows "handle_by_name X n w \<in> {0, sig (to_string_lossy n)}"
    and "sig nm \<noteq> 0 \<Longrightarrow> handle_by_index X (sig nm) (unat i) w \<in> {0, sig (index_name nm (i :: u32))}"
    and "sig nm = sig nm' \<Longrightarrow> sig nm \<noteq> 0 \<Longrightarrow> nm = nm'"
proof -
  show "handle_by_name X n w \<in> {0, sig (to_string_lossy n)}"
    and "sig nm \<noteq> 0 \<Longrightarrow> handle_by_index X (sig nm) (unat i) w \<in> {0, sig (index_name nm (i :: u32))}"
    using assms unfolding names_signals_def by blast+
  show "sig nm = sig nm' \<Longrightarrow> sig nm \<noteq> 0 \<Longrightarrow> nm = nm'"
    using assms unfolding names_signals_def by (metis (mono_tags) inj_onD mem_Collect_eq)
qed

definition named :: "(string \<Rightarrow> vpiHandle) \<Rightarrow> world \<Rightarrow> bool" where
  "named sig w \<longleftrightarrow> (\<forall>r c. chdls w r = Some c \<longrightarrow> vpi_handle c \<in> {0, sig (ch_name c)})"

lemma namedD: "named sig w \<Longrightarrow> chdls w r = Some c \<Longrightarrow> vpi_handle c = 0 \<or> vpi_handle c = sig (ch_name c)"
  unfolding named_def by blast

text \<open>A native clock is made on the handle of a signal.\<close>

definition clocks_ok :: "world \<Rightarrow> bool" where
  "clocks_ok w \<longleftrightarrow> (\<forall>h k. clocks w h = Some k \<longrightarrow>
     (\<exists>c. chdls w (complex_handle_raw k) = Some c \<and> vpi_handle c \<noteq> 0))"

definition client_inv :: "features \<Rightarrow> (string \<Rightarrow> vpiHandle) \<Rightarrow> world \<Rightarrow> bool" where
  "client_inv C sig w \<longleftrightarrow>
     handle_inv w \<and> put_inv C w \<and> named sig w \<and> clocks_ok w \<and> \<not> use_hdl_put_value_bak (env w)"

text \<open>What a handle is called and stands for never changes.\<close>

definition keeps_signals :: "world \<Rightarrow> world \<Rightarrow> bool" where
  "keeps_signals w w' \<longleftrightarrow> (\<forall>r c. chdls w r = Some c \<longrightarrow>
     (\<exists>d. chdls w' r = Some d \<and> vpi_handle d = vpi_handle c \<and> ch_name d = ch_name c))"

lemma keeps_signals_refl [simp]: "keeps_signals w w"
  by (simp add: keeps_signals_def)

lemma keeps_signals_trans: "keeps_signals w w1 \<Longrightarrow> keeps_signals w1 w2 \<Longrightarrow> keeps_signals w w2"
  unfolding keeps_signals_def by metis

lemma clocks_ok_keeps: "clocks_ok w \<Longrightarrow> clocks w' = clocks w \<Longrightarrow> keeps_signals w w' \<Longrightarrow> clocks_ok w'"
  unfolding clocks_ok_def keeps_signals_def by metis

lemma extends_keeps: "extends w w' \<Longrightarrow> keeps_signals w w'"
  using extendsD(2) unfolding keeps_signals_def by metis

definition client_keeps :: "features \<Rightarrow> (string \<Rightarrow> vpiHandle) \<Rightarrow> world \<Rightarrow> world \<Rightarrow> bool" where
  "client_keeps C sig w w' \<longleftrightarrow> (client_inv C sig w \<longrightarrow> client_inv C sig w' \<and> keeps_signals w w')"

lemma client_keeps_refl: "client_keeps C sig w w"
  by (simp add: client_keeps_def)

lemma client_keeps_trans: "client_keeps C sig w w1 \<Longrightarrow> client_keeps C sig w1 w2 \<Longrightarrow> client_keeps C sig w w2"
  unfolding client_keeps_def using keeps_signals_trans by blast

text \<open>A lookup answers from the cache, or makes one new handle, for what the simulator knows under its name.\<close>

definition new_handle :: "(string \<Rightarrow> vpiHandle) \<Rightarrow> world \<Rightarrow> world \<Rightarrow> bool" where
  "new_handle sig w w' \<longleftrightarrow> (\<exists>h nm wd c r. h \<in> {0, sig nm} \<and> hdl_cache (env w) nm = None \<and> utf8_valid nm
     \<and> complex_handle_new h nm wd = Inr c \<and> cache_handle nm c w = (r, w'))"

lemma by_name_new:
  assumes "names_signals X sig" and "complex_handle_by_name X n w = Inr (r, w')"
  shows "w' = w \<or> new_handle sig w w'"
proof (cases "hdl_cache (env w) (to_string_lossy n)")
  case None
  then obtain wd c where "complex_handle_new (handle_by_name X n w) (to_string_lossy n) wd = Inr c"
    "cache_handle (to_string_lossy n) c w = (r, w')"
    using assms(2) by (auto simp: complex_handle_by_name_def Let_def and_then_eq_Inr)
  then show ?thesis
    using None names_signalsD(1) [OF assms(1)] utf8_valid_lossy unfolding new_handle_def by blast
next
  case (Some q)
  then show ?thesis using assms(2) by_name_hit by simp
qed

definition lookup_on_signal :: "lookup \<Rightarrow> world \<Rightarrow> bool" where
  "lookup_on_signal k w = (case k of By_index p i \<Rightarrow> signal_at w p | _ \<Rightarrow> True)"

lemma lookup_new:
  assumes names: "names_signals X sig" and inv: "handle_inv w" "named sig w"
    and k: "lookup_on_signal k w" and run: "run_lookup X k w = Inr (v, w')"
  shows "w' = w \<or> new_handle sig w w'"
proof (cases k)
  case (By_name n)
  then show ?thesis using by_name_new [OF names] run by simp
next
  case (By_name_safe n)
  then have "\<exists>r. complex_handle_by_name X n w = Inr (r, w')"
    using run by (auto simp: vpiml_handle_by_name_safe_def and_then_eq_Inr)
  then show ?thesis using by_name_new [OF names] by blast
next
  case (By_index p i)
  obtain c where c: "chdls w p = Some c"
    using run by (auto simp: By_index vpiml_handle_by_index_def and_then_eq_Inr)
  have nm: "to_string_lossy (ch_name c) = ch_name c" "utf8_valid (index_name (ch_name c) i)"
    using handle_invD(2) [OF inv(1) c] by (simp_all add: utf8_index_name)
  have h: "vpi_handle c = sig (ch_name c)" "sig (ch_name c) \<noteq> 0"
    using k c namedD [OF inv(2) c] by (auto simp: By_index lookup_on_signal_def signal_at_def)
  show ?thesis
  proof (cases "hdl_cache (env w) (index_name (ch_name c) i)")
    case None
    then obtain wd d where d: "complex_handle_new (handle_by_index X (sig (ch_name c)) (unat i) w)
        (index_name (ch_name c) i) wd = Inr d" "cache_handle (index_name (ch_name c) i) d w = (v, w')"
      using run c nm h
      by (auto simp: By_index vpiml_handle_by_index_def from_raw_Some Let_def and_then_eq_Inr split: if_splits)
    then show ?thesis using None nm(2) names_signalsD(2) [OF names h(2)] unfolding new_handle_def by blast
  next
    case (Some q)
    then show ?thesis
      using run c nm by (simp add: By_index vpiml_handle_by_index_def from_raw_Some Let_def)
  qed
qed

lemma new_handle_inv:
  assumes names: "names_signals X sig" and inv: "client_inv C sig w" and new: "new_handle sig w w'"
  shows "client_inv C sig w'" and "extends w w'"
proof -
  obtain h nm wd c r where h: "h \<in> {0, sig nm}" and fresh: "hdl_cache (env w) nm = None" and nm: "utf8_valid nm"
    and c: "complex_handle_new h nm wd = Inr c" and w': "cache_handle nm c w = (r, w')"
    using new unfolding new_handle_def by blast
  have i: "handle_inv w" "put_inv C w" "named sig w" "\<not> use_hdl_put_value_bak (env w)" "clocks_ok w"
    using inv by (simp_all add: client_inv_def)
  from cache_handle_inv [OF i(1) fresh nm c w'] have hi: "handle_inv w'" and ext: "extends w w'" by blast+
  then show "extends w w'" by simp
  have heap: "chdls w' = (chdls w)(r \<mapsto> c\<lparr>ch_env := True\<rparr>)" and q: "queued w' = queued w"
    and b: "hdl_put_value_bak (env w') = hdl_put_value_bak (env w)"
    and u: "use_hdl_put_value_bak (env w') = use_hdl_put_value_bak (env w)" and r: "r = int (next_raw w)"
    using w' by (auto simp: cache_handle_def Let_def queued_def)
  have old: "chdls w r = None" using handle_invD(2) [OF i(1), of r] r by (cases "chdls w r") auto
  have nw: "vpi_handle c = h" "put_value_flag c = None" "handle_wf (c\<lparr>ch_env := True\<rparr>)" "ch_name c = nm"
    using complex_handle_new_wf [OF c] complex_handle_new_name [OF c] by (auto simp: handle_wf_def)
  have nm': "named sig w'" using i(3) h nw(1,4) by (auto simp: named_def heap)
  have other: "vpi_handle d \<noteq> h" if d: "chdls w s = Some d" and "h \<noteq> 0" for s d
  proof
    assume e: "vpi_handle d = h"
    then have "sig (ch_name d) = sig nm" "sig nm \<noteq> 0" using namedD [OF i(3) d] e h that(2) by auto
    then have "ch_name d = nm" using names_signalsD(3) [OF names] by metis
    then show False using handle_invD(1) [OF i(1), of nm s] d fresh by auto
  qed
  have flag: "(\<exists>d. chdls w' s = Some d \<and> put_value_flag d \<noteq> None)
      \<longleftrightarrow> (\<exists>d. chdls w s = Some d \<and> put_value_flag d \<noteq> None)" for s
    using old nw(2) by (simp add: heap)
  have "s = t" if "chdls w' s = Some a" "chdls w' t = Some b" "vpi_handle a = vpi_handle b" "vpi_handle a \<noteq> 0" for s t a b
    using that nw(1) other [of s a] other [of t b] one_handle_per_signal [OF i(2), of s a t b]
    by (auto simp: heap split: if_splits)
  moreover have "handle_wf d \<and> (vpi_handle d = 0 \<longrightarrow> put_value_flag d = None)" if "chdls w' s = Some d" for s d
    using that i(2) nw(2,3) by (auto simp: heap put_inv_def split: if_splits)
  ultimately have "put_inv C w'"
    using i(2) unfolding put_inv_def q b u flag by (elim conjE, intro conjI) (assumption | blast)+
  moreover have "clocks w' = clocks w" using w' by (auto simp: cache_handle_def Let_def)
  then have "clocks_ok w'" using clocks_ok_keeps [OF i(5) _ extends_keeps [OF ext]] by blast
  ultimately show "client_inv C sig w'" using hi nm' i(4) u by (simp add: client_inv_def)
qed

text \<open>What the other operations keep.\<close>

lemma same_handles_keeps: "same_handles w w' \<Longrightarrow> keeps_signals w w'"
  using same_handles_Some unfolding keeps_signals_def same_ident_def by metis

lemma same_handles_handle_inv:
  assumes h: "same_handles w w'" and inv: "handle_inv w"
  shows "handle_inv w'"
proof -
  have e: "hdl_cache (env w') = hdl_cache (env w)" "next_raw w' = next_raw w"
    using h by (simp_all add: same_handles_def)
  have "(\<exists>c. chdls w' r = Some c \<and> ch_name c = nm) \<longleftrightarrow> (\<exists>c. chdls w r = Some c \<and> ch_name c = nm)" for r nm
    using same_handles_Some [OF h, of r] same_handles_back [OF h, of r] unfolding same_ident_def by metis
  moreover have "handle_wf d \<and> ch_env d \<and> utf8_valid (ch_name d) \<and> r < int (next_raw w) \<and> 0 < r"
    if d: "chdls w' r = Some d" for r d
    using same_handles_back [OF h d] handle_invD(2) [OF inv, of r] by (auto simp: same_ident_def)
  ultimately show ?thesis using handle_invD(1,3) [OF inv] unfolding handle_inv_def e by simp
qed

lemma same_handles_named:
  assumes "same_handles w w'" and "named sig w"
  shows "named sig w'"
  unfolding named_def
proof (intro allI impI)
  fix r d assume "chdls w' r = Some d"
  then obtain c where "chdls w r = Some c" "same_ident c d" using same_handles_back [OF assms(1)] by blast
  then show "vpi_handle d \<in> {0, sig (ch_name d)}" using namedD [OF assms(2)] by (auto simp: same_ident_def)
qed

lemma client_inv_same:
  assumes i: "client_inv C sig w" and h: "same_handles w w'" and p: "put_inv C w'"
  shows "client_inv C sig w' \<and> keeps_signals w w'"
proof -
  have k: "keeps_signals w w'" and e: "clocks w' = clocks w"
    "use_hdl_put_value_bak (env w') = use_hdl_put_value_bak (env w)"
    using h same_handles_keeps by (simp_all add: same_handles_def)
  have "handle_inv w'" "named sig w'" "clocks_ok w'"
    using i same_handles_handle_inv [OF h] same_handles_named [OF h] clocks_ok_keeps [OF _ e(1) k]
    by (simp_all add: client_inv_def)
  then show ?thesis using i p k e(2) by (simp add: client_inv_def)
qed

lemma client_inv_pending:
  "client_inv C sig w \<Longrightarrow> same_pending w w' \<Longrightarrow> client_inv C sig w' \<and> keeps_signals w w'"
  using client_inv_same same_pending_inv unfolding client_inv_def same_pending_def by blast

lemma client_write_inv:
  assumes "quiet_put X" "client_inv C sig w" "signal_at w r" "vpiml_write X C q r w = Inr w'"
  shows "client_inv C sig w' \<and> keeps_signals w w'"
proof (rule client_inv_same [OF assms(2)])
  show "same_handles w w'" using ident_frame.writes.written [OF assms(4)] assms(1) by blast
  show "put_inv C w'"
    using put_frame.written [OF assms(4)] assms(1-3) by (simp add: client_inv_def put_inv_at_def)
qed

subsection \<open>Native clocks\<close>

text \<open>Beside its writes a clock changes only the clocks, the registry and the log.\<close>

lemma clock_change_keeps:
  assumes "chdls w' = chdls w" "env w' = env w" "next_raw w \<le> next_raw w'" "clocks_ok w \<Longrightarrow> clocks_ok w'"
  shows "client_keeps C sig w w'"
proof -
  have "handle_inv w'" if "handle_inv w" using that assms(1-3) unfolding handle_inv_def by fastforce
  moreover have "put_inv C w'" if "put_inv C w" using that assms(1,2) by (simp add: put_inv_def queued_def)
  moreover have "keeps_signals w w'" using assms(1) by (simp add: keeps_signals_def)
  moreover have "named sig w' = named sig w" using assms(1) by (simp add: named_def)
  ultimately show ?thesis using assms(2,4) by (simp add: client_keeps_def client_inv_def)
qed

lemma clocks_ok_set:
  "clocks_ok w \<Longrightarrow> map_option complex_handle_raw (clocks w h) = Some (complex_handle_raw k) \<Longrightarrow>
   clocks_ok (set_clock h k w)"
  unfolding clocks_ok_def by (auto split: if_splits) metis+

lemma clocks_ok_frame [simp]:
  "clocks_ok (log_call l w) = clocks_ok w" "clocks_ok (unregister_signal s w) = clocks_ok w"
  "clocks_ok (w\<lparr>active_signals := a\<rparr>) = clocks_ok w"
  by (simp_all add: clocks_ok_def unregister_signal_def)

lemma unregister_frame [simp]: "chdls (unregister_signal s w) = chdls w" "env (unregister_signal s w) = env w"
  by (simp_all add: unregister_signal_def)

lemma clock_set_keeps:
  "clocks w h = Some k0 \<Longrightarrow> complex_handle_raw k = complex_handle_raw k0 \<Longrightarrow> client_keeps C sig w (set_clock h k w)"
  by (rule clock_change_keeps) (simp_all add: clocks_ok_set)

lemma clock_new_keeps:
  assumes "native_clock_new r w = Inr (h, w')" and "signal_at w r"
  shows "client_keeps C sig w w'"
proof (rule clock_change_keeps)
  obtain c where c: "chdls w r = Some c" using assms(1) by (auto simp: native_clock_new_def and_then_eq_Inr)
  then show "clocks_ok w'" if "clocks_ok w"
    using that assms by (auto simp: native_clock_new_def from_raw_Some Let_def clocks_ok_def signal_at_def split: if_splits)
qed (use assms(1) in \<open>auto simp: native_clock_new_def and_then_eq_Inr Let_def split: if_splits\<close>)

lemma clock_stop_keeps:
  assumes "clock_stop h w = Inr w'"
  shows "client_keeps C sig w w'"
proof -
  obtain k where k: "clocks w h = Some k" and w': "w' = (case cb_handle k of None \<Rightarrow> unregister_signal (signal_hdl k) w
      | Some hdl \<Rightarrow> vpi_remove_cb hdl (set_clock h (k\<lparr>cb_handle := None\<rparr>) (unregister_signal (signal_hdl k) w)))"
    using assms by (auto simp: clock_stop_def and_then_eq_Inr Let_def split: option.splits)
  show ?thesis
    by (rule clock_change_keeps)
      (auto simp: w' vpi_remove_cb_def k intro: clocks_ok_set split: option.splits)
qed

lemma clock_drop_keeps:
  assumes "clock_drop h w = Inr w'"
  shows "client_keeps C sig w w'"
proof -
  obtain w1 where w1: "clock_stop h w = Inr w1" and w': "w' = w1\<lparr>clocks := (clocks w1)(h := None)\<rparr>"
    using assms by (auto simp: clock_drop_def and_then_eq_Inr)
  have "client_keeps C sig w1 w'" by (rule clock_change_keeps) (auto simp: w' clocks_ok_def)
  then show ?thesis by (rule client_keeps_trans [OF clock_stop_keeps [OF w1]])
qed

lemma action_value_keeps:
  assumes X: "quiet_put X" and k: "clocks w h = Some k" and w': "action_value X C f (complex_handle_raw k) v w = Inr w'"
  shows "client_keeps C sig w w' \<and> clocks w' = clocks w"
proof -
  have d: "deferred_op X C f (OpValue v) (complex_handle_raw k) w = Inr w'" using w' by simp
  have h: "same_handles w w'" using ident_frame.writes.deferred_op [OF d] X by blast
  have "put_inv C w'" if "client_inv C sig w"
  proof -
    have "signal_at w (complex_handle_raw k)"
      using that k unfolding client_inv_def clocks_ok_def signal_at_def by (metis option.inject)
    then have "put_inv_at C (complex_handle_raw k) w" using that by (simp add: put_inv_at_def client_inv_def)
    then show ?thesis using put_frame.deferred_op [OF d] X by (simp add: put_inv_at_def)
  qed
  then show ?thesis using client_inv_same [OF _ h] h by (simp add: client_keeps_def same_handles_def)
qed

lemma toggle_keeps:
  assumes X: "quiet_put X" and run: "toggle X C b h w = Inr (e, w')"
  shows "client_keeps C sig w w'"
proof -
  obtain k w1 where k: "clocks w h = Some k"
    and w1: "action_value X C vpiNoDelay (complex_handle_raw k) (ucast (current_val k)) w = Inr w1"
    using run by (auto simp: toggle_def and_then_eq_Inr)
  note a = action_value_keeps [OF X k w1]
  have c: "clocks w1 h = Some k" using a k by simp
  let ?k = "k\<lparr>current_val := current_val k XOR 1\<rparr>" and ?w = "set_clock h (k\<lparr>current_val := current_val k XOR 1\<rparr>) w1"
  obtain l n where "w' = log_call l ?w \<or> w' = unregister_signal (signal_hdl k) (log_call l ?w)
      \<or> w' = set_clock h (?k\<lparr>cb_handle := Some n\<rparr>) (log_call l ?w)"
    using run k w1 c by (auto simp: toggle_def get_clock_Some vpi_register_cb_def Let_def split: if_splits)
  then have "client_keeps C sig w1 w'"
    using c by (elim disjE; hypsubst) (rule clock_change_keeps; simp add: clocks_ok_set)+
  then show ?thesis using a client_keeps_trans by blast
qed

lemma clock_start_keeps:
  assumes X: "quiet_put X" and run: "clock_start X C h p hi sh w = Inr (e, w')"
  shows "client_keeps C sig w w'"
proof -
  obtain k where k: "clocks w h = Some k" using run by (auto simp: clock_start_def and_then_eq_Inr)
  let ?k = "k\<lparr>period_steps := p, high_steps := hi, current_val := (if sh then 1 else 0)\<rparr>"
  let ?w = "set_clock h ?k (w\<lparr>active_signals := insert (signal_hdl k) (active_signals w)\<rparr>)"
  have "w' = w \<or> toggle X C True h ?w = Inr (e, w')"
    using run k by (auto simp: clock_start_def get_clock_Some split: if_splits)
  moreover have "client_keeps C sig w ?w"
    by (rule clock_change_keeps) (auto intro: clocks_ok_set simp: k)
  ultimately show ?thesis
    using client_keeps_refl client_keeps_trans toggle_keeps [OF X] by blast
qed

lemma vpiml_clock_start_keeps:
  "quiet_put X \<Longrightarrow> vpiml_native_clock_start X C h p hi sh w = Inr (e, w') \<Longrightarrow> client_keeps C sig w w'"
  using clock_start_keeps client_keeps_refl by (auto simp: vpiml_native_clock_start_def split: if_splits)

lemma vpiml_clock_stop_keeps: "vpiml_native_clock_stop h w = Inr w' \<Longrightarrow> client_keeps C sig w w'"
  using clock_stop_keeps client_keeps_refl by (auto simp: vpiml_native_clock_stop_def split: if_splits)

lemma clock_destroy_keeps:
  assumes "vpiml_native_clock_destroy h w = Inr w'"
  shows "client_keeps C sig w w'"
proof (cases "h = 0")
  case True
  then show ?thesis using assms client_keeps_refl by (simp add: vpiml_native_clock_destroy_def)
next
  case False
  then obtain k where k: "clocks w h = Some k" using assms by (auto simp: vpiml_native_clock_destroy_def and_then_eq_Inr)
  have "client_keeps C sig w (set_clock h (k\<lparr>destroy_pending := True\<rparr>) w)"
    by (rule clock_set_keeps [OF k]) simp
  moreover have "clock_stop h (set_clock h (k\<lparr>destroy_pending := True\<rparr>) w) = Inr w' \<or> clock_drop h w = Inr w'"
    using assms False k by (auto simp: vpiml_native_clock_destroy_def get_clock_Some split: if_splits)
  ultimately show ?thesis using client_keeps_trans clock_stop_keeps clock_drop_keeps by blast
qed

lemma toggle_callback_keeps:
  assumes X: "quiet_put X" and run: "run_toggle_callback X C h w = Inr w'"
  shows "client_keeps C sig w w'"
proof -
  obtain k where k: "clocks w h = Some k" using run by (auto simp: run_toggle_callback_def and_then_eq_Inr)
  let ?w1 = "set_clock h (k\<lparr>cb_handle := None\<rparr>) w"
  have w1: "client_keeps C sig w ?w1" by (rule clock_set_keeps [OF k]) simp
  show ?thesis
  proof (cases "destroy_pending k")
    case True
    then have "clock_drop h ?w1 = Inr w'" using run k by (simp add: run_toggle_callback_def get_clock_Some Let_def)
    then show ?thesis by (rule client_keeps_trans [OF w1 clock_drop_keeps])
  next
    case False
    let ?w2 = "set_clock h (k\<lparr>cb_handle := None, in_callback := True\<rparr>) ?w1"
    have w2: "client_keeps C sig w ?w2"
      by (rule client_keeps_trans [OF w1 clock_set_keeps [of _ _ "k\<lparr>cb_handle := None\<rparr>"]]) simp_all
    obtain e w3 k3 where w3: "toggle X C False h ?w2 = Inr (e, w3)" and k3: "clocks w3 h = Some k3"
      and rest: "w' = set_clock h (k3\<lparr>in_callback := False\<rparr>) w3
        \<or> (\<exists>w4. clock_stop h (set_clock h (k3\<lparr>in_callback := False\<rparr>) w3) = Inr w4 \<and> clock_drop h w4 = Inr w')"
      using run k False by (auto simp: run_toggle_callback_def get_clock_Some and_then_eq_Inr Let_def split: if_splits)
    have "client_keeps C sig w3 (set_clock h (k3\<lparr>in_callback := False\<rparr>) w3)"
      by (rule clock_set_keeps [OF k3]) simp
    then have "client_keeps C sig w3 w'"
      using rest client_keeps_trans clock_stop_keeps clock_drop_keeps by blast
    then show ?thesis by (rule client_keeps_trans [OF client_keeps_trans [OF w2 toggle_keeps [OF X w3]]])
  qed
qed

subsection \<open>The session\<close>

text \<open>
  What a client does between callbacks: look up, write to signals it found, read, wait for edges, set
  and reset the pools of random values, run native clocks on signals it found; and the flush.
\<close>

inductive client_step :: "externals \<Rightarrow> features \<Rightarrow> world \<Rightarrow> world \<Rightarrow> bool" for X C where
  client_look: "run_lookup X k w = Inr (v, w') \<Longrightarrow> lookup_on_signal k w \<Longrightarrow> client_step X C w w'"
| client_write: "signal_at w r \<Longrightarrow> vpiml_write X C q r w = Inr w' \<Longrightarrow> client_step X C w w'"
| client_read: "gen_get_value_str X C fmt r w = Inr (s, w') \<Longrightarrow> client_step X C w w'"
| client_wait: "vpiml_register_edge_callback X C et r t w = Inr w' \<Longrightarrow> client_step X C w w'"
| client_register: "registration X C w w' \<Longrightarrow> client_step X C w w'"
| client_pool32: "vpiml_shuffled_range_u32 r us w = Inr w' \<Longrightarrow> client_step X C w w'"
| client_pool64: "vpiml_shuffled_range_u64 r ds w = Inr w' \<Longrightarrow> client_step X C w w'"
| client_pool_hex: "vpiml_shuffled_range_hex_str r hs w = Inr w' \<Longrightarrow> client_step X C w w'"
| client_pool_reset: "vpiml_reset_shuffled_range r w = Inr w' \<Longrightarrow> client_step X C w w'"
| client_clock_new: "native_clock_new r w = Inr (h, w') \<Longrightarrow> signal_at w r \<Longrightarrow> client_step X C w w'"
| client_clock_start: "vpiml_native_clock_start X C h p hi sh w = Inr (e, w') \<Longrightarrow> client_step X C w w'"
| client_clock_stop: "vpiml_native_clock_stop h w = Inr w' \<Longrightarrow> client_step X C w w'"
| client_clock_destroy: "vpiml_native_clock_destroy h w = Inr w' \<Longrightarrow> client_step X C w w'"
| client_flush: "apply_pending_put_values X C w = Inr w' \<Longrightarrow> client_step X C w w'"

lemma client_step_inv:
  assumes X: "quiet_put X" and names: "names_signals X sig"
    and st: "client_step X C w w'" and inv: "client_inv C sig w"
  shows "client_inv C sig w' \<and> keeps_signals w w'"
  using st
proof cases
  case (client_look k v)
  have "w' = w \<or> new_handle sig w w'"
    using lookup_new [OF names _ _ client_look(2,1)] inv by (simp add: client_inv_def)
  then show ?thesis using new_handle_inv [OF names inv] inv extends_keeps keeps_signals_refl by blast
next
  case (client_write r q)
  then show ?thesis using client_write_inv [OF X inv] by blast
next
  case (client_flush)
  have i: "put_inv C w" "\<not> use_hdl_put_value_bak (env w)" using inv by (simp_all add: client_inv_def)
  have "w' = flushed w" using flush_returns(2) [OF X i client_flush] .
  then show ?thesis
    using client_inv_same [OF inv same_handles_flushed] flushed_inv(1) [OF i(1)] i(2) by simp
next
  case (client_clock_new r h)
  then show ?thesis using clock_new_keeps inv unfolding client_keeps_def by blast
next
  case (client_clock_start h p hi sh e)
  then show ?thesis using vpiml_clock_start_keeps [OF X] inv unfolding client_keeps_def by blast
next
  case (client_clock_stop h)
  then show ?thesis using vpiml_clock_stop_keeps inv unfolding client_keeps_def by blast
next
  case (client_clock_destroy h)
  then show ?thesis using clock_destroy_keeps inv unfolding client_keeps_def by blast
qed (rule client_inv_pending [OF inv], erule same_pending_str pending_tables.wait same_pending_registration same_pending_pool)+

lemma client_steps_inv:
  assumes "quiet_put X" "names_signals X sig" "(client_step X C)\<^sup>*\<^sup>* w w'" "client_inv C sig w"
  shows "client_inv C sig w' \<and> keeps_signals w w'"
  using assms(3)
proof (induction rule: rtranclp_induct)
  case base
  then show ?case using assms(4) by simp
next
  case (step v u)
  then show ?case using client_step_inv [OF assms(1,2)] keeps_signals_trans by blast
qed

lemma client_inv_start: "client_inv C sig (start_world X)"
proof -
  have "handle_inv (start_world X)" using handle_inv_empty by (simp add: handle_inv_def start_world_def)
  then show ?thesis
    by (simp add: client_inv_def clocks_ok_def named_def put_inv_def queued_def start_world_def empty_world_def default_env_def)
qed

end
