(* ===== verification/Simulation.thy ===== *)
theory Simulation
  imports Session
begin

text \<open>
  The whole library under a simulator and a Lua side that only uses the exported functions: the
  simulator fires callbacks in any order, the tasks they resume act as clients. The invariants the other
  theories assume hold in every state this can reach, and a write through a name drives the signal the
  simulator knows under that name.
\<close>

subsection \<open>Callbacks and tasks\<close>

text \<open>Whatever a Lua function does, successful or not, it does through the exported functions.\<close>

definition lua_clients :: "externals \<Rightarrow> features \<Rightarrow> bool" where
  "lua_clients X C \<longleftrightarrow> (\<forall>fn ts w. (client_step X C)\<^sup>*\<^sup>* w (snd (lua_pcall X fn ts w)))"

definition client_setting :: "externals \<Rightarrow> features \<Rightarrow> (string \<Rightarrow> vpiHandle) \<Rightarrow> bool" where
  "client_setting X C sig \<longleftrightarrow> quiet_put X \<and> names_signals X sig \<and> lua_clients X C"

lemma client_keeps_pending: "same_pending w w' \<Longrightarrow> client_keeps C sig w w'"
  unfolding client_keeps_def using client_inv_pending by blast

lemma client_keeps_step: "client_setting X C sig \<Longrightarrow> client_step X C w w' \<Longrightarrow> client_keeps C sig w w'"
  unfolding client_keeps_def client_setting_def using client_step_inv by blast

lemma client_keeps_lua:
  assumes "client_setting X C sig" and "call_lua_tasks X fn ts w = (None, w')"
  shows "client_keeps C sig w w'"
proof -
  have "(client_step X C)\<^sup>*\<^sup>* (log_call (LuaCall fn ts) w) w'"
    using assms unfolding client_setting_def lua_clients_def call_lua_tasks_def by (metis snd_conv)
  then have "client_keeps C sig (log_call (LuaCall fn ts) w) w'"
    using assms(1) client_steps_inv unfolding client_keeps_def client_setting_def by blast
  then show ?thesis by (rule client_keeps_trans [OF client_keeps_pending [OF same_pending_log]])
qed

lemma same_pending_rd: "same_pending w (set_rd_phase b w)"
  by (simp add: same_pending_def same_handles_def set_rd_phase_def)

lemma same_pending_flags:
  "same_pending w (w\<lparr>env := (env w)\<lparr>rw_phase_passed := p, rw_cb_re_registered := q\<rparr>\<rparr>)"
  by (simp add: same_pending_def same_handles_def)

lemma same_pending_slot_callbacks:
  "same_pending w (libverilua_do_register_next_sim_time_cb X w)" "same_pending w (libverilua_register_rw_synch_cb X w)"
  by (simp_all add: libverilua_do_register_next_sim_time_cb_def libverilua_register_rw_synch_cb_def
      same_pending_register)

interpretation client_callbacks: callback_frame "\<lambda>w w'. client_setting X C sig \<longrightarrow> client_keeps C sig w w'" X C
  for X C sig
proof (unfold_locales; intro impI)
  show "client_keeps C sig w w'" if "client_setting X C sig" "call_lua_tasks X fn ts w = (None, w')" for fn ts w w'
    using that by (rule client_keeps_lua)
  show "client_keeps C sig w w'" if "client_setting X C sig" "apply_pending_put_values X C w = Inr w'" for w w'
    using client_keeps_step [OF that(1) client_flush [OF that(2)]] .
  show "client_keeps C sig w (do_register_rw_synch_callback X t ep w)" for t ep w
    unfolding do_register_rw_synch_callback_def by (rule client_keeps_pending [OF same_pending_register(1)])
  show "client_keeps C sig w (set_rd_phase b w)" for b w
    by (rule client_keeps_pending [OF same_pending_rd])
qed (blast intro: client_keeps_refl client_keeps_trans client_keeps_pending pending_tables.counts
      pending_tables.waits pending_tables.chunks pending_tables.infos pending_tables.slab
      pending_tables.edge_reg pending_tables.chunk_reg pending_tables.removed)+

lemma client_keeps_toggle:
  "client_setting X C sig \<Longrightarrow> run_toggle_callback X C h w = Inr w' \<Longrightarrow> client_keeps C sig w w'"
  unfolding client_setting_def using toggle_callback_keeps by blast

lemma client_keeps_flush_callback:
  assumes X: "client_setting X C sig" and run: "run_flush_put_values X C w = Inr w'"
  shows "client_keeps C sig w w'"
proof (cases "feat_inertial_put C")
  case True
  then have "w' = libverilua_do_register_next_sim_time_cb X w \<or> w' = w"
    using run by (auto simp: run_flush_put_values_def split: if_splits)
  then show ?thesis using client_keeps_pending same_pending_slot_callbacks(1) client_keeps_refl by blast
next
  case False
  let ?next = "\<lambda>w1. if \<not> rw_phase_passed (env w1) \<and> \<not> feat_inner_step C
    then libverilua_do_register_next_sim_time_cb X w1 else w1"
  obtain w1 where w1: "apply_pending_put_values X C w = Inr w1"
    and w': "w' = (?next w1)\<lparr>env := (env (?next w1))\<lparr>rw_phase_passed := True, rw_cb_re_registered := False\<rparr>\<rparr>"
    using run False by (auto simp: run_flush_put_values_def and_then_eq_Inr Let_def)
  have "same_pending w1 (?next w1)" using same_pending_slot_callbacks(1) by simp
  then have "same_pending w1 w'" unfolding w' by (rule same_pending_trans) (rule same_pending_flags)
  then show ?thesis
    using client_keeps_trans [OF _ client_keeps_pending] client_callbacks.flush [OF w1] X by blast
qed

lemma client_keeps_next_time:
  assumes "run_next_sim_time_cb X C w = Inr w'"
  shows "client_keeps C sig w w'"
proof -
  let ?w1 = "w\<lparr>env := (env w)\<lparr>rw_phase_passed := False, rw_cb_re_registered := False\<rparr>\<rparr>"
  obtain w2 where w2: "(if feat_opt_cb_task C then register_pending X C (merge_pending C ?w1) else Inr ?w1) = Inr w2"
    and w': "w' = (if feat_wave_vpi C then libverilua_do_register_next_sim_time_cb X w2
                      else libverilua_register_rw_synch_cb X w2)"
    using assms by (auto simp: run_next_sim_time_cb_def and_then_eq_Inr Let_def)
  have "same_pending ?w1 w2"
    using w2 pending_tables.trans [OF pending_tables.merge_pending pending_tables.register_pending]
    by (auto split: if_splits)
  moreover have "same_pending w2 w'" using same_pending_slot_callbacks by (simp add: w')
  ultimately have "same_pending w w'" using same_pending_trans same_pending_flags by blast
  then show ?thesis by (rule client_keeps_pending)
qed

subsection \<open>The simulation\<close>

text \<open>
  A step of the simulation: a client acts, or the simulator fires a callback, whichever and whenever
  it likes. A step that panics ends the process and leads nowhere.
\<close>

inductive sim_step :: "externals \<Rightarrow> features \<Rightarrow> world \<Rightarrow> world \<Rightarrow> bool" for X C where
  sim_client: "client_step X C w w' \<Longrightarrow> sim_step X C w w'"
| sim_edge: "run_edge_callback X C d v w = Inr w' \<Longrightarrow> sim_step X C w w'"
| sim_edge_always: "run_edge_callback_always X d v w = Inr w' \<Longrightarrow> sim_step X C w w'"
| sim_edge_chunk: "run_edge_callback_chunk X C d v w = Inr w' \<Longrightarrow> sim_step X C w w'"
| sim_rd: "run_rd_synch_callback X t w = Inr w' \<Longrightarrow> sim_step X C w w'"
| sim_rw: "run_rw_synch_callback X C t ep w = Inr w' \<Longrightarrow> sim_step X C w w'"
| sim_nsim: "run_next_sim_time_callback X t w = Inr w' \<Longrightarrow> sim_step X C w w'"
| sim_time: "run_time_callback_handler X t w = Inr w' \<Longrightarrow> sim_step X C w w'"
| sim_toggle: "run_toggle_callback X C h w = Inr w' \<Longrightarrow> sim_step X C w w'"
| sim_flush: "run_flush_put_values X C w = Inr w' \<Longrightarrow> sim_step X C w w'"
| sim_next_time: "run_next_sim_time_cb X C w = Inr w' \<Longrightarrow> sim_step X C w w'"

lemma sim_step_keeps: "client_setting X C sig \<Longrightarrow> sim_step X C w w' \<Longrightarrow> client_keeps C sig w w'"
  by (erule sim_step.cases; hypsubst)
    (blast intro: client_keeps_step client_callbacks.edge [rule_format] client_callbacks.edge_always [rule_format]
      client_callbacks.edge_chunk [rule_format] client_callbacks.rd_synch [rule_format]
      client_callbacks.rw_synch [rule_format] client_callbacks.next_sim_time [rule_format]
      client_callbacks.time [rule_format] client_keeps_toggle client_keeps_flush_callback client_keeps_next_time)+

lemma sim_steps_keep:
  assumes "client_setting X C sig" and "(sim_step X C)\<^sup>*\<^sup>* w w'"
  shows "client_keeps C sig w w'"
  using assms(2)
proof (induction rule: rtranclp_induct)
  case base
  show ?case by (rule client_keeps_refl)
next
  case (step v u)
  then show ?case using client_keeps_trans sim_step_keeps [OF assms(1)] by blast
qed

lemma reachable_inv:
  assumes "client_setting X C sig" and "(sim_step X C)\<^sup>*\<^sup>* (start_world X) w"
  shows "client_inv C sig w"
  using sim_steps_keep [OF assms] client_inv_start unfolding client_keeps_def by blast

text \<open>C4. In every state the simulation can reach from the start, by any sequence of callbacks and of lookups,
  writes to signals, reads, waits, native clocks and flushes by tasks, the invariants of the handle cache and of the put
  queue hold, and every handle stands for the signal of its name (or, after a failed lookup, for none);
  what a handle stands for never changes afterwards.\<close>

theorem simulation_keeps_invariants:
  assumes "quiet_put X" and "names_signals X sig" and "lua_clients X C"
    and "(sim_step X C)\<^sup>*\<^sup>* (start_world X) w"
  shows "handle_inv w \<and> put_inv C w
    \<and> (\<forall>r c. chdls w r = Some c \<longrightarrow> vpi_handle c = 0 \<or> vpi_handle c = sig (ch_name c))
    \<and> (\<forall>w'. (sim_step X C)\<^sup>*\<^sup>* w w' \<longrightarrow> keeps_signals w w')"
proof -
  have X: "client_setting X C sig" using assms(1-3) by (simp add: client_setting_def)
  have inv: "client_inv C sig w" by (rule reachable_inv [OF X assms(4)])
  then have "handle_inv w" "put_inv C w" "named sig w" by (simp_all add: client_inv_def)
  moreover have "keeps_signals w w'" if "(sim_step X C)\<^sup>*\<^sup>* w w'" for w'
    using sim_steps_keep [OF X that] inv by (simp add: client_keeps_def)
  ultimately show ?thesis using namedD [of sig w] by blast
qed

text \<open>What a successful lookup by name leaves.\<close>

lemma name_safe_found:
  assumes "handle_inv w" and "vpiml_handle_by_name_safe X n w = Inr (r, w')" and "r \<noteq> - 1"
  shows "\<exists>c. chdls w' r = Some c \<and> ch_name c = to_string_lossy n \<and> vpi_handle c \<noteq> 0"
proof -
  have run: "run_lookup X (By_name_safe n) w = Inr (r, w')" using assms(2) by simp
  have inv: "handle_inv w'" and cached: "cached_lookup (By_name_safe n) w' = Some r"
    using hc.call_Inr [OF assms(1) run] by blast+
  then obtain q c where "hdl_cache (env w') (to_string_lossy n) = Some q" "chdls w' q = Some c"
    "r = (if vpi_handle c = 0 then - 1 else q)" by (auto split: option.splits)
  then show ?thesis using assms(3) handle_invD(1) [OF inv, of "to_string_lossy n" q] by auto
qed

text \<open>A deferred write that is not blocked by a force is the last put of the next flush.\<close>

lemma posted_then_flushed:
  assumes X: "quiet_put X" and i: "client_inv C sig w" and c: "chdls w r = Some c" "vpi_handle c \<noteq> 0"
    and C: "\<not> feat_inertial_put C" and f: "\<not> force_blocks c (flag_of a)"
    and w1: "vpiml_write X C (Deferred a op) r w = Inr w1" and w2: "apply_pending_put_values X C w1 = Inr w2"
  shows "\<exists>v. posted_value op (flag_of a) c = Inr v \<and> last (vpi_log w2) = PutValue (vpi_handle c) v (flag_of a)"
proof -
  have "put_inv C w" "\<not> use_hdl_put_value_bak (env w)" using i by (simp_all add: client_inv_def)
  moreover have "deferred_op X C (flag_of a) op r w = Inr w1"
    using w1 by (auto simp: vpiml_write_def and_then_eq_Inr)
  ultimately show ?thesis using deferred_then_flushed [OF X C _ _ c f _ w2] by blast
qed

text \<open>C5. A write reaches the signal it names: once a client has found a name, however the simulation goes on,
  a deferred write through the handle drives, at the next flush, the signal the simulator knows under
  that name, with the value posted and after everything that was pending (unless it is a plain write
  to a signal with a pending force).\<close>

theorem named_write_drives_signal:
  assumes "quiet_put X" and "names_signals X sig" and "lua_clients X C" and "\<not> feat_inertial_put C"
    and "(sim_step X C)\<^sup>*\<^sup>* (start_world X) w"
    and "vpiml_handle_by_name_safe X n w = Inr (r, w1)" and "r \<noteq> - 1"
    and "(sim_step X C)\<^sup>*\<^sup>* w1 w2"
    and "vpiml_write X C (Deferred a op) r w2 = Inr w3" and "apply_pending_put_values X C w3 = Inr w4"
    and "a = ActForce \<or> (\<forall>c. chdls w2 r = Some c \<longrightarrow> put_value_flag c \<noteq> Some vpiForceFlag)"
  shows "\<exists>c v. chdls w2 r = Some c \<and> posted_value op (flag_of a) c = Inr v
    \<and> last (vpi_log w4) = PutValue (sig (to_string_lossy n)) v (flag_of a)"
proof -
  have X: "client_setting X C sig" using assms(1-3) by (simp add: client_setting_def)
  have i: "client_inv C sig w" by (rule reachable_inv [OF X assms(5)])
  have "client_step X C w w1"
    by (rule client_look [where k="By_name_safe n"]) (simp_all add: assms(6) lookup_on_signal_def)
  then have i1: "client_inv C sig w1" using client_keeps_step [OF X] i by (simp add: client_keeps_def)
  then have i2: "client_inv C sig w2" and k2: "keeps_signals w1 w2"
    using sim_steps_keep [OF X assms(8)] by (simp_all add: client_keeps_def)
  obtain c1 where c1: "chdls w1 r = Some c1" "ch_name c1 = to_string_lossy n" "vpi_handle c1 \<noteq> 0"
    using name_safe_found [OF _ assms(6,7)] i by (auto simp: client_inv_def)
  then obtain c where c: "chdls w2 r = Some c" "ch_name c = to_string_lossy n" "vpi_handle c \<noteq> 0"
    using k2 unfolding keeps_signals_def by metis
  have h: "vpi_handle c = sig (to_string_lossy n)"
    using namedD [of sig w2 r c] i2 c by (simp add: client_inv_def)
  have "\<not> force_blocks c (flag_of a)" using assms(11) c(1) by (cases a) (auto simp: force_blocks_def)
  from posted_then_flushed [OF assms(1) i2 c(1,3) assms(4) this assms(9,10)] show ?thesis using c(1) h by metis
qed

text \<open>A simulator with two named signals, under a Lua side whose tasks look up \<open>a\<close> when they run.\<close>

definition naming_base :: externals where
  "naming_base = recording_sim\<lparr>
     handle_by_name := (\<lambda>n w. if n = ''a'' then 1 else if n = ''b'' then 2 else 0),
     handle_by_index := (\<lambda>h i w. 0)\<rparr>"

definition naming_sim :: externals where
  "naming_sim = naming_base\<lparr>lua_pcall := (\<lambda>fn ts w.
     (None, case complex_handle_by_name naming_base ''a'' w of Inl _ \<Rightarrow> w | Inr (r, v) \<Rightarrow> v))\<rparr>"

lemma naming_sim_lookup: "complex_handle_by_name naming_base n w = complex_handle_by_name naming_sim n w"
  by (simp add: complex_handle_by_name_def Let_def naming_sim_def split: option.split)

definition naming_sig :: "string \<Rightarrow> vpiHandle" where
  "naming_sig n = (if n = ''a'' then 1 else if n = ''b'' then 2 else 0)"

lemma naming_sim_names: "names_signals naming_sim naming_sig" "quiet_put naming_sim" "lua_clients naming_sim C"
proof -
  have "utf8_valid ''a''" "utf8_valid ''b''" by (simp_all add: utf8_valid_ascii)
  then show "names_signals naming_sim naming_sig"
    by (auto simp: names_signals_def naming_sim_def naming_base_def naming_sig_def inj_on_def split: if_splits)
  show "quiet_put naming_sim" by (simp add: quiet_put_def naming_sim_def naming_base_def recording_sim_def)
  show "lua_clients naming_sim C"
    unfolding lua_clients_def
  proof (intro allI)
    fix fn ts w
    have "lua_pcall naming_sim fn ts w = (None, case complex_handle_by_name naming_sim ''a'' w of Inl _ \<Rightarrow> w | Inr (r, v) \<Rightarrow> v)"
      unfolding naming_sim_lookup [symmetric] by (simp add: naming_sim_def)
    moreover have "client_step naming_sim C w v" if "complex_handle_by_name naming_sim ''a'' w = Inr (r, v)" for r v
      by (rule client_look [where k="By_name ''a''"]) (simp_all add: that lookup_on_signal_def)
    ultimately show "(client_step naming_sim C)\<^sup>*\<^sup>* w (snd (lua_pcall naming_sim fn ts w))"
      by (auto split: sum.splits)
  qed
qed

text \<open>
  A run: \<open>b\<close> is found, a timer fires and its task finds \<open>a\<close>, \<open>a\<close> is written; then \<open>b\<close> is forced, and the
  queue flushed.
\<close>

definition demo_session :: "(raw \<times> world \<times> world \<times> world \<times> world \<times> world) res" where
  "demo_session =
     and_then (vpiml_handle_by_name_safe naming_sim ''b'' (start_world naming_sim)) (\<lambda>(r, w1).
     and_then (run_time_callback_handler naming_sim 3 w1) (\<lambda>v.
     and_then (vpiml_write naming_sim vcs_build (Deferred ActSet (OpValue 7)) 2 v) (\<lambda>w2.
     and_then (vpiml_write naming_sim vcs_build (Deferred ActForce (OpValue 9)) r w2) (\<lambda>w3.
     and_then (apply_pending_put_values naming_sim vcs_build w3) (\<lambda>w4.
       if (case chdls v 2 of None \<Rightarrow> False | Some c \<Rightarrow> vpi_handle c \<noteq> 0)
       then Inr (r, w1, v, w2, w3, w4) else Inl Hang)))))"

lemma demo_session_run:
  obtains w1 v w2 w3 w4 where
    "vpiml_handle_by_name_safe naming_sim ''b'' (start_world naming_sim) = Inr (1, w1)"
    "(sim_step naming_sim vcs_build)\<^sup>*\<^sup>* w1 w2"
    "vpiml_write naming_sim vcs_build (Deferred ActForce (OpValue 9)) 1 w2 = Inr w3"
    "apply_pending_put_values naming_sim vcs_build w3 = Inr w4"
proof -
  have "case demo_session of Inr (r, _) \<Rightarrow> r = 1 | Inl _ \<Rightarrow> False" by code_simp
  then obtain w1 v w2 w3 w4 where d: "demo_session = Inr (1, w1, v, w2, w3, w4)"
    by (auto split: sum.splits)
  have s: "vpiml_handle_by_name_safe naming_sim ''b'' (start_world naming_sim) = Inr (1, w1)"
    "run_time_callback_handler naming_sim 3 w1 = Inr v"
    "vpiml_write naming_sim vcs_build (Deferred ActSet (OpValue 7)) 2 v = Inr w2"
    "vpiml_write naming_sim vcs_build (Deferred ActForce (OpValue 9)) 1 w2 = Inr w3"
    "apply_pending_put_values naming_sim vcs_build w3 = Inr w4" "signal_at v 2"
    using d by (auto simp: demo_session_def and_then_eq_Inr signal_at_def split: if_splits option.splits)
  have "sim_step naming_sim vcs_build w1 v" using s(2) by (rule sim_time)
  moreover have "client_step naming_sim vcs_build v w2" using s(6,3) by (rule client_write)
  ultimately have "(sim_step naming_sim vcs_build)\<^sup>*\<^sup>* w1 w2"
    by (meson sim_client converse_rtranclp_into_rtranclp rtranclp.rtrancl_refl)
  then show thesis using that s(1,4,5) by blast
qed

lemma simulation_keeps_invariants_witness:
  "\<exists>w1 w. vpiml_handle_by_name_safe naming_sim ''b'' (start_world naming_sim) = Inr (1, w1)
     \<and> (sim_step naming_sim vcs_build)\<^sup>*\<^sup>* w1 w \<and> handle_inv w \<and> put_inv vcs_build w
     \<and> (\<exists>w'. vpiml_write naming_sim vcs_build (Deferred ActForce (OpValue 9)) 1 w = Inr w')"
proof (rule demo_session_run)
  fix w1 w w'
  assume w1: "vpiml_handle_by_name_safe naming_sim ''b'' (start_world naming_sim) = Inr (1, w1)"
    and w: "(sim_step naming_sim vcs_build)\<^sup>*\<^sup>* w1 w"
    and w': "vpiml_write naming_sim vcs_build (Deferred ActForce (OpValue 9)) 1 w = Inr w'"
  have "sim_step naming_sim vcs_build (start_world naming_sim) w1"
    by (rule sim_client [OF client_look [where k="By_name_safe ''b''"]]) (simp_all add: w1 lookup_on_signal_def)
  then have "(sim_step naming_sim vcs_build)\<^sup>*\<^sup>* (start_world naming_sim) w"
    using w by (rule converse_rtranclp_into_rtranclp)
  then show ?thesis using simulation_keeps_invariants [OF naming_sim_names(2,1,3)] w1 w w' by blast
qed

lemma named_write_drives_signal_witness:
  "\<exists>w3 w4 v. apply_pending_put_values naming_sim vcs_build w3 = Inr w4 \<and> last (vpi_log w4) = PutValue 2 v vpiForceFlag"
proof (rule demo_session_run)
  fix w1 w2 w3 w4
  assume s: "vpiml_handle_by_name_safe naming_sim ''b'' (start_world naming_sim) = Inr (1, w1)"
    "(sim_step naming_sim vcs_build)\<^sup>*\<^sup>* w1 w2"
    "vpiml_write naming_sim vcs_build (Deferred ActForce (OpValue 9)) 1 w2 = Inr w3"
    "apply_pending_put_values naming_sim vcs_build w3 = Inr w4"
  have C: "\<not> feat_inertial_put vcs_build" by code_simp
  have n: "naming_sig (to_string_lossy ''b'') = 2" by code_simp
  have "\<exists>c v. chdls w2 1 = Some c \<and> posted_value (OpValue 9) (flag_of ActForce) c = Inr v
      \<and> last (vpi_log w4) = PutValue (naming_sig (to_string_lossy ''b'')) v (flag_of ActForce)"
    by (rule named_write_drives_signal [OF naming_sim_names(2,1,3) C _ s(1) _ s(2-4)]) simp_all
  then show ?thesis using s(4) n by auto
qed

end
