(* ===== verification/Spec2Isabelle.thy ===== *)
theory Spec2Isabelle
  imports WriteContract DrivenWords Reentry EdgeSpec GenChunks Schedule ClockSpec HierSpec Handles TraceHooks WaveSpec SqlSpec
    BundleCrypto HostUtils Simulation
begin

text \<open>
  A model of verilua's native code, the Rust libraries between a hardware simulator (through VPI, the
  IEEE 1800 procedural interface) and the Lua virtual machine that runs the verification tasks, with
  the theorems that make it correct. Paths below are relative to \<^verbatim>\<open>src/\<close>; L stands for
  \<^verbatim>\<open>libverilua/src/\<close>.

  \<^bold>\<open>The program.\<close> A simulator loads libverilua. At start of simulation it initialises the Lua
  VM. Lua tasks read and write signals through exported \<open>vpiml_*\<close> functions and suspend on edges,
  delays and phases of the time slot; the simulator's callbacks resume them. Writes are not performed at
  once: they are queued per signal and put by a flush that a \<open>cbReadWriteSynch\<close> callback runs. The same
  Lua code can run on a recorded waveform: then a second Rust library answers the VPI calls from the
  wave file. Further parts dump the design hierarchy (with a cache file), drive clocks without Lua,
  seal Lua bundles, and give Lua a small SQLite interface.

  \<^bold>\<open>Conventions\<close> (\<^verbatim>\<open>Prelude\<close>, \<^verbatim>\<open>Text\<close>, \<^verbatim>\<open>VpiTypes\<close>). A Rust panic, an illegal step of an
  \<open>unsafe\<close> block and a hang are the left values \<open>Panic\<close>, \<open>Undefined\<close>, \<open>Hang\<close> of a sum; everything else
  is on the right, with the new state. \<open>u8\<close> to \<open>u64\<close> are words of their width; \<open>usize\<close> is \<open>nat\<close> where the
  code only counts. \<open>cfg!\<close> features are a record, so a theorem holds for every simulator build unless it
  says otherwise. A string is its UTF-8 bytes. What the code calls but does not contain is a parameter:
  the simulator's reaction to a put and its handles, the Lua VM, the allocator, the crates \<open>wellen\<close>,
  \<open>turso\<close>, \<open>aes_gcm\<close>, the file system. Every call into the simulator is appended to a log, so \<open>what is put,
  when\<close> is part of the state.

  \<^bold>\<open>State\<close> (\<^verbatim>\<open>State\<close>). \<open>complex_handle\<close> is L\<^verbatim>\<open>complex_handle.rs\<close>, \<open>verilua_env\<close> the environment of
  L\<^verbatim>\<open>verilua_env.rs\<close> and L\<^verbatim>\<open>gen/\<close>; \<open>world\<close> adds the handles by address, the native clocks and the log.

  \<^bold>\<open>Writing signals.\<close> \<^verbatim>\<open>PutQueue\<close>: \<open>try_put_value\<close>, \<open>do_push_hdl_put_value\<close> and the flush loops.
  \<^verbatim>\<open>Setters\<close>, \<^verbatim>\<open>WriteApi\<close>: the set/force/release operations of L\<^verbatim>\<open>vpi_access/value_setters.rs\<close> in
  deferred, inertial and immediate form. \<^verbatim>\<open>Flush\<close> and \<^verbatim>\<open>Reentry\<close> show what a flush does, and that it
  returns on simulators that re-enter the library, except that a re-entrant write to a signal later in the
  queue is undefined behaviour; \<^verbatim>\<open>WriteContract\<close> that deferred writes refine an ordered
  map in which force wins, and that write-then-flush puts each signal once; \<^verbatim>\<open>DrivenWords\<close> which bits a
  write drives. The termination bound there is a potential on the log that decreases with every post.

  The locale \<open>block_frame\<close> of \<^verbatim>\<open>WriteApi\<close> says what the blocks of the write functions must satisfy for a
  relation between worlds to hold of every exported write (\<open>write_frame\<close>); \<open>callback_frame\<close> of
  \<^verbatim>\<open>CallbackFrame\<close> does the same for the callbacks. The queue invariant, the time-slot accounting of
  \<^verbatim>\<open>Schedule\<close>, the clocks and the identity of handles interpret them. A handle of a failed lookup has a null
  \<open>vpiHandle\<close>; the invariant admits any number of them and asks of a write that it is made to a signal
  (\<open>signal_at\<close>).

  \<^bold>\<open>The whole system.\<close> \<^verbatim>\<open>Session\<close> composes handles, writes, reads, waits, native clocks and flushes into
  a step relation of a client; \<^verbatim>\<open>Simulation\<close> adds the callbacks of the simulator, in any order, each
  resuming tasks that are clients. The invariants the other theories assume hold in every state this reaches,
  and a write through a name drives the signal of that name.

  \<^bold>\<open>Reading signals.\<close> \<^verbatim>\<open>Getters\<close>: L\<^verbatim>\<open>vpi_access/value_getters.rs\<close>.

  \<^bold>\<open>Scheduling.\<close> \<^verbatim>\<open>EdgeCallbacks\<close>, \<^verbatim>\<open>EdgeSpec\<close>: waits for signal edges, chunked registration and
  reference counts (L\<^verbatim>\<open>vpi_callback.rs\<close>), for chunks as task lists; \<^verbatim>\<open>GenChunks\<close> has the sixteen generated
  functions of each kind (L\<^verbatim>\<open>gen/gen_register_callback_func.rs\<close>, L\<^verbatim>\<open>gen/gen_callback_policy.rs\<close>) as they are in
  the files, index loop included, and shows that they serve every wait once, in order and with the routine of
  its length, and agree with the list version. \<^verbatim>\<open>Callbacks\<close>: the read-only
  and read-write phases, timers, next-time callbacks. \<^verbatim>\<open>Schedule\<close>: a step relation for a time slot, in
  which no queued write is ever stranded. \<^verbatim>\<open>Lifecycle\<close>: initialisation and finalisation, each once.
  \<^verbatim>\<open>TraceHooks\<close>: the trace functions of L\<^verbatim>\<open>verilator_helper.rs\<close>.
  \<^verbatim>\<open>NativeClock\<close>, \<^verbatim>\<open>ClockSpec\<close>: the clock driver of L\<^verbatim>\<open>native_clock.rs\<close>, its waveform and the one-driver
  rule.

  \<^bold>\<open>Hierarchy.\<close> \<^verbatim>\<open>Hierarchy\<close>, \<^verbatim>\<open>HierSpec\<close>: traversal, filtering and output of
  L\<^verbatim>\<open>vpi_access/hierarchy_collect.rs\<close>; the depth budget is fuel, enough on every finite hierarchy. Signals may have local names or, as the
  waveform backend gives them, full dotted ones.
  \<^verbatim>\<open>HierCache\<close>: the cache file as a composition of codecs (a locale), its round trip and its rejection of
  torn files.

  \<^bold>\<open>Waveform backend.\<close> \<^verbatim>\<open>WaveValue\<close>, \<^verbatim>\<open>WaveValueSpec\<close>: value conversion and the time table of
  \<^verbatim>\<open>src/wave_vpi/wellen_impl/src/lib.rs\<close>. \<^verbatim>\<open>WaveBackend\<close>, \<^verbatim>\<open>WaveSpec\<close>: its caches, handles and iterators;
  pointer registries, lookups, iteration, finalisation and restart from the cache files, with and without a
  save.

  \<^bold>\<open>SQLite bridge.\<close> \<^verbatim>\<open>SqlBridge\<close>, \<^verbatim>\<open>SqlSpec\<close>: the C interface of \<^verbatim>\<open>src/turso_ffi/src/lib.rs\<close>, its
  registries of live pointers and its error slots. The boxes are a heap with an allocator
  (\<^verbatim>\<open>Boxes\<close>, shared with the waveform backend), so a use after free would be visible; no sequence of calls
  reaches one.

  \<^bold>\<open>Bundle encryption.\<close> \<^verbatim>\<open>BundleCrypto\<close>: key parsing, the sealed envelope and the C interface of
  L\<^verbatim>\<open>utils/bundle_crypto.rs\<close>, over an authenticated cipher.

  \<^bold>\<open>Handles, metadata, host.\<close> \<^verbatim>\<open>Handles\<close>: L\<^verbatim>\<open>vpi_access/handle_getters.rs\<close> and
  L\<^verbatim>\<open>vpi_access/meta_getters.rs\<close>, the handle cache and what it answers. \<^verbatim>\<open>HostUtils\<close>: L\<^verbatim>\<open>utils/mod.rs\<close>,
  symbol addresses, the detected simulator, control, locks and commands; \<^verbatim>\<open>Lossy\<close> is the lossy reading of
  C strings. The locale of \<^verbatim>\<open>Memo\<close> is the contract of an operation that remembers its answers; the
  handle cache, the symbol tables and the detected simulator interpret it.


  \<^bold>\<open>Not modelled.\<close> Logging, time statistics and their report; the unused part of the bindgen
  bindings \<^verbatim>\<open>vpi_user.rs\<close>; the build scripts; symbol promotion with \<open>dlopen\<close>; the C++ and Lua sides of
  the program.
\<close>

end
